(* ===== verification/Prelude.thy ===== *)
theory Prelude
  imports Main "HOL-Library.Char_ord" "HOL-Library.List_Lexorder" "HOL-Library.Sublist"
begin

section \<open>Prelude: Rust strings as byte lists, and shared lemmas\<close>

text \<open>
  A Rust \<open>str\<close> is a sequence of UTF-8 bytes, and Isabelle's \<open>char\<close> is exactly
  one byte, so a \<open>str\<close> or \<open>String\<close> of the program is modelled by the \<open>string\<close>
  of its bytes: \<open>len()\<close> is \<open>length\<close>, \<open>as_bytes()\<close> is the identity, and searching for
  an ASCII pattern is searching for its bytes.  Operations that go by character
  (\<open>chars().take(n)\<close>, \<open>trim()\<close>, \<open>char::is_whitespace\<close>) work on
  \<open>utf8_chars\<close>, which cuts the bytes at the character boundaries.  This theory holds the
  \<open>str\<close> methods of the standard library that the program uses, and the lemmas on them
  that several components share.
\<close>

named_theorems str_simps "unfolding of the string operations"

subsection \<open>Bytes and ASCII classes\<close>

abbreviation byte_of :: "char \<Rightarrow> nat" where
  "byte_of c \<equiv> of_char c"

definition is_ascii_digit :: "char \<Rightarrow> bool" where
  "is_ascii_digit c \<longleftrightarrow> 48 \<le> byte_of c \<and> byte_of c \<le> 57"

definition is_ascii_lowercase :: "char \<Rightarrow> bool" where
  "is_ascii_lowercase c \<longleftrightarrow> 97 \<le> byte_of c \<and> byte_of c \<le> 122"

definition is_ascii_uppercase :: "char \<Rightarrow> bool" where
  "is_ascii_uppercase c \<longleftrightarrow> 65 \<le> byte_of c \<and> byte_of c \<le> 90"

definition is_ascii_alphanumeric :: "char \<Rightarrow> bool" where
  "is_ascii_alphanumeric c \<longleftrightarrow>
     is_ascii_digit c \<or> is_ascii_lowercase c \<or> is_ascii_uppercase c"

definition is_ascii_hexdigit :: "char \<Rightarrow> bool" where
  "is_ascii_hexdigit c \<longleftrightarrow>
     is_ascii_digit c \<or> (97 \<le> byte_of c \<and> byte_of c \<le> 102) \<or>
     (65 \<le> byte_of c \<and> byte_of c \<le> 70)"

definition to_ascii_lowercase :: "string \<Rightarrow> string" where
  "to_ascii_lowercase s =
     map (\<lambda>c. if is_ascii_uppercase c then char_of (byte_of c + 32) else c) s"

lemmas ascii_defs = is_ascii_digit_def is_ascii_lowercase_def is_ascii_uppercase_def
  is_ascii_alphanumeric_def is_ascii_hexdigit_def to_ascii_lowercase_def

subsection \<open>Prefixes, suffixes and searching\<close>

fun strip_prefix :: "'a list \<Rightarrow> 'a list \<Rightarrow> 'a list option" where
  "strip_prefix [] s = Some s"
| "strip_prefix (p # ps) [] = None"
| "strip_prefix (p # ps) (x # xs) = (if p = x then strip_prefix ps xs else None)"

definition starts_with :: "'a list \<Rightarrow> 'a list \<Rightarrow> bool" where
  "starts_with p s \<longleftrightarrow> strip_prefix p s \<noteq> None"

definition strip_suffix :: "'a list \<Rightarrow> 'a list \<Rightarrow> 'a list option" where
  "strip_suffix p s = map_option rev (strip_prefix (rev p) (rev s))"

definition ends_with :: "'a list \<Rightarrow> 'a list \<Rightarrow> bool" where
  "ends_with p s \<longleftrightarrow> strip_suffix p s \<noteq> None"

fun contains :: "'a list \<Rightarrow> 'a list \<Rightarrow> bool" where
  "contains p [] \<longleftrightarrow> p = []"
| "contains p (x # xs) \<longleftrightarrow> starts_with p (x # xs) \<or> contains p xs"

text \<open>\<open>str::split_once\<close>: the parts before and after the first occurrence.\<close>

fun split_once :: "'a list \<Rightarrow> 'a list \<Rightarrow> ('a list \<times> 'a list) option" where
  "split_once p [] = (if p = [] then Some ([], []) else None)"
| "split_once p (x # xs) =
     (case strip_prefix p (x # xs) of
        Some r \<Rightarrow> Some ([], r)
      | None \<Rightarrow> map_option (\<lambda>(a, b). (x # a, b)) (split_once p xs))"

text \<open>\<open>str::split(c)\<close>: always at least one part, empty parts kept.\<close>

fun split_on :: "'a \<Rightarrow> 'a list \<Rightarrow> 'a list list" where
  "split_on c [] = [[]]"
| "split_on c (x # xs) =
     (if x = c then [] # split_on c xs
      else (case split_on c xs of [] \<Rightarrow> [[x]] | y # ys \<Rightarrow> (x # y) # ys))"

text \<open>
  \<open>str::replace\<close>: every non-overlapping occurrence, from left to right.  The program
  only replaces non-empty patterns; an empty pattern is left alone here.
\<close>

function str_replace :: "'a list \<Rightarrow> 'a list \<Rightarrow> 'a list \<Rightarrow> 'a list" where
  "str_replace p r [] = []"
| "str_replace p r (x # xs) =
     (if p \<noteq> [] \<and> starts_with p (x # xs)
      then r @ str_replace p r (drop (length p) (x # xs))
      else x # str_replace p r xs)"
  by pat_completeness auto
termination
  by (relation "measure (\<lambda>(p, r, s). length s)") (auto simp: neq_Nil_conv)

text \<open>\<open>slice::join\<close> / \<open>concat\<close> with a separator.\<close>

fun join_with :: "'a list \<Rightarrow> 'a list list \<Rightarrow> 'a list" where
  "join_with sep [] = []"
| "join_with sep [x] = x"
| "join_with sep (x # y # ys) = x @ sep @ join_with sep (y # ys)"

subsection \<open>Characters of a UTF-8 string\<close>

definition is_utf8_cont :: "char \<Rightarrow> bool" where
  "is_utf8_cont c \<longleftrightarrow> 128 \<le> byte_of c \<and> byte_of c < 192"

function utf8_chars :: "string \<Rightarrow> string list" where
  "utf8_chars [] = []"
| "utf8_chars (x # xs) =
     (x # takeWhile is_utf8_cont xs) # utf8_chars (dropWhile is_utf8_cont xs)"
  by pat_completeness auto
termination
  by (relation "measure length") (auto simp: le_imp_less_Suc length_dropWhile_le)

text \<open>
  \<open>char::is_whitespace\<close> (the Unicode property White\_Space) and \<open>char::is_control\<close>
  (the category Cc), by the UTF-8 bytes of the character.
\<close>

definition char_is_whitespace :: "string \<Rightarrow> bool" where
  "char_is_whitespace ch \<longleftrightarrow>
     map byte_of ch \<in> set
       [[9], [10], [11], [12], [13], [32], [194, 133], [194, 160], [225, 154, 128],
        [226, 128, 128], [226, 128, 129], [226, 128, 130], [226, 128, 131],
        [226, 128, 132], [226, 128, 133], [226, 128, 134], [226, 128, 135],
        [226, 128, 136], [226, 128, 137], [226, 128, 138], [226, 128, 168],
        [226, 128, 169], [226, 128, 175], [226, 129, 159], [227, 128, 128]]"

definition char_is_control :: "string \<Rightarrow> bool" where
  "char_is_control ch \<longleftrightarrow>
     (case map byte_of ch of
        [a] \<Rightarrow> a < 32 \<or> a = 127
      | [a, b] \<Rightarrow> a = 194 \<and> 128 \<le> b \<and> b < 160
      | _ \<Rightarrow> False)"

definition trim :: "string \<Rightarrow> string" where
  "trim s = concat (rev (dropWhile char_is_whitespace
     (rev (dropWhile char_is_whitespace (utf8_chars s)))))"

text \<open>\<open>s.chars().take(n).collect()\<close>.\<close>

definition take_chars :: "nat \<Rightarrow> string \<Rightarrow> string" where
  "take_chars n s = concat (take n (utf8_chars s))"

subsection \<open>Decimal rendering of an unsigned integer\<close>

definition digit_char :: "nat \<Rightarrow> char" where
  "digit_char d = char_of (48 + d)"

fun nat_dec :: "nat \<Rightarrow> string" where
  "nat_dec n = (if n < 10 then [digit_char n] else nat_dec (n div 10) @ [digit_char (n mod 10)])"

declare nat_dec.simps [simp del]

text \<open>The quote of the messages.\<close>

abbreviation SQ :: string where
  "SQ \<equiv> [CHR 0x27]"

subsection \<open>Lemmas on prefixes and searching\<close>

lemma strip_prefix_Some_iff: "strip_prefix p s = Some r \<longleftrightarrow> s = p @ r"
  by (induction p s rule: strip_prefix.induct) auto

lemma strip_prefix_append [simp]: "strip_prefix p (p @ r) = Some r"
  by (simp add: strip_prefix_Some_iff)

lemma starts_with_iff: "starts_with p s \<longleftrightarrow> (\<exists>r. s = p @ r)"
  by (auto simp: starts_with_def strip_prefix_Some_iff)

lemma starts_with_prefix: "starts_with p s \<longleftrightarrow> prefix p s"
  by (auto simp: starts_with_iff prefix_def)

lemma starts_with_Nil [simp]: "starts_with [] s"
  by (simp add: starts_with_iff)

lemma starts_with_Cons [simp]:
  "starts_with (p # ps) (x # xs) \<longleftrightarrow> p = x \<and> starts_with ps xs"
  by (auto simp: starts_with_def)

lemma starts_with_Cons_Nil [simp]: "\<not> starts_with (p # ps) []"
  by (simp add: starts_with_def)

lemma starts_with_append [simp]: "starts_with p (p @ r)"
  by (auto simp: starts_with_iff)

lemma starts_with_appendI: "starts_with p s \<Longrightarrow> starts_with p (s @ t)"
  by (auto simp: starts_with_iff)

lemma starts_with_short: "length p \<le> length s \<Longrightarrow> starts_with p (s @ t) = starts_with p s"
  unfolding starts_with_prefix by (auto simp: prefix_append)

lemma strip_suffix_Some_iff: "strip_suffix p s = Some r \<longleftrightarrow> s = r @ p"
  by (auto simp: strip_suffix_def strip_prefix_Some_iff) (metis rev_append rev_rev_ident)

lemma ends_with_iff: "ends_with p s \<longleftrightarrow> (\<exists>r. s = r @ p)"
  by (auto simp: ends_with_def strip_suffix_Some_iff)

lemma contains_sublist: "contains p s \<longleftrightarrow> sublist p s"
  by (induction s) (auto simp: starts_with_prefix sublist_Cons_right)

lemma contains_iff: "contains p s \<longleftrightarrow> (\<exists>u v. s = u @ p @ v)"
  by (simp add: contains_sublist sublist_def)

lemma contains_self [simp]: "contains p p"
  by (simp add: contains_sublist)

lemma contains_append: "contains p s \<or> contains p t \<Longrightarrow> contains p (s @ t)"
  by (auto simp: contains_sublist sublist_append)

lemma contains_trans: "contains p q \<Longrightarrow> contains q s \<Longrightarrow> contains p s"
  unfolding contains_sublist by (rule sublist_order.order_trans)

lemma starts_with_contains: "starts_with p s \<Longrightarrow> contains p s"
  by (simp add: starts_with_prefix contains_sublist)

lemma contains_drop: "contains p (drop i s) \<Longrightarrow> contains p s"
  by (metis append_take_drop_id contains_append)

lemma split_once_SomeD: "split_once p s = Some (a, b) \<Longrightarrow> s = a @ p @ b"
  by (induction s arbitrary: a)
    (auto simp: strip_prefix_Some_iff split: if_splits option.splits)

subsection \<open>Lemmas on replacing\<close>

lemma str_replace_absent: "\<not> contains p s \<Longrightarrow> str_replace p r s = s"
  by (induction s) auto

lemma str_replace_hit [simp]:
  "p \<noteq> [] \<Longrightarrow> str_replace p r (p @ s) = r @ str_replace p r s"
  by (cases p) (auto simp: starts_with_iff)

lemma str_replace_skip:
  assumes "\<And>i. i < length u \<Longrightarrow> \<not> starts_with p (drop i (u @ s))"
  shows "str_replace p r (u @ s) = u @ str_replace p r s"
  using assms
proof (induction u)
  case Nil
  then show ?case by simp
next
  case (Cons x u)
  from Cons.prems [of 0] have here: "\<not> starts_with p (x # u @ s)" by simp
  have "str_replace p r (u @ s) = u @ str_replace p r s"
  proof (rule Cons.IH)
    fix i assume "i < length u"
    then show "\<not> starts_with p (drop i (u @ s))" using Cons.prems [of "Suc i"] by simp
  qed
  with here show ?case by simp
qed

subsection \<open>Lemmas on splitting\<close>

lemma split_on_nonempty [simp]: "split_on c s \<noteq> []"
  by (cases s) (auto split: list.splits)

lemma split_on_no_sep: "seg \<in> set (split_on c s) \<Longrightarrow> c \<notin> set seg"
proof (induction s arbitrary: seg)
  case Nil
  then show ?case by simp
next
  case (Cons x s)
  then show ?case by (cases "split_on c s") (auto split: if_splits)
qed

lemma join_split_on: "join_with [c] (split_on c s) = s"
proof (induction s)
  case Nil
  then show ?case by simp
next
  case (Cons x s)
  then show ?case
    by (cases "split_on c s"; cases "tl (split_on c s)") (auto split: list.splits)
qed

lemma split_on_append_sep: "split_on c (s @ c # t) = split_on c s @ split_on c t"
proof (induction s)
  case Nil
  then show ?case by simp
next
  case (Cons x s)
  then show ?case by (cases "split_on c s") auto
qed

lemma split_on_single: "c \<notin> set s \<Longrightarrow> split_on c s = [s]"
  by (induction s) auto

subsection \<open>Lemmas on characters and decimals\<close>

lemma concat_utf8_chars [simp]: "concat (utf8_chars s) = s"
  by (induction s rule: utf8_chars.induct) auto

lemma take_chars_prefix: "prefix (take_chars n s) s"
  unfolding take_chars_def
  by (metis append_take_drop_id concat_append concat_utf8_chars prefixI)

lemma byte_of_digit_char: "d < 10 \<Longrightarrow> byte_of (digit_char d) = 48 + d"
  by (simp add: digit_char_def)

lemma digit_char_numeral [simp]:
  "digit_char 0 = CHR ''0''" "digit_char 1 = CHR ''1''" "digit_char (Suc 0) = CHR ''1''"
  "digit_char 2 = CHR ''2''" "digit_char 3 = CHR ''3''" "digit_char 4 = CHR ''4''"
  "digit_char 5 = CHR ''5''" "digit_char 6 = CHR ''6''" "digit_char 7 = CHR ''7''"
  "digit_char 8 = CHR ''8''" "digit_char 9 = CHR ''9''"
  by (simp_all add: digit_char_def char_of_def bit_0)

lemma digit_char_inj: "d < 10 \<Longrightarrow> e < 10 \<Longrightarrow> digit_char d = digit_char e \<longleftrightarrow> d = e"
  by (metis add_left_cancel byte_of_digit_char)

lemma nat_dec_digits: "c \<in> set (nat_dec n) \<Longrightarrow> is_ascii_digit c"
proof (induction n rule: nat_dec.induct)
  case (1 n)
  have digit: "is_ascii_digit (digit_char d)" if "d < 10" for d
    using that by (simp add: is_ascii_digit_def byte_of_digit_char)
  show ?case
    using 1 digit [of n] digit [of "n mod 10"]
    by (auto simp: nat_dec.simps [of n] split: if_splits)
qed

lemma nat_dec_nonempty [simp]: "nat_dec n \<noteq> []"
  by (simp add: nat_dec.simps [of n])

lemma nat_dec_inj: "nat_dec m = nat_dec n \<Longrightarrow> m = n"
proof (induction m arbitrary: n rule: nat_dec.induct)
  case (1 m)
  show ?case
  proof (cases "m < 10")
    case True
    then show ?thesis
      using 1(2) nat_dec_nonempty [of "n div 10"]
      by (auto simp: nat_dec.simps [of m] nat_dec.simps [of n] digit_char_inj
          simp del: nat_dec_nonempty split: if_splits)
  next
    case False
    with 1(2) have n: "\<not> n < 10"
      by (auto simp: nat_dec.simps [of m] nat_dec.simps [of n] split: if_splits)
    with 1(2) False have "nat_dec (m div 10) = nat_dec (n div 10)"
        and last: "digit_char (m mod 10) = digit_char (n mod 10)"
      by (simp_all add: nat_dec.simps [of m] nat_dec.simps [of n])
    then have "m div 10 = n div 10" and "m mod 10 = n mod 10"
      using 1(1) [OF False] by (simp_all add: digit_char_inj)
    then show ?thesis by (metis div_mult_mod_eq)
  qed
qed

end
