(* ===== verification/Json.thy ===== *)
theory Json
  imports Prelude "HOL-Library.Word"
begin

section \<open>JSON values, key-sorted maps and JSON pointers\<close>

text \<open>
  The data that \<open>serde_json::Value\<close> holds, with the accessors the program calls on it.
  A \<open>Map\<close> of serde\_json without its \<open>preserve_order\<close> feature (Cargo.toml does not
  enable it) is a \<open>BTreeMap\<close>: an association list kept strictly sorted by key
  (\<open>json_wf\<close>).  Parsing and printing JSON text is third-party code and stays a parameter
  of the components that use it.  \<open>pointer_get\<close> and \<open>pointer_set\<close> are the documented
  meaning of \<open>Value::pointer\<close> and \<open>Value::pointer_mut\<close> (RFC 6901).  The lemmas show
  that a pointer rendered from its tokens leads back to the same tokens, and how reading
  and writing along pointers interact.
\<close>

subsection \<open>Values\<close>

datatype jnumber = PosInt "64 word" | NegInt "64 word" | FloatNum string

datatype json =
    JNull
  | JBool bool
  | JNum jnumber
  | JStr string
  | JArr "json list"
  | JObj "(string \<times> json) list"

fun map_insert :: "string \<Rightarrow> 'v \<Rightarrow> (string \<times> 'v) list \<Rightarrow> (string \<times> 'v) list" where
  "map_insert k v [] = [(k, v)]"
| "map_insert k v ((k', v') # m) =
     (if k = k' then (k, v) # m
      else if k < k' then (k, v) # (k', v') # m
      else (k', v') # map_insert k v m)"

definition map_remove :: "string \<Rightarrow> (string \<times> 'v) list \<Rightarrow> (string \<times> 'v) list" where
  "map_remove k m = filter (\<lambda>(k', v). k' \<noteq> k) m"

definition sorted_keys :: "(string \<times> 'v) list \<Rightarrow> bool" where
  "sorted_keys m \<longleftrightarrow> sorted_wrt (<) (map fst m)"

fun json_wf :: "json \<Rightarrow> bool" where
  "json_wf (JArr vs) \<longleftrightarrow> list_all json_wf vs"
| "json_wf (JObj kvs) \<longleftrightarrow> sorted_keys kvs \<and> list_all (\<lambda>(k, v). json_wf v) kvs"
| "json_wf _ \<longleftrightarrow> True"

definition obj_get :: "json \<Rightarrow> string \<Rightarrow> json option" where
  "obj_get v k = (case v of JObj kvs \<Rightarrow> map_of kvs k | _ \<Rightarrow> None)"

definition as_str :: "json \<Rightarrow> string option" where
  "as_str v = (case v of JStr s \<Rightarrow> Some s | _ \<Rightarrow> None)"

definition is_string :: "json \<Rightarrow> bool" where
  "is_string v \<longleftrightarrow> as_str v \<noteq> None"

definition as_array :: "json \<Rightarrow> json list option" where
  "as_array v = (case v of JArr vs \<Rightarrow> Some vs | _ \<Rightarrow> None)"

definition as_object :: "json \<Rightarrow> (string \<times> json) list option" where
  "as_object v = (case v of JObj kvs \<Rightarrow> Some kvs | _ \<Rightarrow> None)"

definition as_u64 :: "json \<Rightarrow> 64 word option" where
  "as_u64 v = (case v of JNum (PosInt n) \<Rightarrow> Some n | _ \<Rightarrow> None)"

text \<open>\<open>json!\<close> of an object: its entries inserted one by one.\<close>

definition json_obj :: "(string \<times> json) list \<Rightarrow> json" where
  "json_obj kvs = JObj (foldl (\<lambda>m (k, v). map_insert k v m) [] kvs)"

lemmas json_access = obj_get_def as_str_def is_string_def as_array_def as_object_def as_u64_def

subsection \<open>Paths of tokens\<close>

text \<open>An array index token: decimal digits without a leading zero.\<close>

definition parse_index :: "string \<Rightarrow> nat option" where
  "parse_index t =
     (if t = [] \<or> \<not> list_all is_ascii_digit t \<or> (hd t = CHR ''0'' \<and> length t \<noteq> 1) then None
      else Some (foldl (\<lambda>n c. n * 10 + (byte_of c - 48)) 0 t))"

definition child :: "json \<Rightarrow> string \<Rightarrow> json option" where
  "child v t =
     (case v of
        JObj kvs \<Rightarrow> map_of kvs t
      | JArr vs \<Rightarrow>
          (case parse_index t of
             Some i \<Rightarrow> if i < length vs then Some (vs ! i) else None
           | None \<Rightarrow> None)
      | _ \<Rightarrow> None)"

definition set_child :: "json \<Rightarrow> string \<Rightarrow> json \<Rightarrow> json" where
  "set_child v t w =
     (case v of
        JObj kvs \<Rightarrow> JObj (map (\<lambda>(k, x). (k, if k = t then w else x)) kvs)
      | JArr vs \<Rightarrow> (case parse_index t of Some i \<Rightarrow> JArr (vs[i := w]) | None \<Rightarrow> v)
      | _ \<Rightarrow> v)"

fun nav :: "json \<Rightarrow> string list \<Rightarrow> json option" where
  "nav v [] = Some v"
| "nav v (t # ts) = (case child v t of Some w \<Rightarrow> nav w ts | None \<Rightarrow> None)"

fun nav_set :: "json \<Rightarrow> string list \<Rightarrow> json \<Rightarrow> json" where
  "nav_set v [] w = w"
| "nav_set v (t # ts) w =
     (case child v t of Some x \<Rightarrow> set_child v t (nav_set x ts w) | None \<Rightarrow> v)"

subsection \<open>Pointers as text\<close>

definition escape_token :: "string \<Rightarrow> string" where
  "escape_token t = str_replace ''/'' ''~1'' (str_replace ''~'' ''~0'' t)"

definition unescape_token :: "string \<Rightarrow> string" where
  "unescape_token t = str_replace ''~0'' ''~'' (str_replace ''~1'' ''/'' t)"

definition pointer_tokens :: "string \<Rightarrow> string list option" where
  "pointer_tokens p =
     (if p = [] then Some []
      else if starts_with ''/'' p
      then Some (map unescape_token (tl (split_on (CHR ''/'') p)))
      else None)"

definition pointer_get :: "json \<Rightarrow> string \<Rightarrow> json option" where
  "pointer_get v p = Option.bind (pointer_tokens p) (nav v)"

definition pointer_set :: "json \<Rightarrow> string \<Rightarrow> json \<Rightarrow> json" where
  "pointer_set v p w =
     (case pointer_tokens p of Some ts \<Rightarrow> nav_set v ts w | None \<Rightarrow> v)"

definition render_pointer :: "string list \<Rightarrow> string" where
  "render_pointer ts = concat (map (\<lambda>t. CHR ''/'' # escape_token t) ts)"

subsection \<open>Sorted maps\<close>

lemma map_of_map_insert [simp]: "map_of (map_insert k v m) = (map_of m)(k \<mapsto> v)"
  by (induction k v m rule: map_insert.induct) auto

lemma keys_map_insert [simp]: "fst ` set (map_insert k v m) = insert k (fst ` set m)"
  by (induction k v m rule: map_insert.induct) auto

lemma sorted_keys_Cons [simp]:
  "sorted_keys ((k, v) # m) \<longleftrightarrow> sorted_keys m \<and> (\<forall>k' \<in> fst ` set m. k < k')"
  by (auto simp: sorted_keys_def)

lemma sorted_keys_Nil [simp]: "sorted_keys []"
  by (simp add: sorted_keys_def)

lemma sorted_keys_distinct: "sorted_keys m \<Longrightarrow> distinct (map fst m)"
  by (simp add: sorted_keys_def strict_sorted_iff)

lemma sorted_keys_insert [simp]: "sorted_keys m \<Longrightarrow> sorted_keys (map_insert k v m)"
proof (induction k v m rule: map_insert.induct)
  case (2 k v k' v' m)
  then show ?case by (auto simp: not_less_iff_gr_or_eq ball_Un)
qed simp

lemma foldl_insert: "map_of (foldl (\<lambda>m (k, v). map_insert k v m) m kvs) = map_of m ++ map_of (rev kvs)"
  by (induction kvs arbitrary: m) (auto simp: map_add_def fun_eq_iff split: option.splits)

lemma obj_get_json_obj: "obj_get (json_obj kvs) k = map_of (rev kvs) k"
  by (simp add: json_obj_def obj_get_def foldl_insert)

lemma sorted_keys_remove [simp]: "sorted_keys m \<Longrightarrow> sorted_keys (map_remove k m)"
  by (induction m) (auto simp: map_remove_def)

lemma map_of_map_remove [simp]: "map_of (map_remove k m) = (map_of m)(k := None)"
  by (induction m) (auto simp: map_remove_def)

text \<open>Two key-sorted maps with the same entries are the same list.\<close>

lemma sorted_keys_eqI:
  "sorted_keys m \<Longrightarrow> sorted_keys m' \<Longrightarrow> map_of m = map_of m' \<Longrightarrow> m = m'"
proof -
  assume sm: "sorted_keys m" and sm': "sorted_keys m'" and eq: "map_of m = map_of m'"
  have keys: "map fst m = map fst m'"
  proof (rule strict_sorted_equal)
    show "sorted_wrt (<) (map fst m)" "sorted_wrt (<) (map fst m')"
      using sm sm' by (simp_all add: sorted_keys_def)
    show "set (map fst m) = set (map fst m')"
      using eq by (metis dom_map_of_conv_image_fst list.set_map)
  qed
  from sm sm' have dist: "distinct (map fst m)" "distinct (map fst m')"
    by (simp_all add: sorted_keys_distinct)
  have "map snd m = map (the \<circ> map_of m) (map fst m)"
    using dist(1) by (auto simp: map_of_is_SomeI)
  also have "\<dots> = map (the \<circ> map_of m') (map fst m')"
    by (simp only: eq keys)
  also have "\<dots> = map snd m'"
    using dist(2) by (auto simp: map_of_is_SomeI)
  finally have "map snd m = map snd m'" .
  with keys show "m = m'" by (metis zip_map_fst_snd)
qed

subsection \<open>Escaping round trip\<close>

lemma str_replace_char: "str_replace [c] r s = concat (map (\<lambda>x. if x = c then r else [x]) s)"
  by (induction s) auto

lemma escape_token_alt:
  "escape_token t = concat (map (\<lambda>c. if c = CHR ''~'' then ''~0''
     else if c = CHR ''/'' then ''~1'' else [c]) t)"
  unfolding escape_token_def str_replace_char by (induction t) auto

lemma escape_token_Cons:
  "escape_token (c # t) = (if c = CHR ''~'' then ''~0''
     else if c = CHR ''/'' then ''~1'' else [c]) @ escape_token t"
  by (simp add: escape_token_alt)

lemma escape_token_Nil [simp]: "escape_token [] = []"
  by (simp add: escape_token_alt)

lemma escape_token_no_slash: "CHR ''/'' \<notin> set (escape_token t)"
  by (induction t) (auto simp: escape_token_Cons)

lemma unescape_first:
  "str_replace ''~1'' ''/'' (escape_token t) =
     concat (map (\<lambda>c. if c = CHR ''~'' then ''~0'' else [c]) t)"
  by (induction t) (auto simp: escape_token_Cons)

lemma unescape_second:
  "str_replace ''~0'' ''~'' (concat (map (\<lambda>c. if c = CHR ''~'' then ''~0'' else [c]) t)) = t"
  by (induction t) auto

lemma unescape_escape [simp]: "unescape_token (escape_token t) = t"
  by (simp add: unescape_token_def unescape_first unescape_second)

lemma escape_token_inj: "escape_token s = escape_token t \<longleftrightarrow> s = t"
  by (metis unescape_escape)

subsection \<open>Rendered pointers\<close>

lemma render_pointer_Nil [simp]: "render_pointer [] = []"
  by (simp add: render_pointer_def)

lemma render_pointer_snoc:
  "render_pointer (ts @ [t]) = render_pointer ts @ CHR ''/'' # escape_token t"
  by (simp add: render_pointer_def)

lemma render_pointer_Cons [simp]:
  "render_pointer (t # ts) = CHR ''/'' # escape_token t @ render_pointer ts"
  by (simp add: render_pointer_def)

lemma render_pointer_append:
  "render_pointer (ts @ us) = render_pointer ts @ render_pointer us"
  by (simp add: render_pointer_def)

lemma split_on_prefix: "c \<notin> set s \<Longrightarrow> split_on c (s @ t) =
   (s @ hd (split_on c t)) # tl (split_on c t)"
proof (induction s)
  case Nil
  then show ?case by simp
next
  case (Cons x s)
  then show ?case by auto
qed

lemma split_render_pointer:
  "split_on (CHR ''/'') (render_pointer ts) = [] # map escape_token ts"
proof (induction ts)
  case Nil
  then show ?case by simp
next
  case (Cons t ts)
  then show ?case by (simp add: split_on_prefix escape_token_no_slash)
qed

lemma pointer_tokens_render [simp]: "pointer_tokens (render_pointer ts) = Some ts"
  using split_render_pointer [of ts]
  by (cases ts) (auto simp: pointer_tokens_def comp_def map_idI)

lemma render_pointer_inj: "render_pointer ts = render_pointer us \<longleftrightarrow> ts = us"
  by (metis option.inject pointer_tokens_render)

lemma pointer_get_render: "pointer_get v (render_pointer ts) = nav v ts"
  by (simp add: pointer_get_def)

lemma pointer_set_render: "pointer_set v (render_pointer ts) w = nav_set v ts w"
  by (simp add: pointer_set_def)

subsection \<open>Index tokens\<close>

lemma foldl_digits_append:
  "foldl (\<lambda>n c. n * 10 + (byte_of c - 48)) a (s @ [digit_char d]) =
     foldl (\<lambda>n c. n * 10 + (byte_of c - 48)) a s * 10 + d" if "d < 10"
  using that by (simp add: byte_of_digit_char)

lemma foldl_nat_dec: "foldl (\<lambda>n c. n * 10 + (byte_of c - 48)) 0 (nat_dec n) = n"
proof (induction n rule: nat_dec.induct)
  case (1 n)
  then show ?case
    by (cases "n < 10") (simp_all add: nat_dec.simps [of n] byte_of_digit_char)
qed

lemma hd_nat_dec: "0 < n \<Longrightarrow> hd (nat_dec n) \<noteq> CHR ''0''"
proof (induction n rule: nat_dec.induct)
  case (1 n)
  show ?case
  proof (cases "n < 10")
    case True
    then have "byte_of (digit_char n) = 48 + n" by (simp add: byte_of_digit_char)
    with 1(2) True show ?thesis by (auto simp: nat_dec.simps [of n])
  next
    case False
    with 1 show ?thesis by (simp add: nat_dec.simps [of n])
  qed
qed

lemma parse_index_nat_dec [simp]: "parse_index (nat_dec n) = Some n"
proof -
  have "list_all is_ascii_digit (nat_dec n)"
    by (simp add: list_all_iff nat_dec_digits)
  moreover have "hd (nat_dec n) = CHR ''0'' \<Longrightarrow> length (nat_dec n) = 1"
    using hd_nat_dec [of n] by (cases n) (auto simp: nat_dec.simps [of 0])
  ultimately show ?thesis by (simp add: parse_index_def foldl_nat_dec)
qed

lemma nat_dec_escape [simp]: "escape_token (nat_dec n) = nat_dec n"
proof -
  have "escape_token s = s" if "\<forall>c \<in> set s. is_ascii_digit c" for s
    using that by (induction s) (auto simp: escape_token_Cons is_ascii_digit_def)
  then show ?thesis by (simp add: nat_dec_digits)
qed

subsection \<open>Reading and writing along a path\<close>

lemma nav_append: "nav v (ts @ us) = Option.bind (nav v ts) (\<lambda>w. nav w us)"
  by (induction v ts rule: nav.induct) (auto split: option.splits)

lemma map_of_overwrite:
  "map_of (map (\<lambda>(k, x). (k, if k = t then w else x)) m) k' =
     (if k' = t then map_option (\<lambda>_. w) (map_of m t) else map_of m k')"
  by (induction m) auto

lemma child_set_child_same:
  "child v t = Some x \<Longrightarrow> child (set_child v t w) t = Some w"
  by (auto simp: child_def set_child_def map_of_overwrite
      split: json.splits option.splits if_splits)

lemma parse_index_nat_decD: "parse_index t = Some n \<Longrightarrow> t = nat_dec n"
proof (induction t arbitrary: n rule: rev_induct)
  case Nil
  then show ?case by (simp add: parse_index_def)
next
  case (snoc c t)
  define d where "d = byte_of c - 48"
  have dig: "is_ascii_digit c" and dt: "list_all is_ascii_digit t"
    using snoc.prems by (auto simp: parse_index_def split: if_splits)
  from dig have d: "d < 10" and c: "c = digit_char d"
    by (auto simp: d_def is_ascii_digit_def digit_char_def)
  show ?case
  proof (cases "t = []")
    case True
    with snoc.prems d c show ?thesis
      by (auto simp: parse_index_def nat_dec.simps [of n] byte_of_digit_char split: if_splits)
  next
    case False
    define m where "m = foldl (\<lambda>n c. n * 10 + (byte_of c - 48)) 0 t"
    have nz: "hd t \<noteq> CHR ''0''"
      using snoc.prems False by (auto simp: parse_index_def split: if_splits)
    with False dt have "parse_index t = Some m" by (simp add: parse_index_def m_def)
    then have t: "t = nat_dec m" by (rule snoc.IH)
    have n: "n = m * 10 + d"
      using snoc.prems by (auto simp: parse_index_def m_def d_def split: if_splits)
    have "m \<noteq> 0" using t nz by (cases m) (auto simp: nat_dec.simps [of 0])
    with n d have "\<not> n < 10" "n div 10 = m" "n mod 10 = d" by auto
    with t c show ?thesis by (simp add: nat_dec.simps [of n])
  qed
qed

lemma parse_index_inj:
  "parse_index s = Some n \<Longrightarrow> parse_index t = Some n \<Longrightarrow> s = t"
  using parse_index_nat_decD by metis

lemma child_set_child_other:
  "t' \<noteq> t \<Longrightarrow> child (set_child v t w) t' = child v t'"
proof (cases "\<exists>vs i. v = JArr vs \<and> parse_index t = Some i")
  case True
  then obtain vs i where v: "v = JArr vs" and i: "parse_index t = Some i" by blast
  assume "t' \<noteq> t"
  with i have "parse_index t' \<noteq> Some i" using parse_index_inj by blast
  then show ?thesis
    using v i by (cases "parse_index t'") (auto simp: child_def set_child_def)
qed (auto simp: child_def set_child_def map_of_overwrite split: json.splits option.splits)

lemma nav_nav_set_same: "nav v ts = Some x \<Longrightarrow> nav (nav_set v ts w) ts = Some w"
  by (induction v ts w arbitrary: x rule: nav_set.induct)
    (auto simp: child_set_child_same split: option.splits)

text \<open>Writing at one path leaves every path that is neither above nor below it alone.\<close>

lemma nav_nav_set_other:
  "\<not> prefix ts us \<Longrightarrow> \<not> prefix us ts \<Longrightarrow> nav (nav_set v ts w) us = nav v us"
proof (induction v ts w arbitrary: us rule: nav_set.induct)
  case (1 v w)
  then show ?case by simp
next
  case (2 v t ts w)
  then obtain u us' where us: "us = u # us'" by (cases us) auto
  show ?case
  proof (cases "child v t")
    case None
    then show ?thesis by simp
  next
    case (Some x)
    then show ?thesis
      using 2 us by (cases "u = t") (auto simp: child_set_child_same child_set_child_other)
  qed
qed

lemma nav_string_leaf: "nav v ts = Some (JStr s) \<Longrightarrow> us \<noteq> [] \<Longrightarrow> nav v (ts @ us) = None"
  by (cases us) (auto simp: nav_append child_def)

text \<open>Two different string leaves: overwriting the one keeps the other.\<close>

lemma nav_nav_set_leaf:
  assumes "nav v ts = Some (JStr a)" and "nav v us = Some (JStr b)" and "us \<noteq> ts"
  shows "nav (nav_set v ts w) us = Some (JStr b)"
proof -
  have "\<not> prefix ts us"
    using assms nav_string_leaf [OF assms(1)] by (force simp: prefix_def)
  moreover have "\<not> prefix us ts"
    using assms nav_string_leaf [OF assms(2)] by (force simp: prefix_def)
  ultimately show ?thesis using assms(2) by (simp add: nav_nav_set_other)
qed

text \<open>And it makes no string leaf elsewhere.\<close>

lemma nav_nav_set_leaf_back:
  assumes "nav v ts = Some (JStr a)" and "nav (nav_set v ts (JStr r)) us = Some (JStr c)" and "us \<noteq> ts"
  shows "nav v us = Some (JStr c)"
proof -
  have same: "nav (nav_set v ts (JStr r)) ts = Some (JStr r)"
    using assms(1) by (rule nav_nav_set_same)
  have "\<not> prefix ts us"
    using assms(2,3) nav_string_leaf [OF same] by (force simp: prefix_def)
  moreover have "\<not> prefix us ts"
    using assms(3) same nav_string_leaf [OF assms(2)] by (force simp: prefix_def)
  ultimately show ?thesis using assms(2) by (simp add: nav_nav_set_other)
qed

lemma set_child_wf:
  "json_wf v \<Longrightarrow> json_wf w \<Longrightarrow> json_wf (set_child v t w)"
proof (cases v)
  case (JObj kvs)
  assume "json_wf v" and w: "json_wf w"
  with JObj have "sorted_keys kvs" and all: "list_all (\<lambda>(k, v). json_wf v) kvs" by auto
  then have "sorted_keys (map (\<lambda>(k, x). (k, if k = t then w else x)) kvs)"
    by (simp add: sorted_keys_def comp_def case_prod_beta)
  moreover have "list_all (\<lambda>(k, v). json_wf v) (map (\<lambda>(k, x). (k, if k = t then w else x)) kvs)"
    using all w by (induction kvs) auto
  ultimately show ?thesis using JObj by (simp add: set_child_def)
next
  case (JArr vs)
  assume "json_wf v" and "json_wf w"
  with JArr show ?thesis
    by (auto simp: set_child_def list_all_iff split: option.splits
        dest!: set_update_subset_insert [THEN subsetD])
qed (auto simp: set_child_def)

lemma child_wf: "json_wf v \<Longrightarrow> child v t = Some x \<Longrightarrow> json_wf x"
  by (auto simp: child_def list_all_iff split: json.splits option.splits if_splits
      dest: map_of_SomeD)

lemma nav_set_wf: "json_wf v \<Longrightarrow> json_wf w \<Longrightarrow> json_wf (nav_set v ts w)"
  by (induction v ts w rule: nav_set.induct)
    (auto split: option.splits intro: set_child_wf child_wf)

end
