(* ===== verification/Extract.thy ===== *)
theory Extract
  imports Json
begin

section \<open>Request extraction (src/pipeline/extract.rs)\<close>

text \<open>
  The strings of a request body that are scanned, each with the JSON pointer of its
  position.  \<open>extract_scan_targets\<close> is the breadth-first walk of the source: a queue of
  (pointer, value) pairs, known high-value fields pushed when their object is met, and
  every other long enough, non-structural string pushed when it is met.  The lemmas show
  that a target's pointer always leads to its text (soundness), that every string leaf the
  documentation promises is a target (coverage), and that writing a replacement back
  changes exactly that string.
\<close>

datatype target_kind =
  MessageContent | Prompt | Input | ToolArguments | Instructions | UnknownString

record scan_target =
  json_pointer :: string
  target_role :: "string option"
  kind :: target_kind
  raw :: string

definition STRUCTURAL_KEYS :: "string list" where
  "STRUCTURAL_KEYS = [''role'', ''type'', ''model'', ''stop'', ''encoding_format'',
     ''object'', ''index'', ''finish_reason'']"

definition MIN_UNKNOWN_STRING_LEN :: nat where
  "MIN_UNKNOWN_STRING_LEN = 8"

text \<open>\<open>pointer.rsplit('/').next()\<close> is the last part of the split, which always exists.\<close>

definition is_structural_pointer :: "string \<Rightarrow> bool" where
  "is_structural_pointer pointer \<longleftrightarrow>
     last (split_on (CHR ''/'') pointer) \<in> set STRUCTURAL_KEYS"

subsection \<open>Known fields\<close>

definition extract_content_strings ::
  "string \<Rightarrow> json \<Rightarrow> json option \<Rightarrow> scan_target list \<Rightarrow> scan_target list" where
  "extract_content_strings pointer content role targets =
     (let role_str = Option.bind role as_str in
      case content of
        JStr s \<Rightarrow>
          targets @ [\<lparr>json_pointer = pointer @ ''/content'', target_role = role_str,
                      kind = MessageContent, raw = s\<rparr>]
      | JArr parts \<Rightarrow>
          targets @ List.map_filter (\<lambda>(idx, part).
            map_option (\<lambda>text.
              \<lparr>json_pointer = pointer @ ''/content/'' @ nat_dec idx @ ''/text'',
               target_role = role_str, kind = MessageContent, raw = text\<rparr>)
              (Option.bind (obj_get part ''text'') as_str)) (enumerate 0 parts)
      | _ \<Rightarrow> targets)"

definition extract_string_or_array ::
  "string \<Rightarrow> json \<Rightarrow> target_kind \<Rightarrow> scan_target list \<Rightarrow> scan_target list" where
  "extract_string_or_array pointer v knd targets =
     (case v of
        JStr s \<Rightarrow>
          targets @ [\<lparr>json_pointer = pointer, target_role = None, kind = knd, raw = s\<rparr>]
      | JArr arr \<Rightarrow>
          targets @ List.map_filter (\<lambda>(idx, x).
            map_option (\<lambda>s. \<lparr>json_pointer = pointer @ ''/'' @ nat_dec idx,
              target_role = None, kind = knd, raw = s\<rparr>) (as_str x)) (enumerate 0 arr)
      | _ \<Rightarrow> targets)"

definition extract_string_value ::
  "string \<Rightarrow> json \<Rightarrow> target_kind \<Rightarrow> scan_target list \<Rightarrow> scan_target list" where
  "extract_string_value pointer v knd targets =
     (case as_str v of
        Some s \<Rightarrow>
          targets @ [\<lparr>json_pointer = pointer, target_role = None, kind = knd, raw = s\<rparr>]
      | None \<Rightarrow> targets)"

definition extract_tool_calls :: "string \<Rightarrow> json \<Rightarrow> scan_target list \<Rightarrow> scan_target list" where
  "extract_tool_calls pointer tool_calls targets =
     (case tool_calls of
        JArr calls \<Rightarrow>
          targets @ List.map_filter (\<lambda>(idx, call).
            map_option (\<lambda>args.
              \<lparr>json_pointer = pointer @ ''/tool_calls/'' @ nat_dec idx @ ''/function/arguments'',
               target_role = Some ''tool'', kind = ToolArguments, raw = args\<rparr>)
              (Option.bind (Option.bind (obj_get call ''function'')
                 (\<lambda>f. obj_get f ''arguments'')) as_str)) (enumerate 0 calls)
      | _ \<Rightarrow> targets)"

subsection \<open>The walk\<close>

text \<open>The pushes for one object, in the order of the source.\<close>

definition object_targets ::
  "string \<Rightarrow> (string \<times> json) list \<Rightarrow> scan_target list \<Rightarrow> scan_target list" where
  "object_targets pointer m targets =
     (let t1 = (case map_of m ''content'' of
                  Some content \<Rightarrow>
                    extract_content_strings pointer content (map_of m ''role'') targets
                | None \<Rightarrow> targets);
          t2 = (case map_of m ''prompt'' of
                  Some prompt \<Rightarrow> extract_string_or_array (pointer @ ''/prompt'') prompt Prompt t1
                | None \<Rightarrow> t1);
          t3 = (case map_of m ''input'' of
                  Some input \<Rightarrow> extract_string_or_array (pointer @ ''/input'') input Input t2
                | None \<Rightarrow> t2);
          t4 = (case map_of m ''instructions'' of
                  Some ins \<Rightarrow>
                    extract_string_value (pointer @ ''/instructions'') ins Instructions t3
                | None \<Rightarrow> t3)
      in (case map_of m ''tool_calls'' of
            Some tool_calls \<Rightarrow> extract_tool_calls pointer tool_calls t4
          | None \<Rightarrow> t4))"

definition object_children :: "string \<Rightarrow> (string \<times> json) list \<Rightarrow> (string \<times> json) list" where
  "object_children pointer m = map (\<lambda>(key, v). (pointer @ ''/'' @ escape_token key, v)) m"

definition array_children :: "string \<Rightarrow> json list \<Rightarrow> (string \<times> json) list" where
  "array_children pointer arr =
     map (\<lambda>(idx, v). (pointer @ ''/'' @ nat_dec idx, v)) (enumerate 0 arr)"

definition leaf_target :: "string \<Rightarrow> string \<Rightarrow> scan_target list \<Rightarrow> scan_target list" where
  "leaf_target pointer s targets =
     (if MIN_UNKNOWN_STRING_LEN \<le> length s \<and> \<not> is_structural_pointer pointer \<and>
         \<not> list_ex (\<lambda>t. json_pointer t = pointer) targets
      then targets @ [\<lparr>json_pointer = pointer, target_role = None, kind = UnknownString, raw = s\<rparr>]
      else targets)"

fun json_nodes :: "json \<Rightarrow> nat" where
  "json_nodes (JArr vs) = Suc (sum_list (map json_nodes vs))"
| "json_nodes (JObj kvs) = Suc (sum_list (map (\<lambda>kv. json_nodes (snd kv)) kvs))"
| "json_nodes _ = 1"

lemma sum_nodes_object_children:
  "sum_list (map (\<lambda>pv. json_nodes (snd pv)) (object_children p m)) =
     sum_list (map (\<lambda>kv. json_nodes (snd kv)) m)"
  by (simp add: object_children_def comp_def case_prod_beta)

lemma sum_nodes_array_children:
  "sum_list (map (\<lambda>pv. json_nodes (snd pv)) (array_children p vs)) =
     sum_list (map json_nodes vs)"
proof -
  have "map (\<lambda>pv. json_nodes (snd pv)) (array_children p vs) =
      map json_nodes (map snd (enumerate 0 vs))"
    by (simp add: array_children_def comp_def case_prod_beta del: map_snd_enumerate)
  then show ?thesis by simp
qed

function extract_loop :: "(string \<times> json) list \<Rightarrow> scan_target list \<Rightarrow> scan_target list" where
  "extract_loop [] targets = targets"
| "extract_loop ((pointer, v) # queue) targets =
     (case v of
        JObj m \<Rightarrow>
          extract_loop (queue @ object_children pointer m) (object_targets pointer m targets)
      | JArr arr \<Rightarrow> extract_loop (queue @ array_children pointer arr) targets
      | JStr s \<Rightarrow> extract_loop queue (leaf_target pointer s targets)
      | _ \<Rightarrow> extract_loop queue targets)"
  by pat_completeness auto
termination
  by (relation "measure (\<lambda>(q, t). sum_list (map (\<lambda>pv. json_nodes (snd pv)) q))")
    (auto simp: sum_nodes_object_children sum_nodes_array_children)

definition extract_scan_targets :: "json \<Rightarrow> scan_target list" where
  "extract_scan_targets body = extract_loop [([], body)] []"

text \<open>
  \<open>replace_scan_target\<close> mutates the body; the model returns the success flag and the
  new body.
\<close>

definition replace_scan_target :: "json \<Rightarrow> scan_target \<Rightarrow> string \<Rightarrow> bool \<times> json" where
  "replace_scan_target body target replacement =
     (case pointer_get body (json_pointer target) of
        None \<Rightarrow> (False, body)
      | Some v \<Rightarrow>
          if \<not> is_string v then (False, body)
          else (True, pointer_set body (json_pointer target) (JStr replacement)))"

subsection \<open>Soundness: every target points at its text\<close>

definition good_target :: "json \<Rightarrow> scan_target \<Rightarrow> bool" where
  "good_target body t \<longleftrightarrow>
     (\<exists>ts. json_pointer t = render_pointer ts \<and> nav body ts = Some (JStr (raw t)))"

definition good_item :: "json \<Rightarrow> string \<times> json \<Rightarrow> bool" where
  "good_item body pv \<longleftrightarrow>
     (\<exists>ts. fst pv = render_pointer ts \<and> nav body ts = Some (snd pv)) \<and> json_wf (snd pv)"

lemma good_targetI:
  "nav body ts = Some v \<Longrightarrow> nav v us = Some (JStr (raw t)) \<Longrightarrow>
   json_pointer t = render_pointer ts @ render_pointer us \<Longrightarrow> good_target body t"
  unfolding good_target_def
  by (rule exI [of _ "ts @ us"]) (simp add: nav_append render_pointer_append)

lemma map_filter_set: "x \<in> set (List.map_filter f xs) \<longleftrightarrow> (\<exists>y\<in>set xs. f y = Some x)"
  by (induction xs) (auto simp: List.map_filter_simps split: option.splits)

lemma in_enumerate: "(i, x) \<in> set (enumerate 0 xs) \<longleftrightarrow> i < length xs \<and> xs ! i = x"
  by (auto simp: in_set_enumerate_eq)

lemmas literal_tokens = escape_token_Cons render_pointer_def

lemma extract_content_strings_good:
  assumes "nav body ts = Some (JObj m)" and "map_of m ''content'' = Some content"
    and "\<forall>t\<in>set targets. good_target body t"
  shows "\<forall>t\<in>set (extract_content_strings (render_pointer ts) content role targets).
    good_target body t"
proof (cases content)
  case (JStr s)
  have "good_target body \<lparr>json_pointer = render_pointer ts @ ''/content'',
      target_role = r, kind = MessageContent, raw = s\<rparr>" for r
    by (rule good_targetI [OF assms(1), of "[''content'']"])
      (use assms(2) JStr in \<open>simp_all add: child_def literal_tokens\<close>)
  with JStr assms(3) show ?thesis by (simp add: extract_content_strings_def)
next
  case (JArr parts)
  have "good_target body \<lparr>json_pointer = render_pointer ts @ ''/content/'' @ nat_dec i @ ''/text'',
      target_role = r, kind = MessageContent, raw = s\<rparr>"
    if "i < length parts" "obj_get (parts ! i) ''text'' = Some (JStr s)" for i s r
    by (rule good_targetI [OF assms(1), of "[''content'', nat_dec i, ''text'']"])
      (use assms(2) JArr that in \<open>auto simp: child_def obj_get_def literal_tokens
        split: json.splits\<close>)
  with JArr assms(3) show ?thesis
    by (auto simp: extract_content_strings_def map_filter_set in_enumerate as_str_def
        split: option.splits json.splits bind_splits)
qed (use assms in \<open>auto simp: extract_content_strings_def\<close>)

lemma extract_string_or_array_good:
  assumes "nav body ts = Some v" and "\<forall>t\<in>set targets. good_target body t"
  shows "\<forall>t\<in>set (extract_string_or_array (render_pointer ts) v knd targets).
    good_target body t"
proof (cases v)
  case (JStr s)
  with assms show ?thesis
    by (auto simp: extract_string_or_array_def good_target_def)
next
  case (JArr arr)
  have "good_target body \<lparr>json_pointer = render_pointer ts @ ''/'' @ nat_dec i,
      target_role = None, kind = knd, raw = s\<rparr>"
    if "i < length arr" "arr ! i = JStr s" for i s
    by (rule good_targetI [OF assms(1), of "[nat_dec i]"])
      (use JArr that in \<open>simp_all add: child_def literal_tokens\<close>)
  with JArr assms(2) show ?thesis
    by (auto simp: extract_string_or_array_def map_filter_set in_enumerate as_str_def
        split: option.splits json.splits)
qed (use assms in \<open>auto simp: extract_string_or_array_def\<close>)

lemma extract_string_value_good:
  assumes "nav body ts = Some v" and "\<forall>t\<in>set targets. good_target body t"
  shows "\<forall>t\<in>set (extract_string_value (render_pointer ts) v knd targets). good_target body t"
  using assms by (auto simp: extract_string_value_def good_target_def as_str_def
      split: json.splits option.splits)

lemma extract_tool_calls_good:
  assumes "nav body ts = Some (JObj m)" and "map_of m ''tool_calls'' = Some calls"
    and "\<forall>t\<in>set targets. good_target body t"
  shows "\<forall>t\<in>set (extract_tool_calls (render_pointer ts) calls targets). good_target body t"
proof (cases calls)
  case (JArr cs)
  have "good_target body \<lparr>json_pointer =
      render_pointer ts @ ''/tool_calls/'' @ nat_dec i @ ''/function/arguments'',
      target_role = r, kind = ToolArguments, raw = s\<rparr>"
    if "i < length cs" "obj_get (cs ! i) ''function'' = Some f"
      "obj_get f ''arguments'' = Some (JStr s)" for i s f r
    by (rule good_targetI
        [OF assms(1), of "[''tool_calls'', nat_dec i, ''function'', ''arguments'']"])
      (use assms(2) JArr that in \<open>auto simp: child_def obj_get_def literal_tokens
        split: json.splits\<close>)
  with JArr assms(3) show ?thesis
    by (auto simp: extract_tool_calls_def map_filter_set in_enumerate as_str_def
        split: option.splits json.splits bind_splits)
qed (use assms in \<open>auto simp: extract_tool_calls_def\<close>)

lemma nav_field:
  "nav body ts = Some (JObj m) \<Longrightarrow> map_of m k = Some v \<Longrightarrow> nav body (ts @ [k]) = Some v"
  by (simp add: nav_append child_def)

lemma field_pointer:
  "render_pointer ts @ ''/prompt'' = render_pointer (ts @ [''prompt''])"
  "render_pointer ts @ ''/input'' = render_pointer (ts @ [''input''])"
  "render_pointer ts @ ''/instructions'' = render_pointer (ts @ [''instructions''])"
  by (simp_all add: render_pointer_snoc escape_token_Cons)

lemma object_targets_good:
  assumes obj: "nav body ts = Some (JObj m)" and good: "\<forall>t\<in>set targets. good_target body t"
  shows "\<forall>t\<in>set (object_targets (render_pointer ts) m targets). good_target body t"
proof -
  let ?p = "render_pointer ts"
  define t1 where "t1 = (case map_of m ''content'' of
      Some c \<Rightarrow> extract_content_strings ?p c (map_of m ''role'') targets | None \<Rightarrow> targets)"
  define t2 where "t2 = (case map_of m ''prompt'' of
      Some v \<Rightarrow> extract_string_or_array (?p @ ''/prompt'') v Prompt t1 | None \<Rightarrow> t1)"
  define t3 where "t3 = (case map_of m ''input'' of
      Some v \<Rightarrow> extract_string_or_array (?p @ ''/input'') v Input t2 | None \<Rightarrow> t2)"
  define t4 where "t4 = (case map_of m ''instructions'' of
      Some v \<Rightarrow> extract_string_value (?p @ ''/instructions'') v Instructions t3 | None \<Rightarrow> t3)"
  have "\<forall>t\<in>set t1. good_target body t"
    using extract_content_strings_good [OF obj _ good] good
    unfolding t1_def by (simp split: option.split)
  then have "\<forall>t\<in>set t2. good_target body t"
    using extract_string_or_array_good [OF nav_field [OF obj]]
    unfolding t2_def field_pointer by (simp split: option.split)
  then have "\<forall>t\<in>set t3. good_target body t"
    using extract_string_or_array_good [OF nav_field [OF obj]]
    unfolding t3_def field_pointer by (simp split: option.split)
  then have "\<forall>t\<in>set t4. good_target body t"
    using extract_string_value_good [OF nav_field [OF obj]]
    unfolding t4_def field_pointer by (simp split: option.split)
  then have "\<forall>t\<in>set (case map_of m ''tool_calls'' of
      Some c \<Rightarrow> extract_tool_calls ?p c t4 | None \<Rightarrow> t4). good_target body t"
    using extract_tool_calls_good [OF obj] by (simp split: option.split)
  then show ?thesis
    unfolding object_targets_def Let_def t1_def t2_def t3_def t4_def .
qed

lemma object_children_good:
  assumes "good_item body (p, JObj m)"
  shows "\<forall>c\<in>set (object_children p m). good_item body c"
proof
  fix c assume "c \<in> set (object_children p m)"
  then obtain k v where c: "c = (p @ ''/'' @ escape_token k, v)" and kv: "(k, v) \<in> set m"
    by (auto simp: object_children_def)
  from assms obtain ts where p: "p = render_pointer ts" and obj: "nav body ts = Some (JObj m)"
    and wf: "sorted_keys m" "list_all (\<lambda>(k, v). json_wf v) m"
    by (auto simp: good_item_def)
  from kv wf(1) have "map_of m k = Some v" by (simp add: sorted_keys_distinct)
  then have "nav body (ts @ [k]) = Some v" by (rule nav_field [OF obj])
  moreover have "json_wf v" using wf(2) kv by (auto simp: list_all_iff)
  ultimately show "good_item body c"
    unfolding good_item_def c p by (auto simp: render_pointer_snoc intro!: exI [of _ "ts @ [k]"])
qed

lemma array_children_good:
  assumes "good_item body (p, JArr vs)"
  shows "\<forall>c\<in>set (array_children p vs). good_item body c"
proof
  fix c assume "c \<in> set (array_children p vs)"
  then obtain i where c: "c = (p @ ''/'' @ nat_dec i, vs ! i)" and i: "i < length vs"
    by (auto simp: array_children_def in_enumerate)
  from assms obtain ts where p: "p = render_pointer ts" and arr: "nav body ts = Some (JArr vs)"
    and wf: "list_all json_wf vs"
    by (auto simp: good_item_def)
  from arr i have "nav body (ts @ [nat_dec i]) = Some (vs ! i)"
    by (simp add: nav_append child_def)
  moreover have "json_wf (vs ! i)" using wf i by (simp add: list_all_length)
  ultimately show "good_item body c"
    unfolding good_item_def c p
    by (auto simp: render_pointer_snoc intro!: exI [of _ "ts @ [nat_dec i]"])
qed

lemma leaf_target_good:
  "good_item body (p, JStr s) \<Longrightarrow> \<forall>t\<in>set targets. good_target body t \<Longrightarrow>
   \<forall>t\<in>set (leaf_target p s targets). good_target body t"
  by (auto simp: leaf_target_def good_item_def good_target_def)

lemma extract_loop_good:
  "\<forall>c\<in>set queue. good_item body c \<Longrightarrow> \<forall>t\<in>set targets. good_target body t \<Longrightarrow>
   \<forall>t\<in>set (extract_loop queue targets). good_target body t"
proof (induction queue targets rule: extract_loop.induct)
  case (1 targets)
  then show ?case by simp
next
  case (2 p v queue targets)
  then have item: "good_item body (p, v)" and rest: "\<forall>c\<in>set queue. good_item body c" by auto
  show ?case
  proof (cases v)
    case (JObj m)
    from item JObj obtain ts where "p = render_pointer ts" "nav body ts = Some (JObj m)"
      by (auto simp: good_item_def)
    then have "\<forall>t\<in>set (object_targets p m targets). good_target body t"
      using object_targets_good "2.prems"(2) by blast
    moreover have "\<forall>c\<in>set (queue @ object_children p m). good_item body c"
      using object_children_good item JObj rest by auto
    ultimately show ?thesis using "2.IH"(6) [OF JObj] JObj by simp
  next
    case (JArr vs)
    have "\<forall>c\<in>set (queue @ array_children p vs). good_item body c"
      using array_children_good item JArr rest by auto
    then show ?thesis using "2.IH"(5) [OF JArr _ "2.prems"(2)] JArr by simp
  next
    case (JStr s)
    have "\<forall>t\<in>set (leaf_target p s targets). good_target body t"
      using leaf_target_good item "2.prems"(2) JStr by blast
    then show ?thesis using "2.IH"(4) [OF JStr rest] JStr by simp
  next
    case JNull
    then show ?thesis using "2.IH"(1) [OF JNull rest "2.prems"(2)] by simp
  next
    case (JBool b)
    then show ?thesis using "2.IH"(2) [OF JBool rest "2.prems"(2)] by simp
  next
    case (JNum n)
    then show ?thesis using "2.IH"(3) [OF JNum rest "2.prems"(2)] by simp
  qed
qed

subsection \<open>Coverage: every string leaf that is long enough is a target\<close>

lemma extract_known_mono:
  "set targets \<subseteq> set (extract_content_strings p c r targets)"
  "set targets \<subseteq> set (extract_string_or_array p c knd targets)"
  "set targets \<subseteq> set (extract_string_value p c knd targets)"
  "set targets \<subseteq> set (extract_tool_calls p c targets)"
  by (auto simp: extract_content_strings_def extract_string_or_array_def
      extract_string_value_def extract_tool_calls_def Let_def split: json.split option.split)

lemma option_step_mono:
  "(\<And>c. set ts \<subseteq> set (f c)) \<Longrightarrow> set ts \<subseteq> set (case x of Some c \<Rightarrow> f c | None \<Rightarrow> ts)"
  by (cases x) auto

lemma object_targets_mono: "set targets \<subseteq> set (object_targets p m targets)"
  unfolding object_targets_def Let_def
  by (intro order_trans [OF _ option_step_mono] option_step_mono extract_known_mono)

lemma leaf_target_mono: "set targets \<subseteq> set (leaf_target p s targets)"
  by (auto simp: leaf_target_def)

lemma extract_loop_mono: "set targets \<subseteq> set (extract_loop queue targets)"
proof (induction queue targets rule: extract_loop.induct)
  case (2 p v queue targets)
  then show ?case
    using object_targets_mono [of targets p] leaf_target_mono [of targets p]
    by (cases v) fastforce+
qed simp

lemma leaf_target_covers:
  "8 \<le> length s \<Longrightarrow> \<not> is_structural_pointer p \<Longrightarrow>
   p \<in> json_pointer ` set (leaf_target p s targets)"
  by (auto simp: leaf_target_def MIN_UNKNOWN_STRING_LEN_def list_ex_iff)

lemma extract_loop_covers:
  "(p, v) \<in> set queue \<Longrightarrow> nav v ts = Some (JStr s) \<Longrightarrow> 8 \<le> length s \<Longrightarrow>
   \<not> is_structural_pointer (p @ render_pointer ts) \<Longrightarrow>
   p @ render_pointer ts \<in> json_pointer ` set (extract_loop queue targets)"
proof (induction queue targets arbitrary: p v ts rule: extract_loop.induct)
  case (1 targets)
  then show ?case by simp
next
  case (2 q w queue targets)
  show ?case
  proof (cases "(p, v) = (q, w)")
    case False
    with "2.prems"(1) have inq: "(p, v) \<in> set queue" by auto
    then have app: "(p, v) \<in> set (queue @ cs)" for cs by simp
    show ?thesis
      using "2.IH"(1-4) [OF _ inq "2.prems"(2-4)] "2.IH"(5-6) [OF _ app "2.prems"(2-4)]
      by (cases w) simp_all
  next
    case True
    then have v: "v = w" and p: "p = q" by auto
    show ?thesis
    proof (cases ts)
      case Nil
      with "2.prems"(2) v have w: "w = JStr s" by simp
      have "q \<in> json_pointer ` set (leaf_target q s targets)"
        using "2.prems" Nil p by (intro leaf_target_covers) auto
      then show ?thesis using extract_loop_mono w Nil p by fastforce
    next
      case (Cons t ts')
      with "2.prems"(2) v obtain x where x: "child w t = Some x" "nav x ts' = Some (JStr s)"
        by (auto split: option.splits)
      show ?thesis
      proof (cases w)
        case (JObj m)
        with x(1) have "(p @ ''/'' @ escape_token t, x) \<in> set (object_children q m)"
          using p by (auto simp: child_def object_children_def dest: map_of_SomeD)
        then show ?thesis using "2.IH"(6) [OF JObj, of "p @ ''/'' @ escape_token t" x ts']
            x(2) "2.prems"(3,4) JObj Cons by simp
      next
        case (JArr vs)
        with x(1) obtain i where i: "parse_index t = Some i" "i < length vs" "x = vs ! i"
          by (auto simp: child_def split: option.splits if_splits)
        then have t: "t = nat_dec i" by (simp add: parse_index_nat_decD)
        have "(p @ ''/'' @ escape_token t, x) \<in> set (array_children q vs)"
          using i p t
          by (auto simp: array_children_def in_enumerate intro!: rev_image_eqI [of "(i, vs ! i)"])
        then show ?thesis using "2.IH"(5) [OF JArr, of "p @ ''/'' @ escape_token t" x ts']
            x(2) "2.prems"(3,4) JArr Cons by simp
      qed (use x in \<open>auto simp: child_def\<close>)
    qed
  qed
qed

subsection \<open>Properties of the component\<close>

lemma extract_scan_targets_good:
  "json_wf body \<Longrightarrow> t \<in> set (extract_scan_targets body) \<Longrightarrow> good_target body t"
  unfolding extract_scan_targets_def
  by (rule extract_loop_good [of "[([], body)]", rule_format])
    (auto simp: good_item_def intro!: exI [of _ "[]"])

text \<open>
  C35 Every extracted scan target is sound: its JSON pointer, resolved in the request body
  as serde\_json resolves it (RFC 6901, with escaped keys and array indices), is a string,
  and that string is the text the target carries.
\<close>

theorem extract_sound:
  assumes "json_wf body" and "t \<in> set (extract_scan_targets body)"
  shows "pointer_get body (json_pointer t) = Some (JStr (raw t))"
  using extract_scan_targets_good [OF assms] by (auto simp: good_target_def pointer_get_render)

definition sample_body :: json where
  "sample_body = JObj [(''messages'', JArr [JObj [(''content'', JStr ''mail bob@x.org''),
     (''role'', JStr ''user'')]]), (''meta/a'', JStr ''tk_12345678'')]"

definition sample_target :: scan_target where
  "sample_target = \<lparr>json_pointer = ''/messages/0/content'', target_role = Some ''user'',
     kind = MessageContent, raw = ''mail bob@x.org''\<rparr>"

lemma sample_body_wf: "json_wf sample_body"
  by (simp add: sample_body_def sorted_keys_def less_char_def)

lemma sample_targets: "extract_scan_targets sample_body =
  [\<lparr>json_pointer = ''/meta~1a'', target_role = None, kind = UnknownString,
    raw = ''tk_12345678''\<rparr>, sample_target]"
  by code_simp

theorem extract_sound_witness:
  "pointer_get sample_body ''/messages/0/content'' = Some (JStr ''mail bob@x.org'')"
  using extract_sound [OF sample_body_wf, of sample_target]
  by (simp add: sample_targets sample_target_def)

lemma extract_scan_targets_covers:
  assumes "json_wf body" and "nav body ts = Some (JStr s)" and "8 \<le> length s"
    and "\<not> is_structural_pointer (render_pointer ts)"
  shows "\<exists>t \<in> set (extract_scan_targets body). json_pointer t = render_pointer ts \<and> raw t = s"
proof -
  have "[] @ render_pointer ts \<in> json_pointer ` set (extract_loop [([], body)] [])"
    by (rule extract_loop_covers [of _ body]) (use assms in auto)
  then obtain t where t: "t \<in> set (extract_scan_targets body)"
    "json_pointer t = render_pointer ts"
    by (auto simp: extract_scan_targets_def)
  from extract_scan_targets_good [OF assms(1) t(1)] assms(2) t(2) have "raw t = s"
    by (auto simp: good_target_def render_pointer_inj)
  with t show ?thesis by blast
qed



text \<open>
  Replacing the text of an extracted target in the body it was extracted from always
  succeeds, the pointer then reads back the replacement, every other string leaf keeps its
  text, and the body stays well formed (so the error branch \<open>redaction_failed\<close> of the
  handler cannot be taken for the first replacement).
\<close>

theorem replace_scan_target_ok:
  assumes "json_wf body" and "t \<in> set (extract_scan_targets body)"
  shows "\<exists>body'. replace_scan_target body t r = (True, body') \<and> json_wf body' \<and>
    pointer_get body' (json_pointer t) = Some (JStr r) \<and>
    (\<forall>us s. \<not> (nav body us = Some (JStr s) \<and> render_pointer us \<noteq> json_pointer t \<and>
       pointer_get body' (render_pointer us) \<noteq> Some (JStr s)))"
proof -
  from extract_scan_targets_good [OF assms] obtain ts
    where p: "json_pointer t = render_pointer ts" and leaf: "nav body ts = Some (JStr (raw t))"
    by (auto simp: good_target_def)
  let ?b = "nav_set body ts (JStr r)"
  have "replace_scan_target body t r = (True, ?b)"
    using p leaf by (simp add: replace_scan_target_def pointer_get_render pointer_set_render
        is_string_def as_str_def)
  moreover have "json_wf ?b" using assms(1) by (simp add: nav_set_wf)
  moreover have "pointer_get ?b (json_pointer t) = Some (JStr r)"
    using p leaf by (simp add: pointer_get_render nav_nav_set_same)
  moreover have "nav ?b us = Some (JStr s)"
    if "nav body us = Some (JStr s)" "render_pointer us \<noteq> json_pointer t" for us s
    using nav_nav_set_leaf [OF leaf that(1)] that(2) p by auto
  ultimately show ?thesis by (auto simp: pointer_get_render)
qed

theorem replace_scan_target_ok_witness:
  "\<exists>body'. replace_scan_target sample_body sample_target ''X'' = (True, body') \<and>
     pointer_get body' ''/messages/0/content'' = Some (JStr ''X'')"
  using replace_scan_target_ok [OF sample_body_wf, of sample_target "''X''"]
  by (auto simp: sample_targets sample_target_def)

text \<open>
  What the walk does not look at: object keys and numbers are never scan targets.  A secret
  used as a key of the request body is not seen by any detector on the request path.
\<close>

lemma object_key_not_scanned: "extract_scan_targets (JObj [(key, JNum n)]) = []"
  by (auto simp: extract_scan_targets_def object_targets_def object_children_def
      extract_content_strings_def extract_string_or_array_def extract_string_value_def
      extract_tool_calls_def as_str_def Let_def)

end
