(* ===== verification/Dlp.thy ===== *)
theory Dlp
  imports Prelude Complex_Main
begin

section \<open>The DLP engine (src/security/dlp.rs, DlpConfig of src/config.rs)\<close>

text \<open>
  Detection and one-way redaction.  The \<open>regex\<close> crate is third-party code: a compiled
  regex is the function that lists its matches (\<open>captures_iter\<close>), each match the spans of
  its capture groups, and \<open>regex_ok\<close> states what the crate documents about them.  Three
  more library functions are parameters, the fields of \<open>dlp_ext\<close>: compiling a pattern,
  expanding \<open>$name\<close> in a replacement string, and Unicode lower-casing.  Entropies are
  real numbers, the ideal of the \<open>f64\<close> arithmetic of the source.
\<close>

subsection \<open>Matches of the regex crate\<close>

type_synonym span = "nat \<times> nat"
type_synonym caps = "span option list"

record regex =
  captures_iter :: "string \<Rightarrow> caps list"
  captures_len :: nat

definition slice :: "string \<Rightarrow> nat \<Rightarrow> nat \<Rightarrow> string" where
  "slice s b e = take (e - b) (drop b s)"

definition cap_get :: "caps \<Rightarrow> nat \<Rightarrow> span option" where
  "cap_get c i = (if i < length c then c ! i else None)"

text \<open>\<open>&captures[0]\<close>: the whole match.\<close>

definition whole_match :: "string \<Rightarrow> caps \<Rightarrow> string" where
  "whole_match hay c = (case cap_get c 0 of Some (b, e) \<Rightarrow> slice hay b e | None \<Rightarrow> [])"

definition is_match :: "regex \<Rightarrow> string \<Rightarrow> bool" where
  "is_match re hay \<longleftrightarrow> captures_iter re hay \<noteq> []"

text \<open>
  \<open>Regex::replace_all\<close> with a closure: the text between the matches is kept, every
  match is replaced by what the closure returns, called in order.  The closure may mutate
  its environment, the state \<open>st\<close>.
\<close>

fun replace_spans ::
  "string \<Rightarrow> nat \<Rightarrow> caps list \<Rightarrow> (caps \<Rightarrow> 's \<Rightarrow> string \<times> 's) \<Rightarrow> 's \<Rightarrow> string \<times> 's" where
  "replace_spans hay pos [] f st = (drop pos hay, st)"
| "replace_spans hay pos (c # cs) f st =
     (case cap_get c 0 of
        None \<Rightarrow> replace_spans hay pos cs f st
      | Some (b, e) \<Rightarrow>
          (let (r, st') = f c st; (rest, st'') = replace_spans hay e cs f st'
           in (slice hay pos b @ r @ rest, st'')))"

definition replace_all_with ::
  "regex \<Rightarrow> string \<Rightarrow> (caps \<Rightarrow> 's \<Rightarrow> string \<times> 's) \<Rightarrow> 's \<Rightarrow> string \<times> 's" where
  "replace_all_with re hay f st = replace_spans hay 0 (captures_iter re hay) f st"

definition replace_all :: "regex \<Rightarrow> string \<Rightarrow> (caps \<Rightarrow> string) \<Rightarrow> string" where
  "replace_all re hay f = fst (replace_all_with re hay (\<lambda>c u. (f c, u)) ())"

text \<open>
  What the crate documents: matches are in order, do not overlap, lie inside the haystack,
  and a capture group lies inside its match.
\<close>

fun caps_ok :: "nat \<Rightarrow> nat \<Rightarrow> caps list \<Rightarrow> bool" where
  "caps_ok n pos [] \<longleftrightarrow> pos \<le> n"
| "caps_ok n pos (c # cs) \<longleftrightarrow>
     (case cap_get c 0 of
        None \<Rightarrow> False
      | Some (b, e) \<Rightarrow> pos \<le> b \<and> b \<le> e \<and>
          list_all (\<lambda>g. case g of None \<Rightarrow> True | Some (b', e') \<Rightarrow> b \<le> b' \<and> b' \<le> e' \<and> e' \<le> e) c \<and>
          caps_ok n e cs)"

definition regex_ok :: "regex \<Rightarrow> bool" where
  "regex_ok re \<longleftrightarrow> (\<forall>hay. caps_ok (length hay) 0 (captures_iter re hay))"

record dlp_ext =
  ext_compile :: "string \<Rightarrow> string + regex"
  ext_literal :: "string \<Rightarrow> regex"
  ext_expand :: "string \<Rightarrow> caps \<Rightarrow> string \<Rightarrow> string"
  ext_lower :: "string \<Rightarrow> string"

subsection \<open>Configuration\<close>

record dlp_config =
  action_name :: string
  block_on_obfuscated :: bool
  rules_files :: "string list"
  email_redaction :: bool
  credit_card_redaction :: bool
  secret_redaction :: bool
  ssn_redaction :: bool
  ip_redaction :: bool
  phone_redaction :: bool

definition default_dlp_config :: dlp_config where
  "default_dlp_config =
     \<lparr>action_name = ''redact'', block_on_obfuscated = True, rules_files = [''rules/secrets.toml''],
      email_redaction = True, credit_card_redaction = True, secret_redaction = True,
      ssn_redaction = True, ip_redaction = True, phone_redaction = True\<rparr>"

definition email_enabled :: "dlp_config \<Rightarrow> bool" where
  "email_enabled cfg = email_redaction cfg"

definition cc_enabled :: "dlp_config \<Rightarrow> bool" where
  "cc_enabled cfg = credit_card_redaction cfg"

definition ssn_enabled :: "dlp_config \<Rightarrow> bool" where
  "ssn_enabled cfg = ssn_redaction cfg"

definition ip_enabled :: "dlp_config \<Rightarrow> bool" where
  "ip_enabled cfg = ip_redaction cfg"

definition phone_enabled :: "dlp_config \<Rightarrow> bool" where
  "phone_enabled cfg = phone_redaction cfg"

lemmas enabled_defs = email_enabled_def cc_enabled_def ssn_enabled_def ip_enabled_def
  phone_enabled_def

datatype dlp_action = Block | Redact

text \<open>\<open>to_lowercase\<close> of an ASCII or non-ASCII action name; anything but block redacts.\<close>

definition dlp_action_from_str :: "(string \<Rightarrow> string) \<Rightarrow> string \<Rightarrow> dlp_action" where
  "dlp_action_from_str lower s = (if lower s = ''block'' then Block else Redact)"

record dlp_violation =
  vio_category :: string
  vio_description :: string

subsection \<open>Rules\<close>

record raw_rule =
  raw_id :: string
  raw_description :: "string option"
  raw_regex :: "string option"
  raw_secret_group :: "nat option"
  raw_entropy :: "real option"
  raw_keywords :: "string list option"

record compiled_rule =
  rule_id :: string
  rule_description :: "string option"
  rule_regex :: regex
  rule_group :: "nat option"
  rule_entropy :: "real option"
  rule_keywords :: "string list"

datatype dlp_rule_error =
    ParseErr string string
  | CompileErr string string string
  | InvalidGroup string string nat nat

fun rule_error_text :: "dlp_rule_error \<Rightarrow> string" where
  "rule_error_text (ParseErr path src) = ''failed to parse rules file '' @ path @ '': '' @ src"
| "rule_error_text (CompileErr path rule src) =
     ''rule '' @ SQ @ rule @ SQ @ '' in '' @ path @ '' has an invalid regex: '' @ src"
| "rule_error_text (InvalidGroup path rule g groups) =
     ''rule '' @ SQ @ rule @ SQ @ '' in '' @ path @ '' references secretGroup '' @ nat_dec g @
     '' but only has '' @ nat_dec groups @ '' capture groups''"

definition compile_rule ::
  "dlp_ext \<Rightarrow> raw_rule \<Rightarrow> string \<Rightarrow> string \<Rightarrow> dlp_rule_error + compiled_rule" where
  "compile_rule X rule pattern path =
     (case ext_compile X pattern of
        Inl src \<Rightarrow> Inl (CompileErr path (raw_id rule) src)
      | Inr re \<Rightarrow>
          (let compiled = \<lparr>rule_id = raw_id rule, rule_description = raw_description rule,
                 rule_regex = re, rule_group = raw_secret_group rule,
                 rule_entropy = raw_entropy rule,
                 rule_keywords = (case raw_keywords rule of
                   Some ws \<Rightarrow> map (ext_lower X) ws | None \<Rightarrow> [])\<rparr> in
           case raw_secret_group rule of
             Some g \<Rightarrow>
               if g = 0 \<or> captures_len re \<le> g
               then Inl (InvalidGroup path (raw_id rule) g (captures_len re - 1))
               else Inr compiled
           | None \<Rightarrow> Inr compiled))"

record dlp_engine =
  eng_config :: dlp_config
  eng_rules :: "compiled_rule list"

text \<open>
  \<open>DlpEngine::build\<close>.  \<open>read\<close> reads a resolved rules file, \<open>None\<close> for any I/O
  error; \<open>parse\<close> is the TOML parser.  Rules without a regex are skipped.
\<close>

fun compile_rules ::
  "dlp_ext \<Rightarrow> string \<Rightarrow> raw_rule list \<Rightarrow> compiled_rule list \<Rightarrow> dlp_rule_error + compiled_rule list"
  where
  "compile_rules X path [] acc = Inr acc"
| "compile_rules X path (r # rs) acc =
     (case raw_regex r of
        None \<Rightarrow> compile_rules X path rs acc
      | Some pattern \<Rightarrow>
          (case compile_rule X r pattern path of
             Inl e \<Rightarrow> Inl e
           | Inr c \<Rightarrow> compile_rules X path rs (acc @ [c])))"

fun build_files ::
  "dlp_ext \<Rightarrow> (string \<Rightarrow> string) \<Rightarrow> (string \<Rightarrow> string option) \<Rightarrow>
   (string \<Rightarrow> string + raw_rule list) \<Rightarrow> string list \<Rightarrow> compiled_rule list \<Rightarrow>
   dlp_rule_error + compiled_rule list" where
  "build_files X resolve read parse [] acc = Inr acc"
| "build_files X resolve read parse (f # fs) acc =
     (case read (resolve f) of
        None \<Rightarrow> build_files X resolve read parse fs acc
      | Some content \<Rightarrow>
          (case parse content of
             Inl src \<Rightarrow> Inl (ParseErr (resolve f) src)
           | Inr raws \<Rightarrow>
               (case compile_rules X (resolve f) raws acc of
                  Inl e \<Rightarrow> Inl e
                | Inr acc' \<Rightarrow> build_files X resolve read parse fs acc')))"

definition build_engine ::
  "dlp_ext \<Rightarrow> (string \<Rightarrow> string) \<Rightarrow> (string \<Rightarrow> string option) \<Rightarrow>
   (string \<Rightarrow> string + raw_rule list) \<Rightarrow> dlp_config \<Rightarrow> dlp_rule_error + dlp_engine" where
  "build_engine X resolve read parse config =
     (case build_files X resolve read parse (rules_files config) [] of
        Inl e \<Rightarrow> Inl e
      | Inr rules \<Rightarrow> Inr \<lparr>eng_config = config, eng_rules = rules\<rparr>)"

subsection \<open>Entropy and Luhn\<close>

definition shannon_entropy :: "string \<Rightarrow> real" where
  "shannon_entropy v =
     (if v = [] then 0
      else (let total = real (min (length v) (2 ^ 32 - 1)) in
        sum_list (map (\<lambda>count. let p = real count / total in - p * log 2 p)
          (filter (\<lambda>count. 0 < count) (map (\<lambda>b. count_list v (char_of b)) [0..<256])))))"

definition luhn_digits :: "string \<Rightarrow> nat list" where
  "luhn_digits candidate = map (\<lambda>c. byte_of c - 48) (filter is_ascii_digit candidate)"

definition luhn_weight :: "nat \<Rightarrow> nat \<Rightarrow> nat" where
  "luhn_weight idx digit =
     (if idx mod 2 = 1 then (if 9 < digit * 2 then digit * 2 - 9 else digit * 2) else digit)"

fun luhn_sum :: "nat \<Rightarrow> nat list \<Rightarrow> nat \<Rightarrow> nat" where
  "luhn_sum idx [] acc = acc"
| "luhn_sum idx (d # ds) acc = luhn_sum (Suc idx) ds (acc + luhn_weight idx d)"

definition luhn_valid :: "string \<Rightarrow> bool" where
  "luhn_valid candidate =
     (let digits = luhn_digits candidate in
      if length digits < 12 then False else luhn_sum 0 (rev digits) 0 mod 10 = 0)"

subsection \<open>The built-in patterns\<close>

text \<open>The regex sources of the five PII detectors; \<open>BSL\<close> is the backslash byte.\<close>

abbreviation BSL :: char where
  "BSL \<equiv> CHR 0x5C"

definition EMAIL_PATTERN :: string where
  "EMAIL_PATTERN = ''(?i)[a-z0-9._%+-]+@[a-z0-9.-]+'' @ [BSL] @ ''.[a-z]{2,}''"

definition CC_PATTERN :: string where
  "CC_PATTERN = [BSL] @ ''b(?:'' @ [BSL] @ ''d[ -]*?){13,16}'' @ [BSL] @ ''b''"

definition PHONE_PATTERN :: string where
  "PHONE_PATTERN = [BSL] @ ''b(?:'' @ [BSL] @ ''+'' @ [BSL] @ ''d{1,3}[ .-]|(?:'' @ [BSL] @
     ''('' @ [BSL] @ ''d{2,4}'' @ [BSL] @ '')|'' @ [BSL] @ ''d{2,4})[ .-])'' @ [BSL] @
     ''d{3,4}[ .-]'' @ [BSL] @ ''d{4}'' @ [BSL] @ ''b''"

definition OCTET_PATTERN :: string where
  "OCTET_PATTERN = ''(?:25[0-5]|2[0-4][0-9]|[01]?[0-9][0-9]?)''"

definition IPV4_PATTERN :: string where
  "IPV4_PATTERN = [BSL] @ ''b(?:'' @ OCTET_PATTERN @ [BSL] @ ''.){3}'' @ OCTET_PATTERN @
     [BSL] @ ''b''"

definition SSN_PATTERN :: string where
  "SSN_PATTERN = [BSL] @ ''b'' @ [BSL] @ ''d{3}-'' @ [BSL] @ ''d{2}-'' @ [BSL] @ ''d{4}'' @
     [BSL] @ ''b''"

definition email_re :: "dlp_ext \<Rightarrow> regex" where
  "email_re X = ext_literal X EMAIL_PATTERN"

definition cc_re :: "dlp_ext \<Rightarrow> regex" where
  "cc_re X = ext_literal X CC_PATTERN"

definition phone_re :: "dlp_ext \<Rightarrow> regex" where
  "phone_re X = ext_literal X PHONE_PATTERN"

definition ipv4_re :: "dlp_ext \<Rightarrow> regex" where
  "ipv4_re X = ext_literal X IPV4_PATTERN"

definition ssn_re :: "dlp_ext \<Rightarrow> regex" where
  "ssn_re X = ext_literal X SSN_PATTERN"

subsection \<open>Detection\<close>

definition keyword_prefilter_ok :: "dlp_ext \<Rightarrow> compiled_rule \<Rightarrow> string \<Rightarrow> bool" where
  "keyword_prefilter_ok X rule content \<longleftrightarrow>
     rule_keywords rule = [] \<or>
     list_ex (\<lambda>k. contains k (ext_lower X content)) (rule_keywords rule)"

definition entropy_ok :: "compiled_rule \<Rightarrow> string \<Rightarrow> bool" where
  "entropy_ok rule secret =
     (case rule_entropy rule of Some m \<Rightarrow> m \<le> shannon_entropy secret | None \<Rightarrow> True)"

definition group_index :: "compiled_rule \<Rightarrow> nat" where
  "group_index rule = (case rule_group rule of Some g \<Rightarrow> g | None \<Rightarrow> 0)"

definition rule_triggers :: "dlp_ext \<Rightarrow> compiled_rule \<Rightarrow> string \<Rightarrow> bool" where
  "rule_triggers X rule content \<longleftrightarrow>
     keyword_prefilter_ok X rule content \<and>
     list_ex (\<lambda>c. case cap_get c (group_index rule) of
         Some (b, e) \<Rightarrow> entropy_ok rule (slice content b e)
       | None \<Rightarrow> False) (captures_iter (rule_regex rule) content)"

definition contains_valid_card :: "dlp_ext \<Rightarrow> string \<Rightarrow> bool" where
  "contains_valid_card X content \<longleftrightarrow>
     list_ex (\<lambda>c. luhn_valid (whole_match content c)) (captures_iter (cc_re X) content)"

definition rule_label :: "compiled_rule \<Rightarrow> string" where
  "rule_label rule =
     (case rule_description rule of Some d \<Rightarrow> d | None \<Rightarrow> rule_id rule)"

definition violation :: "string \<Rightarrow> string \<Rightarrow> dlp_violation" where
  "violation c d = \<lparr>vio_category = c, vio_description = d\<rparr>"

definition check_violations :: "dlp_ext \<Rightarrow> dlp_engine \<Rightarrow> string \<Rightarrow> dlp_violation option" where
  "check_violations X engine content =
     (let cfg = eng_config engine in
      case (if secret_redaction cfg
            then find (\<lambda>rule. rule_triggers X rule content) (eng_rules engine) else None) of
        Some rule \<Rightarrow> Some (violation ''Secret'' (rule_label rule))
      | None \<Rightarrow>
          if email_enabled cfg \<and> is_match (email_re X) content
          then Some (violation ''PII'' ''Email address detected'')
          else if ssn_enabled cfg \<and> is_match (ssn_re X) content
          then Some (violation ''PII'' ''Social Security Number detected'')
          else if cc_enabled cfg \<and> contains_valid_card X content
          then Some (violation ''PII'' ''Credit card number detected'')
          else if phone_enabled cfg \<and> is_match (phone_re X) content
          then Some (violation ''PII'' ''Phone number detected'')
          else if ip_enabled cfg \<and> is_match (ipv4_re X) content
          then Some (violation ''PII'' ''IPv4 address detected'')
          else None)"

subsection \<open>One-way redaction\<close>

text \<open>
  A replacement string is expanded by the crate (\<open>$name\<close> references); the fixed markers
  hold no dollar sign and are taken as they are.
\<close>

fun permanent_rules :: "dlp_ext \<Rightarrow> string \<Rightarrow> compiled_rule list \<Rightarrow> string \<Rightarrow> string" where
  "permanent_rules X content [] redacted = redacted"
| "permanent_rules X content (rule # rules) redacted =
     permanent_rules X content rules
       (if keyword_prefilter_ok X rule content
        then replace_all (rule_regex rule) redacted
               (\<lambda>c. ext_expand X redacted c (''<'' @ rule_id rule @ ''>''))
        else redacted)"

definition permanent_card :: "dlp_ext \<Rightarrow> string \<Rightarrow> string" where
  "permanent_card X s = replace_all (cc_re X) s
     (\<lambda>c. if luhn_valid (whole_match s c) then ''<CC>'' else whole_match s c)"

definition redact_permanent :: "dlp_ext \<Rightarrow> dlp_engine \<Rightarrow> string \<Rightarrow> string" where
  "redact_permanent X engine content =
     (let cfg = eng_config engine;
          r0 = (if secret_redaction cfg
                then permanent_rules X content (eng_rules engine) content else content);
          r1 = (if ssn_enabled cfg then replace_all (ssn_re X) r0 (\<lambda>_. ''<SSN>'') else r0);
          r2 = (if email_enabled cfg then replace_all (email_re X) r1 (\<lambda>_. ''<EMAIL>'') else r1);
          r3 = (if cc_enabled cfg then permanent_card X r2 else r2);
          r4 = (if phone_enabled cfg then replace_all (phone_re X) r3 (\<lambda>_. ''<PHONE>'') else r3)
      in (if ip_enabled cfg then replace_all (ipv4_re X) r4 (\<lambda>_. ''<IP>'') else r4))"

subsection \<open>Lemmas on replacing matches\<close>

lemma slice_self [simp]: "slice s b b = []"
  by (simp add: slice_def)

lemma slice_append_drop: "b \<le> e \<Longrightarrow> slice s b e @ drop e s = drop b s"
  by (metis append_take_drop_id drop_drop le_add_diff_inverse2 slice_def)

lemma caps_ok_bound: "caps_ok n pos cs \<Longrightarrow> pos \<le> n"
  by (induction cs arbitrary: pos) (fastforce split: option.splits)+

lemma caps_ok_ConsE:
  assumes "caps_ok n pos (c # cs)"
  obtains b e where "cap_get c 0 = Some (b, e)" "pos \<le> b" "b \<le> e" "caps_ok n e cs" "e \<le> n"
  using assms caps_ok_bound by (fastforce split: option.splits)

text \<open>Putting every match back is the identity.\<close>

lemma replace_spans_id:
  "caps_ok (length hay) pos cs \<Longrightarrow> \<forall>c \<in> set cs. f c st = (whole_match hay c, st) \<Longrightarrow>
   replace_spans hay pos cs f st = (drop pos hay, st)"
proof (induction cs arbitrary: pos)
  case Nil
  then show ?case by simp
next
  case (Cons c cs)
  from Cons.prems(1) obtain b e where c: "cap_get c 0 = Some (b, e)" "pos \<le> b" "b \<le> e"
    and ok: "caps_ok (length hay) e cs"
    by (rule caps_ok_ConsE)
  from Cons.IH [OF ok] Cons.prems(2) have "replace_spans hay e cs f st = (drop e hay, st)"
    by simp
  with c Cons.prems(2) show ?case by (simp add: whole_match_def slice_append_drop)
qed

lemma replace_all_id:
  "regex_ok re \<Longrightarrow> \<forall>c \<in> set (captures_iter re hay). f c = whole_match hay c \<Longrightarrow>
   replace_all re hay f = hay"
  by (simp add: replace_all_def replace_all_with_def replace_spans_id regex_ok_def)

lemma replace_all_no_match: "\<not> is_match re hay \<Longrightarrow> replace_all re hay f = hay"
  by (simp add: replace_all_def replace_all_with_def is_match_def)

subsection \<open>Detection is the disjunction of the enabled detectors\<close>

lemma check_violations_None_parts:
  "check_violations X engine content = None \<longleftrightarrow>
     \<not> (secret_redaction (eng_config engine) \<and>
        list_ex (\<lambda>r. rule_triggers X r content) (eng_rules engine)) \<and>
     \<not> (email_redaction (eng_config engine) \<and> is_match (email_re X) content) \<and>
     \<not> (ssn_redaction (eng_config engine) \<and> is_match (ssn_re X) content) \<and>
     \<not> (credit_card_redaction (eng_config engine) \<and> contains_valid_card X content) \<and>
     \<not> (phone_redaction (eng_config engine) \<and> is_match (phone_re X) content) \<and>
     \<not> (ip_redaction (eng_config engine) \<and> is_match (ipv4_re X) content)"
proof -
  let ?P = "\<lambda>rule. rule_triggers X rule content"
  have find: "(find ?P (eng_rules engine) = None) = (\<not> list_ex ?P (eng_rules engine))"
    by (auto simp: find_None_iff list_ex_iff)
  show ?thesis
    by (cases "find ?P (eng_rules engine)")
      (use find in \<open>simp_all add: check_violations_def Let_def enabled_defs\<close>)
qed

text \<open>
  A text passes detection exactly when no enabled detector fires: no rule triggers
  (keyword prefilter, a match, and the entropy gate on its secret group) and no enabled
  built-in pattern matches, where a card number counts only when it is Luhn valid.
\<close>

theorem check_violations_None_iff:
  "check_violations X engine content = None \<longleftrightarrow>
     \<not> (secret_redaction (eng_config engine) \<and>
        list_ex (\<lambda>r. rule_triggers X r content) (eng_rules engine)) \<and>
     \<not> (email_redaction (eng_config engine) \<and> is_match (email_re X) content) \<and>
     \<not> (ssn_redaction (eng_config engine) \<and> is_match (ssn_re X) content) \<and>
     \<not> (credit_card_redaction (eng_config engine) \<and> contains_valid_card X content) \<and>
     \<not> (phone_redaction (eng_config engine) \<and> is_match (phone_re X) content) \<and>
     \<not> (ip_redaction (eng_config engine) \<and> is_match (ipv4_re X) content)"
  by (rule check_violations_None_parts)

subsection \<open>Luhn\<close>

lemma luhn_sum_acc: "luhn_sum idx ds a = luhn_sum idx ds 0 + a"
proof (induction ds arbitrary: idx a)
  case (Cons d ds)
  from Cons.IH [of "Suc idx" "a + luhn_weight idx d"] Cons.IH [of "Suc idx" "luhn_weight idx d"]
  show ?case by simp
qed simp

lemma luhn_sum_append:
  "luhn_sum idx (xs @ ys) a = luhn_sum (idx + length xs) ys (luhn_sum idx xs a)"
  by (induction xs arbitrary: idx a) simp_all

lemma luhn_weight_less: "d < 10 \<Longrightarrow> luhn_weight idx d < 10"
  by (auto simp: luhn_weight_def)

lemma luhn_weight_inj: "d < 10 \<Longrightarrow> e < 10 \<Longrightarrow> luhn_weight idx d = luhn_weight idx e \<Longrightarrow> d = e"
  by (auto simp: luhn_weight_def split: if_splits) presburger+

lemma mod_cancel_left:
  assumes "(n + x) mod 10 = 0" and "(n + y) mod 10 = 0" and "x < 10" and "y < (10::nat)"
  shows "x = y"
proof -
  from assms(1) have "10 dvd n + x" by (rule mod_0_imp_dvd)
  moreover from assms(2) have "10 dvd n + y" by (rule mod_0_imp_dvd)
  ultimately obtain q q' where "n + x = 10 * q" and "n + y = 10 * q'" by (blast elim: dvdE)
  then show ?thesis
    using assms(3,4) by (cases q q' rule: linorder_cases) linarith+
qed

text \<open>
  The Luhn check catches every single-digit error: two card candidates that differ in
  exactly one digit cannot both be valid.
\<close>

theorem luhn_single_digit:
  assumes "is_ascii_digit a" and "is_ascii_digit b"
    and "luhn_valid (u @ a # v)" and "luhn_valid (u @ b # v)"
  shows "a = b"
proof -
  define l r where "l = luhn_digits u" and "r = rev (luhn_digits v)"
  define d e where "d = byte_of a - 48" and "e = byte_of b - 48"
  have digits: "luhn_digits (u @ c # v) = l @ (byte_of c - 48) # rev r" if "is_ascii_digit c" for c
    using that by (simp add: luhn_digits_def l_def r_def)
  let ?i = "length r"
  have split: "luhn_sum 0 (rev (l @ x # rev r)) 0 =
      luhn_sum (Suc ?i) (rev l) 0 + luhn_sum 0 r 0 + luhn_weight ?i x" for x
    using luhn_sum_acc [of "Suc ?i" "rev l" "luhn_sum 0 r 0 + luhn_weight ?i x"]
    by (simp add: luhn_sum_append luhn_sum_acc [of ?i "[x]"])
  have "(luhn_sum (Suc ?i) (rev l) 0 + luhn_sum 0 r 0 + luhn_weight ?i d) mod 10 = 0"
    and "(luhn_sum (Suc ?i) (rev l) 0 + luhn_sum 0 r 0 + luhn_weight ?i e) mod 10 = 0"
    using assms digits split by (simp_all add: luhn_valid_def d_def e_def Let_def split: if_splits)
  moreover have "d < 10" "e < 10"
    using assms(1,2) by (auto simp: d_def e_def is_ascii_digit_def)
  ultimately have "luhn_weight ?i d = luhn_weight ?i e"
    by (meson mod_cancel_left luhn_weight_less)
  with \<open>d < 10\<close> \<open>e < 10\<close> have "d = e" by (rule luhn_weight_inj)
  then have "byte_of a = byte_of b"
    using assms(1,2) unfolding d_def e_def is_ascii_digit_def by linarith
  then show ?thesis by simp
qed

theorem luhn_single_digit_witness:
  "luhn_valid ''4111-1111-1111-1111'' \<and> \<not> luhn_valid ''4111-1111-1111-1112''"
proof -
  have v: "luhn_valid (''4111-1111-1111-111'' @ CHR ''1'' # [])" by code_simp
  have "is_ascii_digit (CHR ''1'')" "is_ascii_digit (CHR ''2'')"
    by (simp_all add: is_ascii_digit_def)
  from luhn_single_digit [OF this v] have "\<not> luhn_valid (''4111-1111-1111-111'' @ CHR ''2'' # [])"
    by auto
  with v show ?thesis by simp
qed

subsection \<open>Entropy\<close>

lemma char_of_eq_iff_byte: "b < 256 \<Longrightarrow> char_of b = x \<longleftrightarrow> b = byte_of x"
  by (auto simp flip: of_char_eq_iff)

lemma sum_list_indicator:
  "sum_list (map (\<lambda>b. if char_of b = x then 1 else 0) [0..<256]) = (1::nat)"
proof -
  have "map (\<lambda>b. if char_of b = x then 1 else 0) [0..<256] =
      map (\<lambda>b. if b = byte_of x then 1 else (0::nat)) [0..<256]"
    by (rule map_cong) (auto simp: char_of_eq_iff_byte)
  then have "sum_list (map (\<lambda>b. if char_of b = x then 1 else 0) [0..<256]) =
      (\<Sum>b = 0..<256. if b = byte_of x then 1 else (0::nat))"
    by (simp add: interv_sum_list_conv_sum_set_nat)
  also have "\<dots> = 1" by (simp add: sum.delta')
  finally show ?thesis .
qed

lemma byte_counts_total:
  "sum_list (map (\<lambda>b. count_list v (char_of b)) [0..<256]) = length v"
proof (induction v)
  case Nil
  then show ?case by simp
next
  case (Cons x v)
  have "sum_list (map (\<lambda>b. count_list (x # v) (char_of b)) [0..<256]) =
      sum_list (map (\<lambda>b. count_list v (char_of b)) [0..<256]) +
      sum_list (map (\<lambda>b. if char_of b = x then 1 else 0) [0..<256])"
    by (subst sum_list_addf [symmetric]) (rule arg_cong [of _ _ sum_list], auto)
  with Cons sum_list_indicator show ?case by simp
qed

text \<open>One term of the sum, bounded by the inequality of Gibbs.\<close>

lemma entropy_term_nonneg: "0 \<le> p \<Longrightarrow> p \<le> 1 \<Longrightarrow> 0 \<le> - p * log 2 (p::real)"
  by (cases "p = 0") (auto simp: mult_le_0_iff zero_less_log_cancel_iff)

lemma entropy_term_le:
  assumes "0 < (p::real)"
  shows "- p * log 2 p \<le> 8 * p + (1 / 256 - p) / ln 2"
proof -
  have "log 2 (1 / (256 * p)) \<le> (1 / (256 * p) - 1) / ln 2"
    using ln_le_minus_one [of "1 / (256 * p)"] assms by (simp add: log_def divide_right_mono)
  then have "p * log 2 (1 / (256 * p)) \<le> p * ((1 / (256 * p) - 1) / ln 2)"
    using assms by (intro mult_left_mono) auto
  also have "\<dots> = (1 / 256 - p) / ln 2" using assms by (simp add: field_simps)
  finally have "p * log 2 (1 / (256 * p)) \<le> (1 / 256 - p) / ln 2" .
  moreover have "log 2 (1 / (256 * p)) = - 8 - log 2 p"
  proof -
    have "log 2 (256::real) = 8" using log_pow_cancel [of 2 8] by simp
    with assms show ?thesis by (simp add: log_divide log_mult)
  qed
  ultimately have "p * (- 8 - log 2 p) \<le> (1 / 256 - p) / ln 2" by (simp only:)
  moreover have "p * (- 8 - log 2 p) = - p * log 2 p - 8 * p" by (simp add: algebra_simps)
  ultimately show ?thesis by linarith
qed

text \<open>The sum over all 256 byte values equals the sum over the values that occur.\<close>

lemma shannon_entropy_alt:
  assumes "v \<noteq> []" and "length v < 2 ^ 32"
  shows "shannon_entropy v = (\<Sum>b\<leftarrow>[0..<256]. let p = real (count_list v (char_of b)) / real (length v)
     in - p * log 2 p)"
proof -
  have len: "min (length v) 4294967295 = length v" using assms(2) by simp
  have zero: "(if 0 < c then - (real c / t) * log 2 (real c / t) else 0) =
      - (real c / t) * log 2 (real c / t)" for c t by simp
  show ?thesis
    using assms(1)
    by (simp add: shannon_entropy_def Let_def len sum_list_map_filter' comp_def zero
        del: mult_minus_left)
qed

text \<open>
  The Shannon entropy of any text (below 2 to the 32 bytes) lies between 0 and 8 bits
  per byte: an entropy gate at 0 or below lets every match through, a gate above 8 none.
\<close>

theorem shannon_entropy_bounds:
  assumes "length v < 2 ^ 32"
  shows "0 \<le> shannon_entropy v \<and> shannon_entropy v \<le> 8"
proof (cases "v = []")
  case True
  then show ?thesis by (simp add: shannon_entropy_def)
next
  case False
  define p where "p b = real (count_list v (char_of b)) / real (length v)" for b :: nat
  have len: "0 < real (length v)" using False by simp
  have H: "shannon_entropy v = (\<Sum>b\<leftarrow>[0..<256]. - p b * log 2 (p b))"
    using shannon_entropy_alt [OF False assms] by (simp add: p_def Let_def)
  have p: "0 \<le> p b" "p b \<le> 1" for b
    using len count_le_length [of v "char_of b"] by (simp_all add: p_def)
  have total: "(\<Sum>b\<leftarrow>[0..<256]. p b) = 1"
  proof -
    have "(\<Sum>b\<leftarrow>[0..<256]. p b) =
        real (\<Sum>b\<leftarrow>[0..<256]. count_list v (char_of b)) / real (length v)"
      by (simp add: p_def interv_sum_list_conv_sum_set_nat sum_divide_distrib)
    with len show ?thesis by (simp only: byte_counts_total) simp
  qed
  have "- p b * log 2 (p b) \<le> 8 * p b + (1 / 256 - p b) / ln 2" for b
    using entropy_term_le [of "p b"] p [of b] by (cases "p b = 0") auto
  then have "(\<Sum>b\<leftarrow>[0..<256]. - p b * log 2 (p b)) \<le>
      (\<Sum>b\<leftarrow>[0..<256]. 8 * p b + (1 / 256 - p b) / ln 2)"
    by (intro sum_list_mono) simp
  also have "\<dots> = 8 * (\<Sum>b\<leftarrow>[0..<256]. p b) + (1 - (\<Sum>b\<leftarrow>[0..<256]. p b)) / ln 2"
    by (simp add: interv_sum_list_conv_sum_set_nat sum.distrib sum_distrib_left sum_subtractf
        flip: sum_divide_distrib)
  finally have "shannon_entropy v \<le> 8" using H total by simp
  moreover have "0 \<le> shannon_entropy v"
    unfolding H by (intro sum_list_nonneg) (use p entropy_term_nonneg in force)
  ultimately show ?thesis by simp
qed

theorem shannon_entropy_bounds_witness:
  "0 \<le> shannon_entropy ''f7Kq'' \<and> shannon_entropy ''f7Kq'' \<le> 8"
  by (rule shannon_entropy_bounds) simp

subsection \<open>Loading the rules\<close>

text \<open>The rules a list of readable, parsable files contributes, by id.\<close>

definition loaded_ids ::
  "(string \<Rightarrow> string) \<Rightarrow> (string \<Rightarrow> string option) \<Rightarrow> (string \<Rightarrow> string + raw_rule list) \<Rightarrow>
   string list \<Rightarrow> string list" where
  "loaded_ids resolve read parse fs = concat (map (\<lambda>f.
     case read (resolve f) of
       None \<Rightarrow> []
     | Some content \<Rightarrow>
         (case parse content of
            Inl _ \<Rightarrow> []
          | Inr raws \<Rightarrow> map raw_id (filter (\<lambda>r. raw_regex r \<noteq> None) raws))) fs)"

definition valid_group :: "compiled_rule \<Rightarrow> bool" where
  "valid_group r =
     (case rule_group r of None \<Rightarrow> True | Some g \<Rightarrow> 0 < g \<and> g < captures_len (rule_regex r))"

lemma compile_rule_ok:
  "compile_rule X r pattern path = Inr c \<Longrightarrow> valid_group c \<and> rule_id c = raw_id r"
  by (auto simp: compile_rule_def valid_group_def Let_def split: sum.splits option.splits if_splits)

lemma compile_rules_ok:
  "compile_rules X path rs acc = Inr out \<Longrightarrow> list_all valid_group acc \<Longrightarrow>
   list_all valid_group out \<and>
   map rule_id out = map rule_id acc @ map raw_id (filter (\<lambda>r. raw_regex r \<noteq> None) rs)"
proof (induction X path rs acc rule: compile_rules.induct)
  case (2 X path r rs acc)
  show ?case
  proof (cases "raw_regex r")
    case None
    with 2 show ?thesis by simp
  next
    case (Some pattern)
    with "2.prems"(1) obtain c where c: "compile_rule X r pattern path = Inr c"
      and rest: "compile_rules X path rs (acc @ [c]) = Inr out"
      by (auto split: sum.splits)
    from compile_rule_ok [OF c] show ?thesis
      using "2.IH"(2) [OF Some c rest] "2.prems"(2) Some by simp
  qed
qed auto

lemma build_files_ok:
  "build_files X resolve read parse fs acc = Inr out \<Longrightarrow> list_all valid_group acc \<Longrightarrow>
   list_all valid_group out \<and> map rule_id out = map rule_id acc @ loaded_ids resolve read parse fs \<and>
   (\<forall>f \<in> set fs. \<forall>content. read (resolve f) = Some content \<longrightarrow> (\<exists>raws. parse content = Inr raws))"
proof (induction X resolve read parse fs acc rule: build_files.induct)
  case (2 X resolve read parse f fs acc)
  show ?case
  proof (cases "read (resolve f)")
    case None
    with 2 show ?thesis by (simp add: loaded_ids_def)
  next
    case (Some content)
    with "2.prems"(1) obtain raws acc' where raws: "parse content = Inr raws"
      and acc': "compile_rules X (resolve f) raws acc = Inr acc'"
      and rest: "build_files X resolve read parse fs acc' = Inr out"
      by (auto split: sum.splits)
    from compile_rules_ok [OF acc' "2.prems"(2)] show ?thesis
      using "2.IH"(2) [OF Some raws acc' rest] Some raws by (simp add: loaded_ids_def)
  qed
qed (simp add: loaded_ids_def)

text \<open>
  Loading the rule files fails closed on broken content: when the engine is built, every
  readable rules file parsed, every rule with a pattern compiled and is in the engine, in
  file order and exactly once, and each secret group is a group its regex really has.
\<close>

theorem build_engine_complete:
  assumes "build_engine X resolve read parse config = Inr engine"
  shows "eng_config engine = config \<and>
    map rule_id (eng_rules engine) = loaded_ids resolve read parse (rules_files config) \<and>
    list_all valid_group (eng_rules engine) \<and>
    (\<forall>f \<in> set (rules_files config). \<forall>content.
       read (resolve f) = Some content \<longrightarrow> (\<exists>raws. parse content = Inr raws))"
proof -
  from assms obtain rules where
    "build_files X resolve read parse (rules_files config) [] = Inr rules"
    and "engine = \<lparr>eng_config = config, eng_rules = rules\<rparr>"
    by (auto simp: build_engine_def split: sum.splits)
  with build_files_ok [OF this(1)] show ?thesis by simp
qed

text \<open>A rules file that cannot be read only warns: the engine is built without its rules.\<close>

lemma build_engine_unreadable:
  "(\<And>f. f \<in> set (rules_files config) \<Longrightarrow> read (resolve f) = None) \<Longrightarrow>
   build_engine X resolve read parse config = Inr \<lparr>eng_config = config, eng_rules = []\<rparr>"
proof -
  assume none: "\<And>f. f \<in> set (rules_files config) \<Longrightarrow> read (resolve f) = None"
  have "\<forall>f \<in> set fs. read (resolve f) = None \<Longrightarrow>
      build_files X resolve read parse fs acc = Inr acc" for fs acc
    by (induction fs) auto
  with none show ?thesis by (simp add: build_engine_def)
qed

subsection \<open>A concrete regex library for the witnesses\<close>

text \<open>A regex that matches one fixed text, and a library where every pattern does.\<close>

function needle_matches :: "string \<Rightarrow> nat \<Rightarrow> string \<Rightarrow> caps list" where
  "needle_matches n pos [] = []"
| "needle_matches n pos (x # xs) =
     (if n \<noteq> [] \<and> starts_with n (x # xs)
      then [Some (pos, pos + length n)] #
           needle_matches n (pos + length n) (drop (length n) (x # xs))
      else needle_matches n (Suc pos) xs)"
  by pat_completeness auto
termination
  by (relation "measure (\<lambda>(n, pos, s). length s)") (auto simp: neq_Nil_conv)

definition needle :: "string \<Rightarrow> regex" where
  "needle n = \<lparr>captures_iter = needle_matches n 0, captures_len = 1\<rparr>"

definition needle_ext :: "(string \<Rightarrow> string) \<Rightarrow> dlp_ext" where
  "needle_ext pat = \<lparr>ext_compile = (\<lambda>p. Inr (needle p)), ext_literal = (\<lambda>p. needle (pat p)),
     ext_expand = (\<lambda>hay c t. t), ext_lower = to_ascii_lowercase\<rparr>"

lemma needle_matches_ok:
  "caps_ok (pos + length s) pos (needle_matches n pos s)"
proof (induction n pos s rule: needle_matches.induct)
  case (2 n pos x xs)
  show ?case
  proof (cases "n \<noteq> [] \<and> starts_with n (x # xs)")
    case True
    then obtain r where r: "x # xs = n @ r" by (auto simp: starts_with_iff)
    then have len: "length (x # xs) = length n + length r"
      and rest: "drop (length n) (x # xs) = r" by (metis length_append, simp)
    have "needle_matches n pos (x # xs) =
        [Some (pos, pos + length n)] # needle_matches n (pos + length n) r"
      using True rest by (simp del: drop_Cons')
    moreover have "caps_ok (pos + length n + length r) (pos + length n)
        (needle_matches n (pos + length n) r)"
      using "2.IH"(1) [OF True] unfolding rest .
    ultimately show ?thesis using len
      by (simp add: cap_get_def add.assoc del: length_Cons)
  next
    case False
    have weaken: "caps_ok m (Suc k) cs \<Longrightarrow> caps_ok m k cs" for m k cs
      by (cases cs) (auto split: option.splits)
    from "2.IH"(2) [OF False] False show ?thesis by (auto intro: weaken)
  qed
qed simp

lemma needle_ok [simp]: "regex_ok (needle n)"
  using needle_matches_ok [of 0 _ n] by (simp add: regex_ok_def needle_def)

lemma needle_matches_absent: "n \<noteq> [] \<Longrightarrow> hd n \<notin> set s \<Longrightarrow> needle_matches n pos s = []"
  by (induction s arbitrary: pos) (auto simp: starts_with_iff neq_Nil_conv)

lemma captures_iter_needle [simp]: "captures_iter (needle n) = needle_matches n 0"
  by (simp add: needle_def)

subsection \<open>Witnesses, and one-way redaction of clean text\<close>

definition sample_rule :: raw_rule where
  "sample_rule = \<lparr>raw_id = ''aws'', raw_description = None, raw_regex = Some ''AKIA'',
     raw_secret_group = None, raw_entropy = None, raw_keywords = Some [''AKIA'']\<rparr>"

lemma build_engine_complete_witness:
  "\<exists>engine. build_engine (needle_ext id) id (\<lambda>f. Some f) (\<lambda>content. Inr [sample_rule])
       default_dlp_config = Inr engine \<and> eng_config engine = default_dlp_config \<and>
     map rule_id (eng_rules engine) = [''aws''] \<and> list_all valid_group (eng_rules engine)"
proof -
  let ?b = "build_engine (needle_ext id) id (\<lambda>f. Some f) (\<lambda>content. Inr [sample_rule])
       default_dlp_config"
  have "\<exists>engine. ?b = Inr engine"
    by (simp add: build_engine_def default_dlp_config_def sample_rule_def compile_rule_def
        needle_ext_def)
  then obtain engine where e: "?b = Inr engine" by blast
  from build_engine_complete [OF e] e show ?thesis
    by (simp add: loaded_ids_def default_dlp_config_def sample_rule_def)
qed

text \<open>A rule with neither an entropy gate nor a secret group.\<close>

definition plain_rule :: "compiled_rule \<Rightarrow> bool" where
  "plain_rule rule \<longleftrightarrow> rule_entropy rule = None \<and> rule_group rule = None"

lemma plain_rule_triggers:
  assumes "plain_rule rule" and "regex_ok (rule_regex rule)"
  shows "rule_triggers X rule content \<longleftrightarrow>
    keyword_prefilter_ok X rule content \<and> is_match (rule_regex rule) content"
proof -
  from assms(2) have "caps_ok (length content) 0 (captures_iter (rule_regex rule) content)"
    by (simp add: regex_ok_def)
  then show ?thesis using assms(1)
    by (cases "captures_iter (rule_regex rule) content")
      (auto simp: rule_triggers_def plain_rule_def group_index_def entropy_ok_def is_match_def
        split: option.splits)
qed

lemma permanent_rules_id:
  "\<forall>r \<in> set rules. \<not> (keyword_prefilter_ok X r content \<and> is_match (rule_regex r) content) \<Longrightarrow>
   permanent_rules X content rules content = content"
  by (induction rules) (auto simp: replace_all_no_match)

lemma permanent_card_id:
  assumes "regex_ok (cc_re X)" and "\<not> contains_valid_card X content"
  shows "permanent_card X content = content"
  unfolding permanent_card_def using assms
  by (intro replace_all_id) (auto simp: contains_valid_card_def list_ex_iff)

text \<open>
  Detection and one-way redaction agree: a text in which detection finds nothing comes
  out of the one-way redaction unchanged, when no rule has an entropy gate or a secret
  group and the regexes behave as documented.
\<close>

theorem redact_permanent_clean:
  assumes "check_violations X engine content = None"
    and "list_all (\<lambda>r. plain_rule r \<and> regex_ok (rule_regex r)) (eng_rules engine)"
    and "regex_ok (cc_re X)"
  shows "redact_permanent X engine content = content"
proof -
  let ?cfg = "eng_config engine"
  have r0: "(if secret_redaction ?cfg then permanent_rules X content (eng_rules engine) content
      else content) = content"
    using assms(1,2) plain_rule_triggers
    by (auto simp: check_violations_None_parts list_all_iff list_ex_iff intro!: permanent_rules_id)
  from assms(1) have off: "\<not> (email_redaction ?cfg \<and> is_match (email_re X) content)"
    "\<not> (ssn_redaction ?cfg \<and> is_match (ssn_re X) content)"
    "\<not> (credit_card_redaction ?cfg \<and> contains_valid_card X content)"
    "\<not> (phone_redaction ?cfg \<and> is_match (phone_re X) content)"
    "\<not> (ip_redaction ?cfg \<and> is_match (ipv4_re X) content)"
    by (simp_all only: check_violations_None_parts not_False_eq_True)
  show ?thesis using off assms(3)
    by (auto simp: redact_permanent_def Let_def r0 enabled_defs replace_all_no_match
        permanent_card_id)
qed

text \<open>An engine with one rule that looks for a fixed text.\<close>

definition needle_engine :: "string \<Rightarrow> real option \<Rightarrow> dlp_engine" where
  "needle_engine n ent = \<lparr>eng_config = default_dlp_config,
     eng_rules = [\<lparr>rule_id = ''key'', rule_description = None, rule_regex = needle n,
       rule_group = None, rule_entropy = ent, rule_keywords = []\<rparr>]\<rparr>"

lemma redact_permanent_clean_witness:
  "redact_permanent (needle_ext (\<lambda>p. ''zz'')) (needle_engine ''AKIA'' None) ''plain text''
     = ''plain text''"
  by (rule redact_permanent_clean)
    (simp_all add: check_violations_None_parts needle_ext_def needle_engine_def
      default_dlp_config_def rule_triggers_def is_match_def contains_valid_card_def
      plain_rule_def email_re_def ssn_re_def cc_re_def phone_re_def ipv4_re_def
      starts_with_def keyword_prefilter_ok_def)

lemma shannon_entropy_replicate:
  assumes "n < 2 ^ 32"
  shows "shannon_entropy (replicate n c) = 0"
proof -
  have count: "count_list (replicate n c) x = (if x = c then n else 0)" for x
    by (induction n) auto
  have "sum_list (map (\<lambda>count. let p = real count / real n in - p * log 2 p)
      (filter (\<lambda>count. 0 < count) (map (\<lambda>b. count_list (replicate n c) (char_of b)) [0..<256])))
    = sum_list (map (\<lambda>_. 0)
      (filter (\<lambda>count. 0 < count) (map (\<lambda>b. count_list (replicate n c) (char_of b)) [0..<256])))"
  proof (intro arg_cong [where f = sum_list] map_cong refl)
    fix k assume "k \<in> set (filter (\<lambda>count. 0 < count)
      (map (\<lambda>b. count_list (replicate n c) (char_of b)) [0..<256]))"
    then have "k = n" and "0 < k" by (auto split: if_splits simp: count)
    then show "(let p = real k / real n in - p * log 2 p) = 0" by (simp add: Let_def)
  qed
  with assms show ?thesis by (simp add: shannon_entropy_def)
qed

text \<open>
  The entropy gate is not part of the one-way path: a match below the gate passes detection
  and is rewritten all the same.
\<close>

lemma redact_permanent_ignores_entropy:
  "check_violations (needle_ext (\<lambda>p. ''zz'')) (needle_engine ''aaaa'' (Some 3)) ''x=aaaa'' = None"
  "redact_permanent (needle_ext (\<lambda>p. ''zz'')) (needle_engine ''aaaa'' (Some 3)) ''x=aaaa''
     = ''x=<key>''"
proof -
  have "shannon_entropy ''aaaa'' = 0"
    using shannon_entropy_replicate [of "Suc (Suc (Suc (Suc 0)))" "CHR ''a''"] by simp
  then show "check_violations (needle_ext (\<lambda>p. ''zz'')) (needle_engine ''aaaa'' (Some 3))
      ''x=aaaa'' = None"
    by (simp add: check_violations_None_parts needle_ext_def needle_engine_def
      default_dlp_config_def rule_triggers_def is_match_def contains_valid_card_def
      email_re_def ssn_re_def cc_re_def phone_re_def ipv4_re_def
      starts_with_def keyword_prefilter_ok_def group_index_def cap_get_def slice_def entropy_ok_def)
next
  show "redact_permanent (needle_ext (\<lambda>p. ''zz'')) (needle_engine ''aaaa'' (Some 3)) ''x=aaaa''
     = ''x=<key>''"
  proof -
    have m: "needle_matches ''aaaa'' 0 ''x=aaaa'' = [[Some (2, 6)]]"
      by (simp add: starts_with_def)
    have none: "\<not> is_match (needle ''zz'') s" if "CHR ''z'' \<notin> set s" for s
      unfolding is_match_def captures_iter_needle not_not
      by (rule needle_matches_absent) (use that in \<open>auto simp: starts_with_def\<close>)
    have rules: "permanent_rules (needle_ext (\<lambda>p. ''zz'')) ''x=aaaa''
        (eng_rules (needle_engine ''aaaa'' (Some 3))) ''x=aaaa'' = ''x=<key>''"
      by (simp add: needle_engine_def keyword_prefilter_ok_def replace_all_def m
        replace_all_with_def cap_get_def slice_def needle_ext_def)
    have "\<not> is_match (needle ''zz'') ''x=<key>''"
      by (rule none) simp
    moreover have "secret_redaction (eng_config (needle_engine ''aaaa'' (Some 3)))"
      by (simp add: needle_engine_def default_dlp_config_def)
    ultimately show ?thesis
      unfolding redact_permanent_def rules Let_def
      by (simp add: replace_all_no_match permanent_card_def email_re_def ssn_re_def cc_re_def
        phone_re_def ipv4_re_def needle_ext_def rules [unfolded needle_ext_def])
  qed
qed

end
