(* ===== verification/Session.thy ===== *)
theory Session
  imports Dlp
begin

section \<open>Reversible redaction (RedactionSession of src/security/dlp.rs)\<close>

text \<open>
  A session stores every redacted value under a token
  \<open>[[GUARDIAN_REDACTED:nonce:index:category]]\<close> together with the JSON pointer it was
  taken from, and restores tokens in the response only at pointers whose tail is the minted
  one.  The nonce is 16 random bytes in hex (\<open>OsRng\<close>, \<open>hex::encode\<close>): a parameter.
\<close>

subsection \<open>State and tokens\<close>

record redacted_value =
  rv_token :: string
  rv_secret :: string
  rv_pointer :: "string option"

record session =
  s_nonce :: string
  s_values :: "redacted_value list"

definition new_session :: "string \<Rightarrow> session" where
  "new_session nonce = \<lparr>s_nonce = nonce, s_values = []\<rparr>"

definition PLACEHOLDER_PREFIX :: string where
  "PLACEHOLDER_PREFIX = ''[[GUARDIAN_REDACTED:''"

definition NEUTRALIZED_MARKER :: string where
  "NEUTRALIZED_MARKER = ''<REDACTED>''"

definition mk_token :: "string \<Rightarrow> nat \<Rightarrow> string \<Rightarrow> string" where
  "mk_token nonce i category =
     PLACEHOLDER_PREFIX @ nonce @ '':'' @ nat_dec i @ '':'' @ category @ '']]''"

definition store :: "string option \<Rightarrow> string \<Rightarrow> string \<Rightarrow> session \<Rightarrow> string \<times> session" where
  "store pointer category secret s =
     (let token = mk_token (s_nonce s) (length (s_values s)) category in
      (token, s\<lparr>s_values := s_values s @
         [\<lparr>rv_token = token, rv_secret = secret, rv_pointer = pointer\<rparr>]\<rparr>))"

definition redaction_count :: "session \<Rightarrow> nat" where
  "redaction_count s = length (s_values s)"

subsection \<open>Redaction\<close>

text \<open>
  \<open>secret_replacement\<close>: the text around the secret group is kept, a match whose secret
  misses the entropy gate is kept verbatim.
\<close>

definition secret_replacement ::
  "compiled_rule \<Rightarrow> string \<Rightarrow> (string \<Rightarrow> 's \<Rightarrow> string \<times> 's) \<Rightarrow> caps \<Rightarrow> 's \<Rightarrow> string \<times> 's" where
  "secret_replacement rule hay st_fn c st =
     (case cap_get c (group_index rule) of
        None \<Rightarrow> (whole_match hay c, st)
      | Some (b, e) \<Rightarrow>
          if entropy_ok rule (slice hay b e) then
            (case rule_group rule of
               None \<Rightarrow> st_fn (slice hay b e) st
             | Some _ \<Rightarrow>
                 (case cap_get c 0 of
                    None \<Rightarrow> (whole_match hay c, st)
                  | Some (wb, we) \<Rightarrow>
                      (let (token, st') = st_fn (slice hay b e) st; whole_str = slice hay wb we in
                       (take (b - wb) whole_str @ token @ drop (e - wb) whole_str, st'))))
          else (whole_match hay c, st))"

definition rule_pass ::
  "string option \<Rightarrow> compiled_rule \<Rightarrow> string \<Rightarrow> session \<Rightarrow> string \<times> session" where
  "rule_pass pointer rule txt s =
     replace_all_with (rule_regex rule) txt
       (secret_replacement rule txt (store pointer (rule_id rule))) s"

fun session_rules ::
  "dlp_ext \<Rightarrow> string option \<Rightarrow> string \<Rightarrow> compiled_rule list \<Rightarrow> string \<Rightarrow> session \<Rightarrow> string \<times> session"
  where
  "session_rules X pointer content [] txt s = (txt, s)"
| "session_rules X pointer content (rule # rules) txt s =
     (if \<not> keyword_prefilter_ok X rule content then session_rules X pointer content rules txt s
      else (let (txt', s') = rule_pass pointer rule txt s in
            session_rules X pointer content rules txt' s'))"

definition redact_matches ::
  "regex \<Rightarrow> string \<Rightarrow> string option \<Rightarrow> string \<Rightarrow> session \<Rightarrow> string \<times> session" where
  "redact_matches re category pointer txt s =
     replace_all_with re txt (\<lambda>c. store pointer category (whole_match txt c)) s"

definition redact_cards ::
  "dlp_ext \<Rightarrow> string option \<Rightarrow> string \<Rightarrow> session \<Rightarrow> string \<times> session" where
  "redact_cards X pointer txt s =
     replace_all_with (cc_re X) txt
       (\<lambda>c st. if luhn_valid (whole_match txt c) then store pointer ''CC'' (whole_match txt c) st
               else (whole_match txt c, st)) s"

text \<open>A detector that is switched off does nothing.\<close>

definition when_on ::
  "bool \<Rightarrow> (string \<Rightarrow> session \<Rightarrow> string \<times> session) \<Rightarrow> string \<times> session \<Rightarrow> string \<times> session" where
  "when_on on run ts = (if on then run (fst ts) (snd ts) else ts)"

definition redact_session ::
  "dlp_ext \<Rightarrow> dlp_engine \<Rightarrow> session \<Rightarrow> string \<Rightarrow> string option \<Rightarrow> string \<times> session" where
  "redact_session X engine s content pointer =
     (let cfg = eng_config engine;
          ts0 = when_on (secret_redaction cfg)
                  (session_rules X pointer content (eng_rules engine)) (content, s);
          ts1 = when_on (ssn_enabled cfg) (redact_matches (ssn_re X) ''SSN'' pointer) ts0;
          ts2 = when_on (email_enabled cfg) (redact_matches (email_re X) ''EMAIL'' pointer) ts1;
          ts3 = when_on (cc_enabled cfg) (redact_cards X pointer) ts2;
          ts4 = when_on (phone_enabled cfg) (redact_matches (phone_re X) ''PHONE'' pointer) ts3
      in when_on (ip_enabled cfg) (redact_matches (ipv4_re X) ''IP'' pointer) ts4)"

definition redact_at ::
  "dlp_ext \<Rightarrow> session \<Rightarrow> string \<Rightarrow> dlp_engine \<Rightarrow> string option \<Rightarrow> string \<times> session" where
  "redact_at X s content engine pointer = redact_session X engine s content pointer"

definition redact :: "dlp_ext \<Rightarrow> session \<Rightarrow> string \<Rightarrow> dlp_engine \<Rightarrow> string \<times> session" where
  "redact X s content engine = redact_at X s content engine None"

subsection \<open>Restoration\<close>

definition pointer_segments :: "string \<Rightarrow> string list" where
  "pointer_segments p = filter (\<lambda>seg. seg \<noteq> []) (split_on (CHR ''/'') p)"

definition pointer_tail_matches :: "string \<Rightarrow> string \<Rightarrow> bool" where
  "pointer_tail_matches response minted \<longleftrightarrow>
     (let r = pointer_segments response; m = pointer_segments minted in
      length m \<le> length r \<and> drop (length r - length m) r = m)"

record restore_stats =
  restored_count :: nat
  neutralized_count :: nat

definition no_stats :: restore_stats where
  "no_stats = \<lparr>restored_count = 0, neutralized_count = 0\<rparr>"

definition eligible :: "string option \<Rightarrow> redacted_value \<Rightarrow> bool" where
  "eligible pointer v =
     (case (pointer, rv_pointer v) of
        (Some response, Some minted) \<Rightarrow> pointer_tail_matches response minted
      | _ \<Rightarrow> False)"

fun restore_loop ::
  "string option \<Rightarrow> redacted_value list \<Rightarrow> string \<Rightarrow> restore_stats \<Rightarrow> string \<times> restore_stats" where
  "restore_loop pointer [] txt stats = (txt, stats)"
| "restore_loop pointer (v # vs) txt stats =
     (if \<not> contains (rv_token v) txt then restore_loop pointer vs txt stats
      else if eligible pointer v
      then restore_loop pointer vs (str_replace (rv_token v) (rv_secret v) txt)
             (stats\<lparr>restored_count := restored_count stats + 1\<rparr>)
      else restore_loop pointer vs (str_replace (rv_token v) NEUTRALIZED_MARKER txt)
             (stats\<lparr>neutralized_count := neutralized_count stats + 1\<rparr>))"

definition restore_at :: "session \<Rightarrow> string \<Rightarrow> string option \<Rightarrow> string \<times> restore_stats" where
  "restore_at s content pointer =
     (if s_values s = [] \<or> \<not> contains PLACEHOLDER_PREFIX content then (content, no_stats)
      else restore_loop pointer (s_values s) content no_stats)"

subsection \<open>How a session grows\<close>

text \<open>
  \<open>grown p n s s'\<close>: \<open>s'\<close> is \<open>s\<close> with \<open>n\<close> more values, minted at pointer \<open>p\<close> under
  the next \<open>n\<close> indices.
\<close>

definition grown :: "string option \<Rightarrow> nat \<Rightarrow> session \<Rightarrow> session \<Rightarrow> bool" where
  "grown p n s s' \<longleftrightarrow> s_nonce s' = s_nonce s \<and>
     (\<exists>vs. s_values s' = s_values s @ vs \<and> length vs = n \<and>
       (\<forall>i < n. rv_pointer (vs ! i) = p \<and>
         (\<exists>category. rv_token (vs ! i) =
            mk_token (s_nonce s) (length (s_values s) + i) category)))"

text \<open>The invariant of a session: the token at index \<open>i\<close> carries the nonce and \<open>i\<close>.\<close>

definition session_wf :: "session \<Rightarrow> bool" where
  "session_wf s \<longleftrightarrow> (\<forall>i < length (s_values s). \<exists>category.
     rv_token (s_values s ! i) = mk_token (s_nonce s) i category)"

lemma grown_0: "grown p 0 s s' \<longleftrightarrow> s' = s"
  by (auto simp: grown_def)

lemma grown_count: "grown p n s s' \<Longrightarrow> redaction_count s' = redaction_count s + n"
  by (auto simp: grown_def redaction_count_def)

lemma grown_trans:
  assumes "grown p m s s'" and "grown p n s' s''"
  shows "grown p (m + n) s s''"
proof -
  from assms(1) obtain vs where vs: "s_nonce s' = s_nonce s" "s_values s' = s_values s @ vs"
    "length vs = m" "\<forall>i < m. rv_pointer (vs ! i) = p \<and> (\<exists>category. rv_token (vs ! i) =
       mk_token (s_nonce s) (length (s_values s) + i) category)"
    by (auto simp: grown_def)
  from assms(2) obtain ws where ws: "s_nonce s'' = s_nonce s'" "s_values s'' = s_values s' @ ws"
    "length ws = n" "\<forall>i < n. rv_pointer (ws ! i) = p \<and> (\<exists>category. rv_token (ws ! i) =
       mk_token (s_nonce s') (length (s_values s') + i) category)"
    by (auto simp: grown_def)
  have "rv_pointer ((vs @ ws) ! i) = p \<and> (\<exists>category. rv_token ((vs @ ws) ! i) =
       mk_token (s_nonce s) (length (s_values s) + i) category)" if "i < m + n" for i
  proof (cases "i < m")
    case True
    with vs show ?thesis by (simp add: nth_append)
  next
    case False
    with that have "i - m < n" by simp
    with ws(4) have "rv_pointer (ws ! (i - m)) = p \<and> (\<exists>category. rv_token (ws ! (i - m)) =
       mk_token (s_nonce s') (length (s_values s') + (i - m)) category)" by blast
    moreover have "length (s_values s') + (i - m) = length (s_values s) + i"
      using vs(2,3) False by simp
    ultimately show ?thesis using vs(1,3) False by (simp add: nth_append)
  qed
  with vs ws show ?thesis by (auto simp: grown_def)
qed

lemma grown_store: "grown p 1 s (snd (store p category secret s))"
  by (auto simp: grown_def store_def Let_def)

lemma grown_storeD: "store p category secret s = (token, s') \<Longrightarrow> grown p (Suc 0) s s'"
  using grown_store [of p s category secret] by simp

lemma grown_wf: "session_wf s \<Longrightarrow> grown p n s s' \<Longrightarrow> session_wf s'"
proof -
  assume wf: "session_wf s" and "grown p n s s'"
  then obtain vs where vs: "s_nonce s' = s_nonce s" "s_values s' = s_values s @ vs"
    "length vs = n" "\<forall>i < n. \<exists>category. rv_token (vs ! i) =
       mk_token (s_nonce s) (length (s_values s) + i) category"
    by (auto simp: grown_def)
  have "\<exists>category. rv_token (s_values s' ! i) = mk_token (s_nonce s') i category"
    if "i < length (s_values s')" for i
  proof (cases "i < length (s_values s)")
    case True
    with wf vs show ?thesis by (simp add: session_wf_def nth_append)
  next
    case False
    with that vs have "i - length (s_values s) < n" by simp
    with vs(4) False vs(1,2) show ?thesis by (metis nth_append le_add_diff_inverse linorder_not_le)
  qed
  then show ?thesis by (simp add: session_wf_def)
qed

subsection \<open>Redaction passes\<close>

text \<open>
  A pass fires on the texts its detector finds something in; then it stores at least one
  value, and otherwise it changes neither the text nor the session.
\<close>

definition pass_ok ::
  "string option \<Rightarrow> (string \<Rightarrow> bool) \<Rightarrow> (string \<Rightarrow> session \<Rightarrow> string \<times> session) \<Rightarrow> bool" where
  "pass_ok p fires run \<longleftrightarrow> (\<forall>txt s. (\<exists>n. grown p n s (snd (run txt s)) \<and> (0 < n \<longleftrightarrow> fires txt)) \<and>
     (\<not> fires txt \<longrightarrow> run txt s = (txt, s)))"

lemma pass_okD:
  "pass_ok p fires run \<Longrightarrow>
   (\<exists>n. grown p n s (snd (run t s)) \<and> (0 < n \<longleftrightarrow> fires t)) \<and> (\<not> fires t \<longrightarrow> run t s = (t, s))"
  by (simp add: pass_ok_def)

lemma pass_ok_comp:
  assumes "pass_ok p f1 run1" and "pass_ok p f2 run2"
  shows "pass_ok p (\<lambda>t. f1 t \<or> f2 t) (\<lambda>t s. run2 (fst (run1 t s)) (snd (run1 t s)))"
  unfolding pass_ok_def
proof (intro allI conjI)
  fix t s
  obtain m where m: "grown p m s (snd (run1 t s))" "0 < m \<longleftrightarrow> f1 t"
    and q: "\<not> f1 t \<Longrightarrow> run1 t s = (t, s)"
    using assms(1) by (auto simp: pass_ok_def)
  obtain n where n: "grown p n (snd (run1 t s)) (snd (run2 (fst (run1 t s)) (snd (run1 t s))))"
    "0 < n \<longleftrightarrow> f2 (fst (run1 t s))"
    using assms(2) unfolding pass_ok_def by blast
  have "0 < m + n \<longleftrightarrow> f1 t \<or> f2 t"
    using m(2) n(2) q by (cases "f1 t") auto
  with grown_trans [OF m(1) n(1)]
  show "\<exists>k. grown p k s (snd (run2 (fst (run1 t s)) (snd (run1 t s)))) \<and>
      (0 < k \<longleftrightarrow> f1 t \<or> f2 t)" by blast
  show "\<not> (f1 t \<or> f2 t) \<longrightarrow> run2 (fst (run1 t s)) (snd (run1 t s)) = (t, s)"
    using assms(2) q by (auto simp: pass_ok_def)
qed

lemma pass_ok_skip: "pass_ok p (\<lambda>t. False) Pair"
  by (auto simp: pass_ok_def grown_0 intro!: exI [of _ 0])

lemma pass_ok_when:
  "pass_ok p f run \<Longrightarrow> pass_ok p (\<lambda>t. on \<and> f t) (\<lambda>t s. when_on on run (t, s))"
  using pass_ok_skip [of p] by (cases on) (simp_all add: when_on_def pass_ok_def)

lemma replace_spans_pass:
  assumes "caps_ok (length hay) pos cs"
    and "\<And>c st. c \<in> set cs \<Longrightarrow> fires c \<Longrightarrow> grown p 1 st (snd (f c st))"
    and "\<And>c st. c \<in> set cs \<Longrightarrow> \<not> fires c \<Longrightarrow> f c st = (whole_match hay c, st)"
  shows "\<exists>n. grown p n s (snd (replace_spans hay pos cs f s)) \<and> (0 < n \<longleftrightarrow> list_ex fires cs)"
  using assms
proof (induction cs arbitrary: pos s)
  case Nil
  then show ?case by (auto simp: grown_0)
next
  case (Cons c cs)
  from Cons.prems(1) obtain b e where c: "cap_get c 0 = Some (b, e)"
    and ok: "caps_ok (length hay) e cs"
    by (rule caps_ok_ConsE)
  let ?s = "snd (f c s)"
  have "\<exists>n. grown p n ?s (snd (replace_spans hay e cs f ?s)) \<and> (0 < n \<longleftrightarrow> list_ex fires cs)"
    by (rule Cons.IH [OF ok]) (use Cons.prems(2,3) in auto)
  then obtain n where n: "grown p n ?s (snd (replace_spans hay e cs f ?s))"
    "0 < n \<longleftrightarrow> list_ex fires cs" by blast
  have res: "snd (replace_spans hay pos (c # cs) f s) = snd (replace_spans hay e cs f ?s)"
    by (simp add: c split: prod.splits)
  show ?case
  proof (cases "fires c")
    case True
    from Cons.prems(2) [of c s] True have one: "grown p 1 s ?s" by simp
    have "grown p (1 + n) s (snd (replace_spans hay pos (c # cs) f s))"
      unfolding res by (rule grown_trans [OF one n(1)])
    with True show ?thesis by (intro exI [of _ "1 + n"]) simp
  next
    case False
    with Cons.prems(3) [of c s] have "?s = s" by simp
    with n res False show ?thesis by auto
  qed
qed

lemma replace_all_pass:
  assumes "regex_ok re"
    and "\<And>hay c st. cap_get c 0 \<noteq> None \<Longrightarrow> fires hay c \<Longrightarrow> grown p 1 st (snd (f hay c st))"
    and "\<And>hay c st. cap_get c 0 \<noteq> None \<Longrightarrow> \<not> fires hay c \<Longrightarrow> f hay c st = (whole_match hay c, st)"
  shows "pass_ok p (\<lambda>t. list_ex (fires t) (captures_iter re t))
    (\<lambda>t s. replace_all_with re t (f t) s)"
proof -
  have caps: "caps_ok (length t) 0 (captures_iter re t)" for t
    using assms(1) by (simp add: regex_ok_def)
  have "cap_get c 0 \<noteq> None" if "caps_ok n pos cs" "c \<in> set cs" for n pos cs c
    using that by (induction cs arbitrary: pos) (auto split: option.splits)
  with caps have zero: "cap_get c 0 \<noteq> None" if "c \<in> set (captures_iter re t)" for c t
    using that by blast
  show ?thesis
    unfolding pass_ok_def replace_all_with_def
  proof (intro allI conjI impI)
    fix t s
    show "\<exists>n. grown p n s (snd (replace_spans t 0 (captures_iter re t) (f t) s)) \<and>
        (0 < n \<longleftrightarrow> list_ex (fires t) (captures_iter re t))"
      by (rule replace_spans_pass [OF caps]) (use assms(2,3) zero in auto)
    assume "\<not> list_ex (fires t) (captures_iter re t)"
    then show "replace_spans t 0 (captures_iter re t) (f t) s = (t, s)"
      using replace_spans_id [OF caps, of t "f t" s] assms(3) zero
      by (simp add: list_ex_iff)
  qed
qed

lemma redact_matches_pass:
  assumes "regex_ok re"
  shows "pass_ok p (is_match re) (redact_matches re category p)"
proof -
  have "pass_ok p (\<lambda>t. list_ex (\<lambda>c. True) (captures_iter re t))
      (\<lambda>t s. replace_all_with re t (\<lambda>c. store p category (whole_match t c)) s)"
    by (rule replace_all_pass [OF assms]) (simp_all add: grown_store [simplified])
  moreover have "(\<lambda>t. list_ex (\<lambda>c. True) (captures_iter re t)) = is_match re"
    by (simp add: is_match_def list_ex_iff fun_eq_iff) (metis list.set_intros(1) neq_Nil_conv empty_iff list.set(1))
  moreover have "(\<lambda>t s. replace_all_with re t (\<lambda>c. store p category (whole_match t c)) s)
      = redact_matches re category p"
    by (simp add: redact_matches_def fun_eq_iff)
  ultimately show ?thesis by simp
qed

lemma redact_cards_pass:
  assumes "regex_ok (cc_re X)"
  shows "pass_ok p (contains_valid_card X) (redact_cards X p)"
proof -
  have "pass_ok p (\<lambda>t. list_ex (\<lambda>c. luhn_valid (whole_match t c)) (captures_iter (cc_re X) t))
      (\<lambda>t s. replace_all_with (cc_re X) t
        (\<lambda>c st. if luhn_valid (whole_match t c) then store p ''CC'' (whole_match t c) st
               else (whole_match t c, st)) s)"
    by (rule replace_all_pass [OF assms]) (simp_all add: grown_store [simplified])
  then show ?thesis
    by (simp add: redact_cards_def [abs_def] contains_valid_card_def [abs_def])
qed

text \<open>The matches of a rule that pass its entropy gate.\<close>

definition gated :: "compiled_rule \<Rightarrow> string \<Rightarrow> caps \<Rightarrow> bool" where
  "gated rule t c \<longleftrightarrow> (case cap_get c (group_index rule) of
     Some (b, e) \<Rightarrow> entropy_ok rule (slice t b e) | None \<Rightarrow> False)"

lemma rule_pass_pass:
  assumes "regex_ok (rule_regex rule)"
  shows "pass_ok p (\<lambda>t. list_ex (gated rule t) (captures_iter (rule_regex rule) t))
    (rule_pass p rule)"
proof -
  have "pass_ok p (\<lambda>t. list_ex (gated rule t) (captures_iter (rule_regex rule) t))
      (\<lambda>t s. replace_all_with (rule_regex rule) t
         (secret_replacement rule t (store p (rule_id rule))) s)"
    by (rule replace_all_pass [OF assms])
      (auto simp: gated_def secret_replacement_def Let_def grown_store [simplified]
        split: option.splits prod.splits dest: grown_storeD)
  then show ?thesis by (simp add: rule_pass_def [abs_def])
qed

lemma session_rules_pass:
  assumes "list_all (\<lambda>r. regex_ok (rule_regex r)) rules"
  shows "pass_ok p (\<lambda>t. list_ex (\<lambda>r. keyword_prefilter_ok X r content \<and>
      list_ex (gated r t) (captures_iter (rule_regex r) t)) rules) (session_rules X p content rules)"
  using assms
proof (induction rules)
  case Nil
  have "session_rules X p content [] = Pair" by (simp add: fun_eq_iff)
  with pass_ok_skip [of p] show ?case by simp
next
  case (Cons r rules)
  let ?run = "\<lambda>t s. when_on (keyword_prefilter_ok X r content) (rule_pass p r) (t, s)"
  have "pass_ok p (\<lambda>t. keyword_prefilter_ok X r content \<and>
      list_ex (gated r t) (captures_iter (rule_regex r) t)) ?run"
    by (rule pass_ok_when [OF rule_pass_pass]) (use Cons.prems in simp)
  moreover have "session_rules X p content (r # rules) =
      (\<lambda>t s. session_rules X p content rules (fst (?run t s)) (snd (?run t s)))"
    by (auto simp: fun_eq_iff when_on_def split: prod.splits)
  moreover have "pass_ok p (\<lambda>t. list_ex (\<lambda>r. keyword_prefilter_ok X r content \<and>
      list_ex (gated r t) (captures_iter (rule_regex r) t)) rules) (session_rules X p content rules)"
    by (rule Cons.IH) (use Cons.prems in simp)
  ultimately show ?case
    using pass_ok_comp by fastforce
qed

lemma rule_triggers_gated:
  "rule_triggers X r content \<longleftrightarrow> keyword_prefilter_ok X r content \<and>
     list_ex (gated r content) (captures_iter (rule_regex r) content)"
  by (simp add: rule_triggers_def gated_def [abs_def])

text \<open>The regexes an engine uses behave as the crate documents.\<close>

definition engine_ok :: "dlp_ext \<Rightarrow> dlp_engine \<Rightarrow> bool" where
  "engine_ok X engine \<longleftrightarrow> list_all (\<lambda>r. regex_ok (rule_regex r)) (eng_rules engine) \<and>
     regex_ok (ssn_re X) \<and> regex_ok (email_re X) \<and> regex_ok (cc_re X) \<and>
     regex_ok (phone_re X) \<and> regex_ok (ipv4_re X)"

lemma redact_session_pass:
  assumes "engine_ok X engine"
  shows "\<exists>n. grown p n s (snd (redact_session X engine s content p)) \<and>
      (0 < n \<longleftrightarrow> check_violations X engine content \<noteq> None)"
    and "check_violations X engine content = None \<Longrightarrow>
      redact_session X engine s content p = (content, s)"
proof -
  let ?cfg = "eng_config engine"
  have ok: "regex_ok (ssn_re X)" "regex_ok (email_re X)" "regex_ok (cc_re X)"
    "regex_ok (phone_re X)" "regex_ok (ipv4_re X)"
    and rules: "list_all (\<lambda>r. regex_ok (rule_regex r)) (eng_rules engine)"
    using assms by (simp_all add: engine_ok_def)
  note stages = pass_ok_when [OF session_rules_pass [OF rules], of p "secret_redaction ?cfg" X content]
    pass_ok_when [OF redact_matches_pass [OF ok(1)], of p "ssn_enabled ?cfg" "''SSN''"]
    pass_ok_when [OF redact_matches_pass [OF ok(2)], of p "email_enabled ?cfg" "''EMAIL''"]
    pass_ok_when [OF redact_cards_pass [OF ok(3)], of p "cc_enabled ?cfg"]
    pass_ok_when [OF redact_matches_pass [OF ok(4)], of p "phone_enabled ?cfg" "''PHONE''"]
    pass_ok_when [OF redact_matches_pass [OF ok(5)], of p "ip_enabled ?cfg" "''IP''"]
  note all = pass_ok_comp [OF pass_ok_comp [OF pass_ok_comp [OF pass_ok_comp [OF pass_ok_comp
    [OF stages(1,2)] stages(3)] stages(4)] stages(5)] stages(6)]
  note at = pass_okD [OF all, where t = content and s = s, unfolded prod.collapse]
  have run: "redact_session X engine s content p =
     when_on (ip_enabled ?cfg) (redact_matches (ipv4_re X) ''IP'' p)
      (when_on (phone_enabled ?cfg) (redact_matches (phone_re X) ''PHONE'' p)
       (when_on (cc_enabled ?cfg) (redact_cards X p)
        (when_on (email_enabled ?cfg) (redact_matches (email_re X) ''EMAIL'' p)
         (when_on (ssn_enabled ?cfg) (redact_matches (ssn_re X) ''SSN'' p)
          (when_on (secret_redaction ?cfg) (session_rules X p content (eng_rules engine))
            (content, s))))))"
    by (simp add: redact_session_def Let_def)
  have fires: "(check_violations X engine content \<noteq> None) =
    ((((((secret_redaction ?cfg \<and> list_ex (\<lambda>r. keyword_prefilter_ok X r content \<and>
      list_ex (gated r content) (captures_iter (rule_regex r) content)) (eng_rules engine)) \<or>
      ssn_enabled ?cfg \<and> is_match (ssn_re X) content) \<or>
      email_enabled ?cfg \<and> is_match (email_re X) content) \<or>
      cc_enabled ?cfg \<and> contains_valid_card X content) \<or>
      phone_enabled ?cfg \<and> is_match (phone_re X) content) \<or>
      ip_enabled ?cfg \<and> is_match (ipv4_re X) content)"
    unfolding check_violations_None_parts rule_triggers_gated enabled_defs by blast
  from at show "\<exists>n. grown p n s (snd (redact_session X engine s content p)) \<and>
      (0 < n \<longleftrightarrow> check_violations X engine content \<noteq> None)"
    unfolding run fires by (rule conjunct1)
  from at show "check_violations X engine content = None \<Longrightarrow>
      redact_session X engine s content p = (content, s)"
    unfolding run using fires by blast
qed

text \<open>
  C23 Redact mode and block mode agree: a text is redacted, that is a value is stored in the
  session, exactly when detection reports a violation, and a text without a violation and
  its session are left as they are.
\<close>

theorem redact_iff_violation:
  assumes "engine_ok X engine"
  shows "(redaction_count (snd (redact_at X s content engine pointer)) = redaction_count s \<longleftrightarrow>
      check_violations X engine content = None) \<and>
    (check_violations X engine content = None \<longrightarrow>
      redact_at X s content engine pointer = (content, s))"
proof -
  obtain n where n: "grown pointer n s (snd (redact_session X engine s content pointer))"
    "0 < n \<longleftrightarrow> check_violations X engine content \<noteq> None"
    using redact_session_pass(1) [OF assms] by blast
  from grown_count [OF n(1)] n(2)
  have "redaction_count (snd (redact_session X engine s content pointer)) = redaction_count s \<longleftrightarrow>
      check_violations X engine content = None"
    by (cases "check_violations X engine content") simp_all
  with redact_session_pass(2) [OF assms] show ?thesis unfolding redact_at_def by blast
qed

text \<open>A sample run: one rule looks for \<open>AKIA\<close>, the built-in patterns for \<open>zz\<close>.\<close>

abbreviation sample_ext :: dlp_ext where
  "sample_ext \<equiv> needle_ext (\<lambda>p. ''zz'')"

abbreviation sample_engine :: dlp_engine where
  "sample_engine \<equiv> needle_engine ''AKIA'' None"

lemma sample_engine_ok: "engine_ok sample_ext sample_engine"
  by (simp add: engine_ok_def needle_engine_def needle_ext_def ssn_re_def email_re_def
      cc_re_def phone_re_def ipv4_re_def)

lemma redact_matches_absent:
  "captures_iter re t = [] \<Longrightarrow> redact_matches re c p t s = (t, s)"
  by (simp add: redact_matches_def replace_all_with_def)

lemma sample_redaction:
  "redact_at sample_ext (new_session ''n'') ''key AKIA'' sample_engine (Some ''/input'') =
    (''key [[GUARDIAN_REDACTED:n:0:key]]'',
     \<lparr>s_nonce = ''n'', s_values = [\<lparr>rv_token = ''[[GUARDIAN_REDACTED:n:0:key]]'',
       rv_secret = ''AKIA'', rv_pointer = Some ''/input''\<rparr>]\<rparr>)" (is "_ = (?t, ?s)")
proof -
  have m: "needle_matches ''AKIA'' 0 ''key AKIA'' = [[Some (4, 8)]]" by simp
  have rules: "session_rules sample_ext (Some ''/input'') ''key AKIA'' (eng_rules sample_engine)
      ''key AKIA'' (new_session ''n'') = (?t, ?s)"
    by (simp add: needle_engine_def keyword_prefilter_ok_def rule_pass_def replace_all_with_def
        m cap_get_def secret_replacement_def group_index_def entropy_ok_def slice_def store_def
        new_session_def mk_token_def PLACEHOLDER_PREFIX_def nat_dec.simps [of 0] Let_def)
  have zz: "captures_iter (needle ''zz'') ?t = []"
    by (simp add: needle_matches_absent)
  then have cards: "redact_cards sample_ext p ?t s = (?t, s)" for p s
    by (simp add: redact_cards_def replace_all_with_def cc_re_def needle_ext_def)
  have off: "redact_matches (needle ''zz'') c p ?t s = (?t, s)" for c p s
    by (rule redact_matches_absent [OF zz])
  have "ssn_re sample_ext = needle ''zz''" "email_re sample_ext = needle ''zz''"
    "phone_re sample_ext = needle ''zz''" "ipv4_re sample_ext = needle ''zz''"
    by (simp_all add: ssn_re_def email_re_def phone_re_def ipv4_re_def needle_ext_def)
  moreover have "secret_redaction (eng_config sample_engine)"
    by (simp add: needle_engine_def default_dlp_config_def)
  ultimately show ?thesis
    unfolding redact_at_def redact_session_def Let_def when_on_def
    by (simp only: rules cards off fst_conv snd_conv if_True if_cancel)
qed

lemma redact_iff_violation_witness:
  "check_violations sample_ext sample_engine ''key AKIA'' \<noteq> None \<and>
   redaction_count (snd (redact_at sample_ext (new_session ''n'') ''key AKIA'' sample_engine
     (Some ''/input''))) = 1"
proof -
  have "redaction_count (snd (redact_at sample_ext (new_session ''n'') ''key AKIA'' sample_engine
     (Some ''/input''))) = 1"
    by (simp add: sample_redaction redaction_count_def)
  with redact_iff_violation [OF sample_engine_ok, of "new_session ''n''" "''key AKIA''"
      "Some ''/input''"]
  show ?thesis by (auto simp: redaction_count_def new_session_def)
qed

subsection \<open>Tokens\<close>

lemma nat_dec_no_colon: "CHR '':'' \<notin> set (nat_dec n)"
  using nat_dec_digits [of "CHR '':''" n] by (auto simp: is_ascii_digit_def)

lemma append_colon_eq:
  "CHR '':'' \<notin> set u \<Longrightarrow> CHR '':'' \<notin> set v \<Longrightarrow> u @ CHR '':'' # x = v @ CHR '':'' # y \<Longrightarrow> u = v"
  by (induction u arbitrary: v) (auto simp: Cons_eq_append_conv append_eq_Cons_conv)

text \<open>Tokens of different indices are never prefixes of one another.\<close>

lemma mk_token_starts:
  "starts_with (mk_token nonce i c) (mk_token nonce j c' @ t) \<Longrightarrow> i = j"
proof -
  assume "starts_with (mk_token nonce i c) (mk_token nonce j c' @ t)"
  then obtain r where "mk_token nonce j c' @ t = mk_token nonce i c @ r"
    by (auto simp: starts_with_iff)
  then have "nat_dec j @ CHR '':'' # c' @ '']]'' @ t = nat_dec i @ CHR '':'' # c @ '']]'' @ r"
    by (simp add: mk_token_def)
  then have "nat_dec j = nat_dec i"
    by (rule append_colon_eq [OF nat_dec_no_colon nat_dec_no_colon])
  then show "i = j" using nat_dec_inj by simp
qed

text \<open>
  C24 Every operation on a session keeps its invariant and its old values, and tokens are
  never reused: after any redaction the tokens of the session are pairwise different.
\<close>

theorem redact_keeps_tokens_distinct:
  assumes "engine_ok X engine" and "session_wf s"
    and "redact_at X s content engine pointer = (out, s')"
  shows "session_wf s' \<and> distinct (map rv_token (s_values s')) \<and>
    prefix (s_values s) (s_values s') \<and> s_nonce s' = s_nonce s"
proof -
  obtain n where n: "grown pointer n s s'"
    using redact_session_pass(1) [OF assms(1), of pointer s content] assms(3)
    by (auto simp: redact_at_def)
  have wf: "session_wf s'" by (rule grown_wf [OF assms(2) n])
  have "distinct (map rv_token (s_values s'))"
    unfolding distinct_conv_nth
  proof (intro allI impI)
    fix i j assume "i < length (map rv_token (s_values s'))" "j < length (map rv_token (s_values s'))"
      and "i \<noteq> j"
    then show "map rv_token (s_values s') ! i \<noteq> map rv_token (s_values s') ! j"
      using wf mk_token_starts [of "s_nonce s'" i _ j _ "[]"]
      by (auto simp: session_wf_def) (metis append_Nil2 starts_with_append)
  qed
  with wf n show ?thesis by (auto simp: grown_def prefix_def)
qed

subsection \<open>Restoration is simultaneous substitution\<close>

text \<open>
  A response text is read as pieces: literal text and tokens of the session, by index.
\<close>

datatype piece = Lit string | Tok nat

fun render_piece :: "session \<Rightarrow> piece \<Rightarrow> string" where
  "render_piece s (Lit t) = t"
| "render_piece s (Tok i) = rv_token (s_values s ! i)"

definition render :: "session \<Rightarrow> piece list \<Rightarrow> string" where
  "render s ps = concat (map (render_piece s) ps)"

fun subst_piece :: "(nat \<Rightarrow> string) \<Rightarrow> piece \<Rightarrow> string" where
  "subst_piece f (Lit t) = t"
| "subst_piece f (Tok i) = f i"

definition subst :: "(nat \<Rightarrow> string) \<Rightarrow> piece list \<Rightarrow> string" where
  "subst f ps = concat (map (subst_piece f) ps)"

lemma render_simps [simp]:
  "render s [] = []" "render s (p # ps) = render_piece s p @ render s ps"
  by (simp_all add: render_def)

lemma subst_simps [simp]:
  "subst f [] = []" "subst f (p # ps) = subst_piece f p @ subst f ps"
  by (simp_all add: subst_def)

text \<open>The tokens of a session whose nonce and categories hold no opening bracket.\<close>

definition tokens_ok :: "session \<Rightarrow> bool" where
  "tokens_ok s \<longleftrightarrow> CHR ''['' \<notin> set (s_nonce s) \<and>
     (\<forall>i < length (s_values s). \<exists>c. CHR ''['' \<notin> set c \<and>
        rv_token (s_values s ! i) = mk_token (s_nonce s) i c)"

text \<open>The prefix of a token occurs neither inside a token nor across its left end.\<close>

lemma prefix_not_in_token:
  assumes "CHR ''['' \<notin> set nonce" and "CHR ''['' \<notin> set c" and "0 < k"
    and "k < length (mk_token nonce i c)"
  shows "\<not> starts_with PLACEHOLDER_PREFIX (drop k (mk_token nonce i c @ t))"
proof -
  have "CHR ''['' \<notin> set (nat_dec i)"
    using nat_dec_digits [of "CHR ''[''" i] by (auto simp: is_ascii_digit_def)
  with assms(1,2) obtain body where tok: "mk_token nonce i c = CHR ''['' # CHR ''['' # CHR ''G'' # body"
    and body: "CHR ''['' \<notin> set body"
    by (auto simp: mk_token_def PLACEHOLDER_PREFIX_def)
  consider "k = 1" | "2 \<le> k" using assms(3) by linarith
  then show ?thesis
  proof cases
    case 1
    then show ?thesis by (simp add: tok PLACEHOLDER_PREFIX_def)
  next
    case 2
    with assms(4) have "drop k (mk_token nonce i c) = (mk_token nonce i c ! k) # drop (Suc k) (mk_token nonce i c)"
      by (metis Cons_nth_drop_Suc)
    moreover have "mk_token nonce i c ! k \<in> set (CHR ''G'' # body)"
      using 2 assms(4) unfolding tok by (auto simp: nth_Cons' dest: less_imp_diff_less)
    ultimately show ?thesis
      using body assms(4) by (auto simp: PLACEHOLDER_PREFIX_def)
  qed
qed

lemma token_prefix: "mk_token nonce i c = PLACEHOLDER_PREFIX @ drop (length PLACEHOLDER_PREFIX) (mk_token nonce i c)"
  by (simp add: mk_token_def)

text \<open>A literal run followed by pieces does not start a token, if the result does not.\<close>

lemma no_prefix_in_run:
  assumes "tokens_ok s" and "\<forall>i. Tok i \<in> set ps \<longrightarrow> i < length (s_values s)"
    and "\<not> contains PLACEHOLDER_PREFIX (u @ subst f ps)" and "k < length u"
  shows "\<not> starts_with PLACEHOLDER_PREFIX (drop k (u @ render s ps))"
  using assms(2-4)
proof (induction ps arbitrary: u)
  case Nil
  then show ?case using contains_drop starts_with_contains by fastforce
next
  case (Cons p ps)
  show ?case
  proof (cases p)
    case (Lit t)
    with Cons.IH [of "u @ t"] Cons.prems show ?thesis by simp
  next
    case (Tok i)
    with Cons.prems(1) assms(1) obtain c where
      "rv_token (s_values s ! i) = mk_token (s_nonce s) i c"
      by (auto simp: tokens_ok_def)
    then obtain body where tok: "rv_token (s_values s ! i) = CHR ''['' # CHR ''['' # body"
      by (auto simp: mk_token_def PLACEHOLDER_PREFIX_def)
    show ?thesis
    proof
      assume "starts_with PLACEHOLDER_PREFIX (drop k (u @ render s (p # ps)))"
      then obtain r where r: "drop k u @ CHR ''['' # CHR ''['' # body @ render s ps
          = PLACEHOLDER_PREFIX @ r"
        using Cons.prems(3) by (auto simp: starts_with_iff Tok tok)
      then consider us where "drop k u = PLACEHOLDER_PREFIX @ us"
        | us where "us \<noteq> []" "PLACEHOLDER_PREFIX = drop k u @ us"
            "us @ r = CHR ''['' # CHR ''['' # body @ render s ps"
        unfolding append_eq_append_conv2 by (metis append_Nil2)
      then show False
      proof cases
        case 1
        then have "starts_with PLACEHOLDER_PREFIX (drop k u)" by simp
        then have "contains PLACEHOLDER_PREFIX u" using contains_drop starts_with_contains by blast
        with Cons.prems(2) show False using contains_append by blast
      next
        case 2
        then obtain us' where us: "us = CHR ''['' # us'" by (cases us) auto
        from 2(2) us have pre: "PLACEHOLDER_PREFIX = drop k u @ CHR ''['' # us'" by simp
        from Cons.prems(3) have "drop k u \<noteq> []" by simp
        then obtain x w where w: "drop k u = x # w" by (cases "drop k u") auto
        from pre w have "w = []" and "us' = drop 2 PLACEHOLDER_PREFIX"
          by (auto simp: PLACEHOLDER_PREFIX_def Cons_eq_append_conv)
        with 2(3) us show False by (simp add: PLACEHOLDER_PREFIX_def)
      qed
    qed
  qed
qed

text \<open>Replacing one token by a text, in a rendered text.\<close>

definition fill :: "nat \<Rightarrow> string \<Rightarrow> piece \<Rightarrow> piece" where
  "fill i v p = (if p = Tok i then Lit v else p)"

lemma fill_simps [simp]:
  "fill i v (Lit t) = Lit t" "fill i v (Tok j) = (if j = i then Lit v else Tok j)"
  by (simp_all add: fill_def)

lemma str_replace_render:
  assumes "tokens_ok s" and "\<forall>j. Tok j \<in> set ps \<longrightarrow> j < length (s_values s)"
    and "\<not> contains PLACEHOLDER_PREFIX (subst f ps)" and "i < length (s_values s)"
  shows "str_replace (rv_token (s_values s ! i)) v (render s ps) = render s (map (fill i v) ps)"
  using assms(2,3)
proof (induction ps)
  case (Cons p ps)
  let ?tok = "rv_token (s_values s ! i)"
  from assms(1,4) obtain c where c: "?tok = mk_token (s_nonce s) i c"
    by (auto simp: tokens_ok_def)
  then have pre: "starts_with ?tok t \<Longrightarrow> starts_with PLACEHOLDER_PREFIX t" for t
    by (auto simp: starts_with_iff mk_token_def)
  have IH: "str_replace ?tok v (render s ps) = render s (map (fill i v) ps)"
    using Cons.IH Cons.prems contains_append [of PLACEHOLDER_PREFIX "subst_piece f p" "subst f ps"]
    by auto
  show ?case
  proof (cases p)
    case (Lit t)
    have "str_replace ?tok v (t @ render s ps) = t @ str_replace ?tok v (render s ps)"
    proof (rule str_replace_skip)
      fix k assume "k < length t"
      then have "\<not> starts_with PLACEHOLDER_PREFIX (drop k (t @ render s ps))"
        using no_prefix_in_run [OF assms(1), of ps t f k] Cons.prems Lit by simp
      then show "\<not> starts_with ?tok (drop k (t @ render s ps))" using pre by blast
    qed
    with IH Lit show ?thesis by simp
  next
    case (Tok j)
    show ?thesis
    proof (cases "j = i")
      case True
      have "?tok \<noteq> []" by (simp add: c mk_token_def PLACEHOLDER_PREFIX_def)
      with IH Tok True show ?thesis by simp
    next
      case False
      from Tok Cons.prems(1) assms(1) obtain d where
        d: "rv_token (s_values s ! j) = mk_token (s_nonce s) j d" "CHR ''['' \<notin> set d"
        by (auto simp: tokens_ok_def)
      have "str_replace ?tok v (rv_token (s_values s ! j) @ render s ps)
          = rv_token (s_values s ! j) @ str_replace ?tok v (render s ps)"
      proof (rule str_replace_skip)
        fix k assume k: "k < length (rv_token (s_values s ! j))"
        show "\<not> starts_with ?tok (drop k (rv_token (s_values s ! j) @ render s ps))"
        proof (cases "k = 0")
          case True
          then show ?thesis
            using mk_token_starts [of "s_nonce s" i c j d] False by (auto simp: c d(1))
        next
          case nz: False
          have "CHR ''['' \<notin> set (s_nonce s)" using assms(1) by (simp add: tokens_ok_def)
          from prefix_not_in_token [OF this d(2), of k j "render s ps"] nz k pre
          show ?thesis by (auto simp: d(1))
        qed
      qed
      with IH Tok False show ?thesis by simp
    qed
  qed
qed simp

lemma str_replace_shorter:
  "contains p t \<Longrightarrow> p \<noteq> [] \<Longrightarrow> length (str_replace p [] t) < length t"
proof (induction p "[] :: 'a list" t rule: str_replace.induct)
  case (2 p x xs)
  have le: "length (str_replace p [] t) \<le> length t" for t
    by (induction p "[] :: 'a list" t rule: str_replace.induct) auto
  show ?case
  proof (cases "starts_with p (x # xs)")
    case True
    from 2(4) have "0 < length p" by simp
    have "length (str_replace p [] (drop (length p) (x # xs))) \<le> length (drop (length p) (x # xs))"
      by (rule le)
    also have "\<dots> < length (x # xs)" using \<open>0 < length p\<close> by simp
    finally show ?thesis using True 2(4) by simp
  next
    case False
    with 2 show ?thesis by auto
  qed
qed simp

lemma contains_render:
  assumes "tokens_ok s" and "\<forall>j. Tok j \<in> set ps \<longrightarrow> j < length (s_values s)"
    and "\<not> contains PLACEHOLDER_PREFIX (subst f ps)" and "i < length (s_values s)"
  shows "contains (rv_token (s_values s ! i)) (render s ps) \<longleftrightarrow> Tok i \<in> set ps"
proof
  assume con: "contains (rv_token (s_values s ! i)) (render s ps)"
  have ne: "rv_token (s_values s ! i) \<noteq> []"
    using assms(1,4) by (auto simp: tokens_ok_def mk_token_def PLACEHOLDER_PREFIX_def)
  show "Tok i \<in> set ps"
  proof (rule ccontr)
    assume "Tok i \<notin> set ps"
    then have "map (fill i []) ps = ps" by (auto simp: fill_def intro: map_idI)
    with str_replace_render [OF assms, of "[]"] str_replace_shorter [OF con ne]
    show False by simp
  qed
next
  assume "Tok i \<in> set ps"
  then obtain qs rs where "ps = qs @ Tok i # rs" by (auto simp: in_set_conv_decomp)
  then have "render s ps = render s qs @ rv_token (s_values s ! i) @ render s rs"
    by (simp add: render_def)
  then show "contains (rv_token (s_values s ! i)) (render s ps)"
    by (auto simp: contains_iff)
qed

lemma restore_at_loop: "restore_at s content pointer = restore_loop pointer (s_values s) content no_stats"
  if "tokens_ok s"
proof (cases "contains PLACEHOLDER_PREFIX content")
  case True
  then show ?thesis by (simp add: restore_at_def)
next
  case False
  have "restore_loop pointer vs content st = (content, st)"
    if "\<forall>v \<in> set vs. contains PLACEHOLDER_PREFIX (rv_token v)" for vs st
    using that
  proof (induction vs)
    case (Cons v vs)
    then have "\<not> contains (rv_token v) content" using False contains_trans by auto
    with Cons show ?case by simp
  qed simp
  moreover have "\<forall>v \<in> set (s_values s). contains PLACEHOLDER_PREFIX (rv_token v)"
  proof
    fix v assume "v \<in> set (s_values s)"
    then obtain i where "i < length (s_values s)" and v: "v = s_values s ! i"
      by (auto simp: in_set_conv_nth)
    with that obtain c where "rv_token v = mk_token (s_nonce s) i c"
      by (auto simp: tokens_ok_def)
    then show "contains PLACEHOLDER_PREFIX (rv_token v)"
      by (simp add: mk_token_def starts_with_contains)
  qed
  ultimately show ?thesis using False by (simp add: restore_at_def)
qed

text \<open>What a token stands for in a response at \<open>pointer\<close>.\<close>

definition restoration :: "session \<Rightarrow> string option \<Rightarrow> nat \<Rightarrow> string" where
  "restoration s pointer i =
     (if eligible pointer (s_values s ! i) then rv_secret (s_values s ! i) else NEUTRALIZED_MARKER)"

definition fill_below :: "(nat \<Rightarrow> string) \<Rightarrow> nat \<Rightarrow> piece \<Rightarrow> piece" where
  "fill_below f k p = (case p of Lit t \<Rightarrow> Lit t | Tok i \<Rightarrow> if i < k then Lit (f i) else Tok i)"

lemma fill_below_simps [simp]:
  "fill_below f k (Lit t) = Lit t"
  "fill_below f k (Tok i) = (if i < k then Lit (f i) else Tok i)"
  by (simp_all add: fill_below_def)

lemma fill_below_0 [simp]: "fill_below f 0 = (\<lambda>p. p)"
  by (auto simp: fun_eq_iff fill_below_def split: piece.splits)

lemma fill_below_Suc: "fill k (f k) (fill_below f k p) = fill_below f (Suc k) p"
  by (cases p) (auto simp: less_Suc_eq)

lemma subst_fill_below: "subst f (map (fill_below f k) ps) = subst f ps"
proof -
  have "subst_piece f (fill_below f k p) = subst_piece f p" for p by (cases p) auto
  then show ?thesis by (simp add: subst_def comp_def)
qed

lemma render_fill_below:
  "\<forall>i. Tok i \<in> set ps \<longrightarrow> i < k \<Longrightarrow> render s (map (fill_below f k) ps) = subst f ps"
proof (induction ps)
  case (Cons p ps)
  then show ?case by (cases p) auto
qed simp

lemma Tok_fill_below: "Tok i \<in> set (map (fill_below f k) ps) \<longleftrightarrow> Tok i \<in> set ps \<and> k \<le> i"
proof -
  have "fill_below f k p = Tok i \<longleftrightarrow> p = Tok i \<and> k \<le> i" for p by (cases p) auto
  then show ?thesis by (auto simp: image_iff eq_commute)
qed

text \<open>The indices of the tokens in the text whose restoration is (not) eligible.\<close>

definition hits :: "session \<Rightarrow> piece list \<Rightarrow> (redacted_value \<Rightarrow> bool) \<Rightarrow> nat \<Rightarrow> nat" where
  "hits s ps P k = length (filter (\<lambda>i. Tok i \<in> set ps \<and> P (s_values s ! i)) [k..<length (s_values s)])"

lemma hits_step:
  "k < length (s_values s) \<Longrightarrow> hits s ps P k =
     (if Tok k \<in> set ps \<and> P (s_values s ! k) then 1 else 0) + hits s ps P (Suc k)"
  by (simp add: hits_def upt_conv_Cons)

lemma restore_loop_pieces:
  assumes ok: "tokens_ok s" and known: "\<forall>i. Tok i \<in> set ps \<longrightarrow> i < length (s_values s)"
    and clean: "\<not> contains PLACEHOLDER_PREFIX (subst (restoration s pointer) ps)"
    and "k \<le> length (s_values s)"
  shows "restore_loop pointer (drop k (s_values s))
      (render s (map (fill_below (restoration s pointer) k) ps)) st =
    (subst (restoration s pointer) ps,
     \<lparr>restored_count = restored_count st + hits s ps (eligible pointer) k,
      neutralized_count = neutralized_count st + hits s ps (\<lambda>v. \<not> eligible pointer v) k\<rparr>)"
  using assms(4)
proof (induction "length (s_values s) - k" arbitrary: k st)
  case 0
  then have "k = length (s_values s)" by simp
  with known show ?case by (simp add: hits_def render_fill_below)
next
  case (Suc n)
  let ?f = "restoration s pointer" and ?v = "s_values s ! k"
  let ?qs = "map (fill_below ?f k) ps"
  from Suc.hyps(2) have k: "k < length (s_values s)" by simp
  have known': "\<forall>i. Tok i \<in> set ?qs \<longrightarrow> i < length (s_values s)"
    using known by (simp add: Tok_fill_below del: set_map)
  have clean': "\<not> contains PLACEHOLDER_PREFIX (subst ?f ?qs)"
    using clean by (simp add: subst_fill_below)
  have present: "contains (rv_token ?v) (render s ?qs) \<longleftrightarrow> Tok k \<in> set ps"
    using contains_render [OF ok known' clean' k] by (simp add: Tok_fill_below del: set_map)
  have repl: "str_replace (rv_token ?v) (?f k) (render s ?qs) = render s (map (fill_below ?f (Suc k)) ps)"
    using str_replace_render [OF ok known' clean' k] by (simp add: fill_below_Suc comp_def)
  have absent: "Tok k \<notin> set ps \<Longrightarrow> render s ?qs = render s (map (fill_below ?f (Suc k)) ps)"
    using repl present str_replace_absent by metis
  have drop: "drop k (s_values s) = ?v # drop (Suc k) (s_values s)"
    using k by (simp add: Cons_nth_drop_Suc)
  have IH: "restore_loop pointer (drop (Suc k) (s_values s))
      (render s (map (fill_below ?f (Suc k)) ps)) st' =
    (subst ?f ps,
     \<lparr>restored_count = restored_count st' + hits s ps (eligible pointer) (Suc k),
      neutralized_count = neutralized_count st' + hits s ps (\<lambda>v. \<not> eligible pointer v) (Suc k)\<rparr>)"
    for st'
    using Suc.hyps(1) [of "Suc k"] Suc.hyps(2) k by simp
  show ?case
    unfolding drop
    using IH present absent repl k
    by (simp add: hits_step restoration_def split: if_splits)
qed

text \<open>
  C22 Restoration is one simultaneous, path-scoped substitution: in a response made of
  literal text and tokens of the session, every token whose minted pointer is a tail of the
  response pointer becomes its secret, every other token becomes the neutral marker, and
  nothing else changes; the statistics count each token once.  The response must not be
  left with a placeholder prefix of its own.
\<close>

theorem restore_at_substitutes:
  assumes "tokens_ok s" and "\<forall>i. Tok i \<in> set ps \<longrightarrow> i < length (s_values s)"
    and "\<not> contains PLACEHOLDER_PREFIX (subst (restoration s pointer) ps)"
  shows "restore_at s (render s ps) pointer =
    (subst (restoration s pointer) ps,
     \<lparr>restored_count = hits s ps (eligible pointer) 0,
      neutralized_count = hits s ps (\<lambda>v. \<not> eligible pointer v) 0\<rparr>)"
  using restore_loop_pieces [OF assms, of 0 no_stats]
  by (simp add: restore_at_loop [OF assms(1)] no_stats_def)

text \<open>Two sessions that differ at most in secrets not eligible at a pointer.\<close>

definition agrees_at :: "string option \<Rightarrow> session \<Rightarrow> session \<Rightarrow> bool" where
  "agrees_at pointer s t \<longleftrightarrow>
     list_all2 (\<lambda>v w. rv_token v = rv_token w \<and> rv_pointer v = rv_pointer w \<and>
       (eligible pointer v \<longrightarrow> rv_secret v = rv_secret w)) (s_values s) (s_values t)"

lemma restore_loop_agree:
  assumes "list_all2 (\<lambda>v w. rv_token v = rv_token w \<and> rv_pointer v = rv_pointer w \<and>
      (eligible pointer v \<longrightarrow> rv_secret v = rv_secret w)) vs ws"
  shows "restore_loop pointer vs t st = restore_loop pointer ws t st"
  using assms
proof (induction vs ws arbitrary: t st rule: list_all2_induct)
  case (Cons v vs w ws)
  then have "eligible pointer v = eligible pointer w" by (simp add: eligible_def)
  with Cons show ?case by simp
qed simp

lemma restore_at_agree:
  "agrees_at pointer s t \<Longrightarrow> restore_at s content pointer = restore_at t content pointer"
  unfolding agrees_at_def using restore_loop_agree by (auto simp: restore_at_def)


subsection \<open>Witnesses and concrete behaviour\<close>

lemma redact_keeps_tokens_distinct_witness:
  "distinct (map rv_token (s_values (snd (redact_at sample_ext (new_session ''n'') ''key AKIA''
     sample_engine (Some ''/input'')))))"
proof -
  have "session_wf (new_session ''n'')" by (simp add: session_wf_def new_session_def)
  from redact_keeps_tokens_distinct [OF sample_engine_ok this sample_redaction]
  show ?thesis by (simp add: sample_redaction)
qed

definition sample_session :: session where
  "sample_session = \<lparr>s_nonce = ''ab'', s_values =
     [\<lparr>rv_token = mk_token ''ab'' 0 ''KEY'', rv_secret = ''AKIA'', rv_pointer = Some ''/input''\<rparr>,
      \<lparr>rv_token = mk_token ''ab'' 1 ''IP'', rv_secret = ''10.0.0.1'',
        rv_pointer = Some ''/messages/0/content''\<rparr>]\<rparr>"

definition sample_pieces :: "piece list" where
  "sample_pieces = [Lit ''use '', Tok 1, Lit '' not '', Tok 0]"

lemma sample_session_ok: "tokens_ok sample_session"
proof -
  have "CHR ''['' \<notin> set ''KEY''" and "CHR ''['' \<notin> set ''IP''" by simp_all
  then show ?thesis
    unfolding tokens_ok_def sample_session_def by (force simp: less_Suc_eq)
qed

lemma restore_at_substitutes_witness:
  "restore_at sample_session
     (''use '' @ mk_token ''ab'' 1 ''IP'' @ '' not '' @ mk_token ''ab'' 0 ''KEY'')
     (Some ''/echo/messages/0/content'') =
   (''use 10.0.0.1 not <REDACTED>'', \<lparr>restored_count = 1, neutralized_count = 1\<rparr>)"
proof -
  let ?p = "Some ''/echo/messages/0/content''"
  have el: "eligible ?p (s_values sample_session ! 1)" "\<not> eligible ?p (s_values sample_session ! 0)"
    by (simp_all add: eligible_def sample_session_def pointer_tail_matches_def
        pointer_segments_def)
  have sub: "subst (restoration sample_session ?p) sample_pieces = ''use 10.0.0.1 not <REDACTED>''"
    using el by (simp add: sample_pieces_def restoration_def NEUTRALIZED_MARKER_def)
      (simp add: sample_session_def)
  have clean: "\<not> contains PLACEHOLDER_PREFIX (subst (restoration sample_session ?p) sample_pieces)"
    unfolding sub by (simp add: PLACEHOLDER_PREFIX_def)
  have known: "\<forall>i. Tok i \<in> set sample_pieces \<longrightarrow> i < length (s_values sample_session)"
    by (simp add: sample_pieces_def sample_session_def)
  have "render sample_session sample_pieces =
      ''use '' @ mk_token ''ab'' 1 ''IP'' @ '' not '' @ mk_token ''ab'' 0 ''KEY''"
    by (simp add: sample_pieces_def sample_session_def)
  moreover have "hits sample_session sample_pieces (eligible ?p) 0 = 1"
    and "hits sample_session sample_pieces (\<lambda>v. \<not> eligible ?p v) 0 = 1"
    using el by (simp_all add: hits_def sample_pieces_def sample_session_def upt_rec)
  ultimately show ?thesis
    using restore_at_substitutes [OF sample_session_ok known clean] sub by simp
qed


text \<open>
  Two observations.  The path check is weaker than its comment says: a value minted at the
  top-level string \<open>/content\<close> is restored at the model-authored position
  \<open>/choices/0/message/content\<close>, and a value minted at the root everywhere.  And a secret
  that a later detector stores with an earlier token inside it comes back with that token
  unrestored, because restoration goes through the tokens in the order they were minted.
\<close>

lemma pointer_tail_matches_weak:
  "pointer_tail_matches ''/choices/0/message/content'' ''/content''"
  "pointer_tail_matches p []"
  by (simp_all add: pointer_tail_matches_def pointer_segments_def)

lemma nested_secret_not_restored:
  "let inner = mk_token ''ab'' 0 ''KEY''; outer = mk_token ''ab'' 1 ''URL'';
       s = \<lparr>s_nonce = ''ab'', s_values =
         [\<lparr>rv_token = inner, rv_secret = ''AKIA'', rv_pointer = Some ''/input''\<rparr>,
          \<lparr>rv_token = outer, rv_secret = ''db:'' @ inner, rv_pointer = Some ''/input''\<rparr>]\<rparr>
   in fst (restore_at s outer (Some ''/input'')) = ''db:'' @ inner"
  by (simp add: Let_def restore_at_def mk_token_def PLACEHOLDER_PREFIX_def eligible_def
      pointer_tail_matches_def no_stats_def nat_dec.simps)

end
