(* ===== verification/Runs.thy ===== *)
theory Runs
  imports Prelude
begin

section \<open>Runs of labelled step relations\<close>

text \<open>
  The long-lived components (the request store, the audit writer) are step relations whose
  labels are the observable operations.  A run is the list of labels from the initial state.
  Two contracts are used: an invariant every step keeps, and a label that a monotone phase
  lets happen at most once.
\<close>

inductive run :: "('s \<Rightarrow> 'l \<Rightarrow> 's \<Rightarrow> bool) \<Rightarrow> 's \<Rightarrow> 'l list \<Rightarrow> 's \<Rightarrow> bool"
  for step :: "'s \<Rightarrow> 'l \<Rightarrow> 's \<Rightarrow> bool" and init :: 's where
  run_start: "run step init [] init"
| run_step: "run step init tr s \<Longrightarrow> step s l s' \<Longrightarrow> run step init (tr @ [l]) s'"

inductive_cases run_snocE: "run step init (tr @ [l]) s"

locale safe_machine =
  fixes step :: "'s \<Rightarrow> 'l \<Rightarrow> 's \<Rightarrow> bool" and init :: 's and inv :: "'l list \<Rightarrow> 's \<Rightarrow> bool"
  assumes inv_init: "inv [] init"
    and inv_step: "inv tr s \<Longrightarrow> step s l s' \<Longrightarrow> inv (tr @ [l]) s'"
begin

lemma run_inv: "run step init tr s \<Longrightarrow> inv tr s"
  by (induction rule: run.induct) (auto intro: inv_init inv_step)

end

locale one_shot = safe_machine step init inv
  for step :: "'s \<Rightarrow> 'l \<Rightarrow> 's \<Rightarrow> bool" and init :: 's and inv :: "'l list \<Rightarrow> 's \<Rightarrow> bool" +
  fixes phase :: "'s \<Rightarrow> nat" and shot :: "'l \<Rightarrow> bool" and k :: nat
  assumes phase_mono: "inv tr s \<Longrightarrow> step s l s' \<Longrightarrow> phase s \<le> phase s'"
    and phase_shot: "inv tr s \<Longrightarrow> step s l s' \<Longrightarrow> shot l \<Longrightarrow> phase s \<le> k \<and> k < phase s'"
begin

lemma shot_spent:
  "run step init tr s \<Longrightarrow> length (filter shot tr) \<le> 1 \<and> (phase s \<le> k \<longrightarrow> filter shot tr = [])"
proof (induction rule: run.induct)
  case (run_step tr s l s')
  from run_inv [OF run_step(1)] have inv: "inv tr s" .
  show ?case
    using run_step.IH phase_mono [OF inv run_step(2)] phase_shot [OF inv run_step(2)] by auto
qed simp

lemma at_most_once: "run step init tr s \<Longrightarrow> length (filter shot tr) \<le> 1"
  using shot_spent by blast

end

text \<open>Subsequences of a run, for statements about the order of operations.\<close>

lemma subseq_snoc_keep: "subseq xs tr \<Longrightarrow> subseq xs (tr @ [l])"
  by (metis append_Nil2 list_emb_append_mono list_emb_Nil)

lemma subseq_snoc_add: "subseq xs tr \<Longrightarrow> subseq (xs @ [l]) (tr @ [l])"
  by (simp add: list_emb_append_mono)

lemmas subseq_snoc = subseq_snoc_keep subseq_snoc_add

end
