(* ===== verification/Broker_State.thy ===== *)
theory Broker_State
  imports Runs "HOL-Library.AList" "HOL-Library.Word"
begin

section \<open>The approval store of the action broker (src/broker/state.rs)\<close>

text \<open>
  The request state machine: pending, approved (executing), completed, denied or expired,
  with a single-use result.  The \<open>HashMap\<close> is an association list with distinct keys, in
  some iteration order; \<open>Instant\<close>s and durations are natural numbers of one unit.  Every
  operation takes the instants its \<open>Instant::now()\<close> calls return, and \<open>create\<close> also the
  random id (\<open>hex::encode\<close> of four bytes) and the six random draws of the code.  The
  mutex makes each operation one step.
\<close>

subsection \<open>Data\<close>

definition CODE_ALPHABET :: string where
  "CODE_ALPHABET = ''23456789abcdefghjkmnpqrstuvwxyz''"

record action_result =
  exit_code :: "int option"
  duration_ms :: nat
  res_stdout :: string
  res_stderr :: string
  res_truncated :: bool
  res_suppressed :: bool
  res_error :: "string option"

datatype request_state =
    Pending string nat
  | Executing
  | Completed action_result bool nat
  | Denied
  | Expired

fun state_name :: "request_state \<Rightarrow> string" where
  "state_name (Pending code expires) = ''pending''"
| "state_name Executing = ''executing''"
| "state_name (Completed r d e) = ''completed''"
| "state_name Denied = ''denied''"
| "state_name Expired = ''expired''"

record request_record =
  req_id :: string
  req_action_id :: string
  req_reason :: string
  req_created_at :: int
  req_purge_at :: nat
  req_state :: request_state

datatype approve_error = Unknown | NotPending string | WrongCode

record request_store =
  pending_ttl :: nat
  result_ttl :: nat
  requests :: "(string \<times> request_record) list"

record created_request =
  cr_record :: request_record
  cr_code :: string
  cr_pending_ttl :: nat

definition new_store :: "nat \<Rightarrow> nat \<Rightarrow> request_store" where
  "new_store p r = \<lparr>pending_ttl = p, result_ttl = r, requests = []\<rparr>"

subsection \<open>Constant-time comparison\<close>

definition byte_word :: "char \<Rightarrow> 8 word" where
  "byte_word c = word_of_nat (byte_of c)"

definition ct_diff :: "string \<Rightarrow> string \<Rightarrow> 8 word" where
  "ct_diff a b = fold (\<lambda>(x, y) diff. or diff (xor (byte_word x) (byte_word y))) (zip a b) 0"

definition constant_time_eq :: "string \<Rightarrow> string \<Rightarrow> bool" where
  "constant_time_eq a b = (if length a \<noteq> length b then False else ct_diff a b = 0)"

subsection \<open>Operations\<close>

definition code_of_draws :: "nat list \<Rightarrow> string" where
  "code_of_draws draws = map (\<lambda>i. CODE_ALPHABET ! i) draws"

definition draws_ok :: "nat list \<Rightarrow> bool" where
  "draws_ok draws \<longleftrightarrow> length draws = 6 \<and> list_all (\<lambda>i. i < length CODE_ALPHABET) draws"

definition create ::
  "nat \<Rightarrow> nat \<Rightarrow> int \<Rightarrow> string \<Rightarrow> nat list \<Rightarrow> string \<Rightarrow> string \<Rightarrow> request_store \<Rightarrow>
   created_request \<times> request_store" where
  "create now1 now2 wall rid draws action_id reason st =
     (let code = code_of_draws draws;
          record = \<lparr>req_id = rid, req_action_id = action_id, req_reason = reason,
            req_created_at = wall, req_purge_at = now1 + pending_ttl st + result_ttl st,
            req_state = Pending code (now2 + pending_ttl st)\<rparr>
      in (\<lparr>cr_record = record, cr_code = code, cr_pending_ttl = pending_ttl st\<rparr>,
          st\<lparr>requests := AList.update rid record (requests st)\<rparr>))"

definition snapshot :: "string \<Rightarrow> request_store \<Rightarrow> request_record option" where
  "snapshot rid st = map_of (requests st) rid"

definition code_of :: "string \<Rightarrow> request_store \<Rightarrow> string option" where
  "code_of rid st =
     (case snapshot rid st of
        None \<Rightarrow> None
      | Some record \<Rightarrow> (case req_state record of Pending code _ \<Rightarrow> Some code | _ \<Rightarrow> None))"

definition set_state :: "string \<Rightarrow> request_record \<Rightarrow> request_state \<Rightarrow> request_store \<Rightarrow> request_store"
  where
  "set_state rid record s st =
     st\<lparr>requests := AList.update rid (record\<lparr>req_state := s\<rparr>) (requests st)\<rparr>"

text \<open>\<open>list\<close>: newest first, a stable sort of the iteration order.\<close>

definition list_requests :: "request_store \<Rightarrow> request_record list" where
  "list_requests st = sort_key (\<lambda>r. - req_created_at r) (map snd (requests st))"

definition approve ::
  "nat \<Rightarrow> string \<Rightarrow> string \<Rightarrow> request_store \<Rightarrow> (approve_error + string) \<times> request_store" where
  "approve now rid code st =
     (case map_of (requests st) rid of
        None \<Rightarrow> (Inl Unknown, st)
      | Some record \<Rightarrow>
          (case req_state record of
             Pending expected expires \<Rightarrow>
               if expires \<le> now
               then (Inl (NotPending ''request already expired''), set_state rid record Expired st)
               else if \<not> constant_time_eq expected code then (Inl WrongCode, st)
               else (Inr (req_action_id record), set_state rid record Executing st)
           | Executing \<Rightarrow> (Inl (NotPending ''already approved; executing''), st)
           | Completed r delivered e \<Rightarrow>
               (Inl (NotPending (if delivered then ''already completed and delivered''
                                 else ''already completed; fetch the result'')), st)
           | Denied \<Rightarrow> (Inl (NotPending ''already denied''), st)
           | Expired \<Rightarrow> (Inl (NotPending ''already expired''), st)))"

definition deny :: "nat \<Rightarrow> string \<Rightarrow> request_store \<Rightarrow> (approve_error + unit) \<times> request_store" where
  "deny now rid st =
     (case map_of (requests st) rid of
        None \<Rightarrow> (Inl Unknown, st)
      | Some record \<Rightarrow>
          (case req_state record of
             Pending code expires \<Rightarrow>
               if expires \<le> now
               then (Inl (NotPending ''request already expired''), set_state rid record Expired st)
               else (Inr (), set_state rid record Denied st)
           | _ \<Rightarrow> (Inl (NotPending ''no longer pending''), st)))"

definition complete :: "nat \<Rightarrow> string \<Rightarrow> action_result \<Rightarrow> request_store \<Rightarrow> request_store" where
  "complete now rid result st =
     (case map_of (requests st) rid of
        None \<Rightarrow> st
      | Some record \<Rightarrow> set_state rid record (Completed result False (now + result_ttl st)) st)"

definition deliver :: "string \<Rightarrow> request_store \<Rightarrow> action_result option \<times> request_store" where
  "deliver rid st =
     (case map_of (requests st) rid of
        None \<Rightarrow> (None, st)
      | Some record \<Rightarrow>
          (case req_state record of
             Completed result delivered expires \<Rightarrow>
               if delivered then (None, st)
               else (Some result, set_state rid record (Completed result True expires) st)
           | _ \<Rightarrow> (None, st)))"

subsection \<open>The sweeper\<close>

definition goes_stale :: "nat \<Rightarrow> request_record \<Rightarrow> bool" where
  "goes_stale now r \<longleftrightarrow> (case req_state r of Pending code expires \<Rightarrow> expires \<le> now | _ \<Rightarrow> False)"

definition goes_away :: "nat \<Rightarrow> request_record \<Rightarrow> bool" where
  "goes_away now r \<longleftrightarrow>
     (case req_state r of
        Pending code expires \<Rightarrow> \<not> expires \<le> now \<and> req_purge_at r \<le> now
      | Completed result delivered expires \<Rightarrow> expires \<le> now \<or> req_purge_at r \<le> now
      | _ \<Rightarrow> req_purge_at r \<le> now)"

definition sweep_record :: "nat \<Rightarrow> nat \<Rightarrow> request_record \<Rightarrow> request_record" where
  "sweep_record now ttl r =
     (if goes_stale now r then r\<lparr>req_state := Expired, req_purge_at := now + ttl\<rparr> else r)"

definition sweep :: "nat \<Rightarrow> request_store \<Rightarrow> string list \<times> request_store" where
  "sweep now st =
     (let expired = map fst (filter (\<lambda>e. goes_stale now (snd e)) (requests st));
          purge = map fst (filter (\<lambda>e. goes_away now (snd e)) (requests st));
          swept = map (\<lambda>(rid, r). (rid, sweep_record now (result_ttl st) r)) (requests st)
      in (expired, st\<lparr>requests := filter (\<lambda>(rid, r). rid \<notin> set purge) swept\<rparr>))"

subsection \<open>The constant-time comparison is equality\<close>

lemma byte_word_inj: "byte_word x = byte_word y \<longleftrightarrow> x = y"
proof
  assume "byte_word x = byte_word y"
  then have "unat (byte_word x) = unat (byte_word y)" by simp
  then have "byte_of x = byte_of y"
    by (simp add: byte_word_def unat_of_nat take_bit_nat_eq_self)
  then show "x = y" by simp
qed simp

lemma ct_fold_0:
  "fold (\<lambda>(x, y) diff. or diff (xor (byte_word x) (byte_word y))) ps d = 0 \<longleftrightarrow>
   d = 0 \<and> list_all (\<lambda>(x, y). x = y) ps"
proof (induction ps arbitrary: d)
  case (Cons p ps)
  obtain x y where p: "p = (x, y)" by (cases p)
  have "xor (byte_word x) (byte_word y) = 0 \<longleftrightarrow> x = y"
    by (metis byte_word_inj xor.assoc xor_self_eq xor.right_neutral xor.left_neutral)
  with Cons show ?case by (auto simp: p or_eq_0_iff)
qed simp

lemma ct_eq_iff: "constant_time_eq a b \<longleftrightarrow> a = b"
  by (auto simp: constant_time_eq_def ct_diff_def ct_fold_0 list_all_iff list_eq_iff_zip_eq)

text \<open>
  Accumulating the differences with OR and XOR on bytes decides equality: approval codes
  and bearer tokens are accepted exactly when they are the expected ones.
\<close>

theorem constant_time_eq_iff: "constant_time_eq a b \<longleftrightarrow> a = b"
  by (rule ct_eq_iff)

subsection \<open>The store invariant\<close>

definition store_wf :: "request_store \<Rightarrow> bool" where
  "store_wf st \<longleftrightarrow> distinct (map fst (requests st)) \<and>
     list_all (\<lambda>(k, r). req_id r = k) (requests st)"

lemma store_wf_new: "store_wf (new_store p r)"
  by (simp add: store_wf_def new_store_def)

lemma snapshot_new [simp]: "snapshot k (new_store p r) = None"
  by (simp add: snapshot_def new_store_def)

lemma store_wf_update:
  assumes "store_wf st" and "req_id r = rid"
  shows "store_wf (st\<lparr>requests := AList.update rid r (requests st)\<rparr>)"
proof -
  have "list_all (\<lambda>(k, r). req_id r = k) (AList.update rid r xs)"
    if "list_all (\<lambda>(k, r). req_id r = k) xs" for xs
    using that assms(2) by (induction xs) auto
  with assms(1) show ?thesis by (simp add: store_wf_def distinct_update)
qed

lemma snapshot_id: "store_wf st \<Longrightarrow> snapshot rid st = Some r \<Longrightarrow> req_id r = rid"
  by (auto simp: store_wf_def snapshot_def list_all_iff dest!: map_of_SomeD)

lemma snapshot_set_state [simp]:
  "snapshot k (set_state rid r s st) = (if k = rid then Some (r\<lparr>req_state := s\<rparr>) else snapshot k st)"
  by (simp add: snapshot_def set_state_def update_conv')

lemma store_wf_set_state:
  "store_wf st \<Longrightarrow> snapshot rid st = Some r \<Longrightarrow> store_wf (set_state rid r s st)"
  unfolding set_state_def by (rule store_wf_update) (simp_all add: snapshot_id)

lemma map_of_kept:
  "map_of (filter (\<lambda>(rid, r). rid \<notin> P) (map (\<lambda>(rid, r). (rid, f r)) xs)) k =
   (if k \<in> P then None else map_option f (map_of xs k))"
  by (induction xs) auto

lemma distinct_kept:
  "distinct (map fst xs) \<Longrightarrow> distinct (map fst (filter Q (map (\<lambda>(rid, r). (rid, f r)) xs)))"
  by (induction xs) (force split: if_splits)+

lemma store_wf_sweep:
  assumes "store_wf st"
  shows "store_wf (snd (sweep now st))"
proof -
  have "req_id (sweep_record now t r) = req_id r" for t r
    by (simp add: sweep_record_def)
  with assms show ?thesis
    unfolding store_wf_def sweep_def Let_def
    by (auto simp: distinct_kept list_all_iff simp del: filter_map)
qed

lemma snapshot_sweep:
  assumes "store_wf st"
  shows "snapshot k (snd (sweep now st)) =
    (case snapshot k st of
       None \<Rightarrow> None
     | Some r \<Rightarrow> if goes_away now r then None else Some (sweep_record now (result_ttl st) r))"
proof -
  let ?xs = "requests st"
  have dist: "distinct (map fst ?xs)" using assms by (simp add: store_wf_def)
  then have "k \<in> set (map fst (filter (\<lambda>e. goes_away now (snd e)) ?xs)) \<longleftrightarrow>
      (\<exists>r. map_of ?xs k = Some r \<and> goes_away now r)"
    by (force simp: map_of_eq_Some_iff)
  then show ?thesis
    unfolding snapshot_def sweep_def Let_def snd_conv request_store.simps
    by (cases "map_of ?xs k") (simp_all add: map_of_kept del: set_map)
qed

lemma swept_ids:
  assumes "store_wf st"
  shows "k \<in> set (fst (sweep now st)) \<longleftrightarrow> (\<exists>r. snapshot k st = Some r \<and> goes_stale now r)"
proof -
  have "distinct (map fst (requests st))" using assms by (simp add: store_wf_def)
  then show ?thesis by (force simp: sweep_def snapshot_def Let_def map_of_eq_Some_iff)
qed

subsection \<open>The step relation\<close>

text \<open>
  The running broker: the store, the requests whose action is executing, and the ids drawn
  so far.  Two guards come from outside the store: the ids are assumed not to repeat (they
  are four random bytes), and \<open>complete\<close> is called by the task that an approval spawned,
  once (approve_request of src/broker/ipc.rs).
\<close>

record broker_sys =
  sys_store :: request_store
  sys_running :: "string set"
  sys_used :: "string set"

datatype label =
    LCreated string string nat
  | LApproved string string nat
  | LRejected string approve_error
  | LDenied string
  | LCompleted string action_result
  | LDelivered string action_result
  | LNothing string
  | LSwept "string list"

definition broker_init :: "nat \<Rightarrow> nat \<Rightarrow> broker_sys" where
  "broker_init p r = \<lparr>sys_store = new_store p r, sys_running = {}, sys_used = {}\<rparr>"

inductive broker_step :: "broker_sys \<Rightarrow> label \<Rightarrow> broker_sys \<Rightarrow> bool" where
  step_create:
    "rid \<notin> sys_used s \<Longrightarrow> draws_ok draws \<Longrightarrow>
     create now1 now2 wall rid draws action reason (sys_store s) = (c, st') \<Longrightarrow>
     broker_step s (LCreated rid (cr_code c) (now2 + pending_ttl (sys_store s)))
       (s\<lparr>sys_store := st', sys_used := insert rid (sys_used s)\<rparr>)"
| step_approve:
    "approve now rid code (sys_store s) = (Inr action, st') \<Longrightarrow>
     broker_step s (LApproved rid code now)
       (s\<lparr>sys_store := st', sys_running := insert rid (sys_running s)\<rparr>)"
| step_approve_rejected:
    "approve now rid code (sys_store s) = (Inl e, st') \<Longrightarrow>
     broker_step s (LRejected rid e) (s\<lparr>sys_store := st'\<rparr>)"
| step_deny:
    "deny now rid (sys_store s) = (Inr (), st') \<Longrightarrow>
     broker_step s (LDenied rid) (s\<lparr>sys_store := st'\<rparr>)"
| step_deny_rejected:
    "deny now rid (sys_store s) = (Inl e, st') \<Longrightarrow>
     broker_step s (LRejected rid e) (s\<lparr>sys_store := st'\<rparr>)"
| step_complete:
    "rid \<in> sys_running s \<Longrightarrow>
     broker_step s (LCompleted rid result)
       (s\<lparr>sys_store := complete now rid result (sys_store s), sys_running := sys_running s - {rid}\<rparr>)"
| step_deliver:
    "deliver rid (sys_store s) = (Some result, st') \<Longrightarrow>
     broker_step s (LDelivered rid result) (s\<lparr>sys_store := st'\<rparr>)"
| step_deliver_nothing:
    "deliver rid (sys_store s) = (None, st') \<Longrightarrow>
     broker_step s (LNothing rid) (s\<lparr>sys_store := st'\<rparr>)"
| step_sweep:
    "sweep now (sys_store s) = (expired, st') \<Longrightarrow>
     broker_step s (LSwept expired) (s\<lparr>sys_store := st'\<rparr>)"

inductive_cases broker_stepE: "broker_step s l s'"

subsection \<open>What each operation does to a record\<close>

lemma approve_cases:
  assumes "approve now rid code st = (res, st')"
  obtains (approved) r exp where "snapshot rid st = Some r" "req_state r = Pending code exp"
      "now < exp" "res = Inr (req_action_id r)" "st' = set_state rid r Executing st"
    | (stale) e r code' exp where "snapshot rid st = Some r" "req_state r = Pending code' exp"
      "exp \<le> now" "res = Inl e" "st' = set_state rid r Expired st"
    | (refused) e where "res = Inl e" "st' = st"
  using assms unfolding approve_def snapshot_def [symmetric]
  by (auto simp: ct_eq_iff split: option.splits request_state.splits if_splits)

lemma deny_cases:
  assumes "deny now rid st = (res, st')"
  obtains (denied) r code exp where "snapshot rid st = Some r" "req_state r = Pending code exp"
      "now < exp" "res = Inr ()" "st' = set_state rid r Denied st"
    | (stale) e r code exp where "snapshot rid st = Some r" "req_state r = Pending code exp"
      "exp \<le> now" "res = Inl e" "st' = set_state rid r Expired st"
    | (refused) e where "res = Inl e" "st' = st"
  using assms unfolding deny_def snapshot_def [symmetric]
  by (auto split: option.splits request_state.splits if_splits)

lemma deliver_cases:
  assumes "deliver rid st = (res, st')"
  obtains (delivered) r result exp where "snapshot rid st = Some r"
      "req_state r = Completed result False exp" "res = Some result"
      "st' = set_state rid r (Completed result True exp) st"
    | (nothing) "res = None" "st' = st"
  using assms unfolding deliver_def snapshot_def [symmetric]
  by (auto split: option.splits request_state.splits if_splits)

lemma complete_cases:
  obtains (absent) "snapshot rid st = None" "complete now rid result st = st"
    | (present) r where "snapshot rid st = Some r"
      "complete now rid result st =
        set_state rid r (Completed result False (now + result_ttl st)) st"
  by (cases "snapshot rid st") (auto simp: complete_def snapshot_def)

lemma create_store:
  assumes "create now1 now2 wall rid draws action reason st = (c, st')"
  shows "snapshot k st' = (if k = rid then Some (cr_record c) else snapshot k st)"
    and "store_wf st \<Longrightarrow> store_wf st'" and "req_state (cr_record c) = Pending (cr_code c) (now2 + pending_ttl st)"
  using assms by (auto simp: create_def Let_def snapshot_def update_conv' intro: store_wf_update)

subsection \<open>The invariant of runs\<close>

text \<open>The approvals of a run: in time, and with the code drawn at creation.\<close>

definition approved :: "label list \<Rightarrow> string \<Rightarrow> bool" where
  "approved tr k \<longleftrightarrow> (\<exists>code exp now. now < exp \<and>
     subseq [LCreated k code exp, LApproved k code now] tr)"

definition completed :: "label list \<Rightarrow> string \<Rightarrow> action_result \<Rightarrow> bool" where
  "completed tr k r \<longleftrightarrow> (\<exists>code exp now. now < exp \<and>
     subseq [LCreated k code exp, LApproved k code now, LCompleted k r] tr)"

definition delivered :: "label list \<Rightarrow> string \<Rightarrow> action_result \<Rightarrow> bool" where
  "delivered tr k r \<longleftrightarrow> (\<exists>code exp now. now < exp \<and>
     subseq [LCreated k code exp, LApproved k code now, LCompleted k r, LDelivered k r] tr)"

fun evidence :: "label list \<Rightarrow> string \<Rightarrow> request_state \<Rightarrow> bool" where
  "evidence tr k (Pending code exp) \<longleftrightarrow> subseq [LCreated k code exp] tr"
| "evidence tr k Executing \<longleftrightarrow> approved tr k"
| "evidence tr k (Completed r d e) \<longleftrightarrow> completed tr k r"
| "evidence tr k Denied \<longleftrightarrow> True"
| "evidence tr k Expired \<longleftrightarrow> True"

lemma approved_snoc: "approved tr k \<Longrightarrow> approved (tr @ [l]) k"
  unfolding approved_def by (blast intro: subseq_snoc_keep)

lemma completed_snoc: "completed tr k r \<Longrightarrow> completed (tr @ [l]) k r"
  unfolding completed_def by (blast intro: subseq_snoc_keep)

lemma delivered_snoc: "delivered tr k r \<Longrightarrow> delivered (tr @ [l]) k r"
  unfolding delivered_def by (blast intro: subseq_snoc_keep)

lemma evidence_snoc: "evidence tr k s \<Longrightarrow> evidence (tr @ [l]) k s"
  by (cases s) (auto intro: subseq_snoc_keep approved_snoc completed_snoc)

lemma evidence_approve:
  assumes "evidence tr k (Pending code exp)" and "now < exp"
  shows "approved (tr @ [LApproved k code now]) k"
proof -
  from assms(1) have "subseq [LCreated k code exp] tr" by simp
  then have "subseq ([LCreated k code exp] @ [LApproved k code now]) (tr @ [LApproved k code now])"
    by (rule subseq_snoc_add)
  with assms(2) show ?thesis unfolding approved_def by auto
qed

lemma approved_complete:
  assumes "approved tr k"
  shows "completed (tr @ [LCompleted k r]) k r"
proof -
  from assms obtain code exp now where "now < exp"
    and "subseq [LCreated k code exp, LApproved k code now] tr"
    by (auto simp: approved_def)
  with subseq_snoc_add [OF this(2), of "LCompleted k r"] show ?thesis
    by (auto simp: completed_def)
qed

lemma completed_deliver:
  assumes "completed tr k r"
  shows "delivered (tr @ [LDelivered k r]) k r"
proof -
  from assms obtain code exp now where "now < exp"
    and "subseq [LCreated k code exp, LApproved k code now, LCompleted k r] tr"
    by (auto simp: completed_def)
  with subseq_snoc_add [OF this(2), of "LDelivered k r"] show ?thesis
    by (auto simp: delivered_def)
qed

lemmas snoc_intros = approved_snoc completed_snoc delivered_snoc evidence_snoc

definition broker_inv :: "label list \<Rightarrow> broker_sys \<Rightarrow> bool" where
  "broker_inv tr s \<longleftrightarrow> store_wf (sys_store s) \<and>
     (\<forall>k r. snapshot k (sys_store s) = Some r \<longrightarrow> k \<in> sys_used s \<and> evidence tr k (req_state r)) \<and>
     (\<forall>k \<in> sys_running s. k \<in> sys_used s \<and> approved tr k \<and>
        (\<forall>r. snapshot k (sys_store s) = Some r \<longrightarrow> req_state r = Executing)) \<and>
     (\<forall>k r. LDelivered k r \<in> set tr \<longrightarrow> delivered tr k r)"

lemma broker_inv_init: "broker_inv [] (broker_init p t)"
  by (simp add: broker_inv_def broker_init_def store_wf_new)

lemma broker_inv_step:
  assumes "broker_inv tr s" and "broker_step s l s'"
  shows "broker_inv (tr @ [l]) s'"
  using assms(2)
proof cases
  case (step_create rid draws now1 now2 wall action reason c st')
  note c = create_store [OF step_create(5)]
  have "evidence (tr @ [l]) rid (req_state (cr_record c))"
    using subseq_snoc_add [of "[]" tr l] step_create(1) by (simp add: c(3))
  then show ?thesis
    using assms(1) step_create c
    by (auto simp: broker_inv_def intro: snoc_intros)
next
  case (step_approve now rid code action st')
  from step_approve(3) obtain r exp where r: "snapshot rid (sys_store s) = Some r"
    "req_state r = Pending code exp" "now < exp" "st' = set_state rid r Executing (sys_store s)"
    by (cases rule: approve_cases) auto
  have "evidence tr rid (req_state r)" using assms(1) r(1) by (simp add: broker_inv_def)
  then have "approved (tr @ [l]) rid"
    using evidence_approve [of tr rid code exp now] r(2,3) unfolding step_approve(1) by metis
  then show ?thesis
    using assms(1) step_approve r
    by (auto simp: broker_inv_def store_wf_set_state intro: snoc_intros)
next
  case (step_approve_rejected now rid code e st')
  from step_approve_rejected(3) show ?thesis
    by (cases rule: approve_cases)
      (use assms(1) step_approve_rejected(1,2) in \<open>auto simp: broker_inv_def store_wf_set_state
        intro: snoc_intros\<close>)
next
  case (step_deny now rid st')
  from step_deny(3) show ?thesis
    by (cases rule: deny_cases)
      (use assms(1) step_deny(1,2) in \<open>auto simp: broker_inv_def store_wf_set_state
        intro: snoc_intros\<close>)
next
  case (step_deny_rejected now rid e st')
  from step_deny_rejected(3) show ?thesis
    by (cases rule: deny_cases)
      (use assms(1) step_deny_rejected(1,2) in \<open>auto simp: broker_inv_def store_wf_set_state
        intro: snoc_intros\<close>)
next
  case (step_complete rid result now)
  from assms(1) step_complete(3) have "approved tr rid" by (auto simp: broker_inv_def)
  then have "completed (tr @ [l]) rid result"
    unfolding step_complete(1) by (rule approved_complete)
  then show ?thesis
    by (cases rule: complete_cases [of rid "sys_store s" now result])
      (use assms(1) step_complete in \<open>auto simp: broker_inv_def store_wf_set_state
        intro: snoc_intros\<close>)
next
  case (step_deliver rid result st')
  from step_deliver(3) obtain r exp where r: "snapshot rid (sys_store s) = Some r"
    "req_state r = Completed result False exp"
    "st' = set_state rid r (Completed result True exp) (sys_store s)"
    by (cases rule: deliver_cases) auto
  with assms(1) have c: "completed tr rid result" by (force simp: broker_inv_def)
  then have "delivered (tr @ [l]) rid result"
    unfolding step_deliver(1) by (rule completed_deliver)
  then show ?thesis
    using assms(1) step_deliver(1,2) r completed_snoc [OF c]
    by (auto simp: broker_inv_def store_wf_set_state intro: snoc_intros)
next
  case (step_deliver_nothing rid st')
  from step_deliver_nothing(3) show ?thesis
    by (cases rule: deliver_cases)
      (use assms(1) step_deliver_nothing(1,2) in \<open>auto simp: broker_inv_def intro: snoc_intros\<close>)
next
  case (step_sweep now expired st')
  have st': "st' = snd (sweep now (sys_store s))" using step_sweep(3) by simp
  have wf: "store_wf (sys_store s)" using assms(1) by (simp add: broker_inv_def)
  have "evidence (tr @ [l]) k (req_state (sweep_record now t r))"
    if "evidence tr k (req_state r)" for k t r
    using that by (auto simp: sweep_record_def intro: evidence_snoc)
  moreover have "req_state r = Executing \<Longrightarrow> req_state (sweep_record now t r) = Executing" for t r
    by (simp add: sweep_record_def goes_stale_def)
  ultimately show ?thesis
    using assms(1) step_sweep(1,2)
    by (auto simp: broker_inv_def st' store_wf_sweep snapshot_sweep [OF wf] intro: snoc_intros
        split: option.splits if_splits)
qed

subsection \<open>Approvals and deliveries happen once\<close>

fun state_rank :: "request_state \<Rightarrow> nat" where
  "state_rank (Pending code e) = 1"
| "state_rank Executing = 2"
| "state_rank (Completed r d e) = (if d then 4 else 3)"
| "state_rank Denied = 5"
| "state_rank Expired = 5"

text \<open>How far the request \<open>k\<close> has got: undrawn, its state, purged.\<close>

definition phase_of :: "string \<Rightarrow> broker_sys \<Rightarrow> nat" where
  "phase_of k s = (if k \<notin> sys_used s then 0 else
     (case snapshot k (sys_store s) of None \<Rightarrow> 6 | Some r \<Rightarrow> state_rank (req_state r)))"

definition is_approval :: "string \<Rightarrow> label \<Rightarrow> bool" where
  "is_approval k l \<longleftrightarrow> (case l of LApproved rid code now \<Rightarrow> rid = k | _ \<Rightarrow> False)"

definition is_delivery :: "string \<Rightarrow> label \<Rightarrow> bool" where
  "is_delivery k l \<longleftrightarrow> (case l of LDelivered rid r \<Rightarrow> rid = k | _ \<Rightarrow> False)"

lemma rank_bounds: "state_rank st \<le> 5" "0 < state_rank st"
  by (cases st; simp)+

lemma phase_step:
  assumes "broker_inv tr s" and "broker_step s l s'"
  shows "phase_of k s \<le> phase_of k s' \<and>
    (is_approval k l \<longrightarrow> phase_of k s = 1 \<and> phase_of k s' = 2) \<and>
    (is_delivery k l \<longrightarrow> phase_of k s = 3 \<and> phase_of k s' = 4)"
proof -
  have wf: "store_wf (sys_store s)" using assms(1) by (simp add: broker_inv_def)
  have used: "snapshot rid (sys_store s) = Some r \<Longrightarrow> rid \<in> sys_used s" for rid r
    using assms(1) by (simp add: broker_inv_def)
  have le6: "state_rank st \<le> 6" for st using rank_bounds(1) [of st] by simp
  note defs = phase_of_def is_approval_def is_delivery_def
  from assms(2) show ?thesis
  proof cases
    case (step_create rid draws now1 now2 wall action reason c st')
    then show ?thesis using create_store [OF step_create(5)] by (simp add: defs split: option.splits)
  next
    case (step_approve now rid code action st')
    from step_approve(3) show ?thesis
      by (cases rule: approve_cases) (use step_approve used in \<open>auto simp: defs\<close>)
  next
    case (step_approve_rejected now rid code e st')
    from step_approve_rejected(3) show ?thesis
      by (cases rule: approve_cases) (use step_approve_rejected used in \<open>auto simp: defs\<close>)
  next
    case (step_deny now rid st')
    from step_deny(3) show ?thesis
      by (cases rule: deny_cases) (use step_deny used in \<open>auto simp: defs\<close>)
  next
    case (step_deny_rejected now rid e st')
    from step_deny_rejected(3) show ?thesis
      by (cases rule: deny_cases) (use step_deny_rejected used in \<open>auto simp: defs\<close>)
  next
    case (step_complete rid result now)
    from assms(1) step_complete(3) have
      "snapshot rid (sys_store s) = Some r \<Longrightarrow> req_state r = Executing" for r
      by (auto simp: broker_inv_def)
    then show ?thesis
      by (cases rule: complete_cases [of rid "sys_store s" now result])
        (use step_complete used in \<open>auto simp: defs\<close>)
  next
    case (step_deliver rid result st')
    from step_deliver(3) show ?thesis
      by (cases rule: deliver_cases) (use step_deliver used in \<open>auto simp: defs\<close>)
  next
    case (step_deliver_nothing rid st')
    from step_deliver_nothing(3) show ?thesis
      by (cases rule: deliver_cases) (use step_deliver_nothing in \<open>auto simp: defs\<close>)
  next
    case (step_sweep now expired st')
    have st': "st' = snd (sweep now (sys_store s))" using step_sweep(3) by simp
    have "goes_stale now r \<Longrightarrow> state_rank (req_state r) \<le> 5" for r by (rule rank_bounds)
    then have "state_rank (req_state r) \<le> state_rank (req_state (sweep_record now t r))" for t r
      by (simp add: sweep_record_def)
    then show ?thesis using step_sweep(1,2) le6
      by (auto simp: defs st' snapshot_sweep [OF wf] split: option.splits)
  qed
qed

interpretation broker: safe_machine broker_step "broker_init p t" broker_inv for p t
  by unfold_locales (auto intro: broker_inv_init broker_inv_step)

interpretation approval: one_shot broker_step "broker_init p t" broker_inv "phase_of k" "is_approval k" 1
  for p t k
  by unfold_locales (use phase_step in \<open>fastforce+\<close>)

interpretation delivery: one_shot broker_step "broker_init p t" broker_inv "phase_of k" "is_delivery k" 3
  for p t k
  by unfold_locales (use phase_step in \<open>fastforce+\<close>)

text \<open>
  C12 An action runs at most once per request: in every run of the broker, however creating,
  approving, denying, completing, delivering and sweeping interleave, a request id is
  approved at most once.
\<close>

theorem approved_at_most_once:
  assumes "run broker_step (broker_init p t) tr s"
  shows "length (filter (is_approval k) tr) \<le> 1"
  using assms by (rule approval.at_most_once)

text \<open>
  Results are single-use: in every run a request delivers its result at most once.
\<close>

theorem delivered_at_most_once:
  assumes "run broker_step (broker_init p t) tr s"
  shows "length (filter (is_delivery k) tr) \<le> 1"
  using assms by (rule delivery.at_most_once)

text \<open>
  C4 No result without approval: whenever a run delivers a result, the request had been
  created, then approved with exactly the code drawn at its creation and before the code
  expired, then completed with that very result, in this order.
\<close>

theorem delivery_was_approved:
  assumes "run broker_step (broker_init p t) tr s" and "LDelivered k r \<in> set tr"
  shows "\<exists>code exp now. now < exp \<and>
    subseq [LCreated k code exp, LApproved k code now, LCompleted k r, LDelivered k r] tr"
  using broker.run_inv [OF assms(1)] assms(2) by (auto simp: broker_inv_def delivered_def)

text \<open>
  Sweeping does exactly what the retention rules say, to every record: the ids reported
  are the pending requests past their deadline, these become expired, records past their
  retention are dropped, and no other record changes.
\<close>

theorem sweep_spec:
  assumes "store_wf st" and "sweep now st = (expired, st')"
  shows "(k \<in> set expired \<longleftrightarrow> (\<exists>r code e. snapshot k st = Some r \<and>
      req_state r = Pending code e \<and> e \<le> now)) \<and>
    snapshot k st' = (case snapshot k st of None \<Rightarrow> None | Some r \<Rightarrow>
      (case req_state r of
         Pending code e \<Rightarrow>
           if e \<le> now then Some (r\<lparr>req_state := Expired, req_purge_at := now + result_ttl st\<rparr>)
           else if req_purge_at r \<le> now then None else Some r
       | Completed x d e \<Rightarrow> if e \<le> now \<or> req_purge_at r \<le> now then None else Some r
       | _ \<Rightarrow> if req_purge_at r \<le> now then None else Some r)) \<and>
    store_wf st'"
proof -
  have st': "st' = snd (sweep now st)" and expired: "expired = fst (sweep now st)"
    using assms(2) by simp_all
  have "goes_stale now r \<longleftrightarrow> (\<exists>code e. req_state r = Pending code e \<and> e \<le> now)" for r
    by (auto simp: goes_stale_def split: request_state.splits)
  moreover have spec: "(if goes_away now r then None else Some (sweep_record now (result_ttl st) r)) =
      (case req_state r of
         Pending code e \<Rightarrow>
           if e \<le> now then Some (r\<lparr>req_state := Expired, req_purge_at := now + result_ttl st\<rparr>)
           else if req_purge_at r \<le> now then None else Some r
       | Completed x d e \<Rightarrow> if e \<le> now \<or> req_purge_at r \<le> now then None else Some r
       | _ \<Rightarrow> if req_purge_at r \<le> now then None else Some r)" for r
    by (auto simp: goes_away_def goes_stale_def sweep_record_def split: request_state.splits)
  ultimately show ?thesis
    using swept_ids [OF assms(1)] store_wf_sweep [OF assms(1)]
    unfolding st' expired snapshot_sweep [OF assms(1)] spec by auto
qed

text \<open>
  Approval is exact: it succeeds on a pending request that has not expired and only with
  its code; then the request is executing and nothing else in the store has changed.
\<close>

theorem approve_iff:
  "fst (approve now rid code st) = Inr action \<longleftrightarrow>
     (\<exists>r e. snapshot rid st = Some r \<and> req_state r = Pending code e \<and> now < e \<and>
        req_action_id r = action \<and>
        (\<lambda>k. snapshot k (snd (approve now rid code st))) =
          (\<lambda>k. snapshot k st)(rid \<mapsto> r\<lparr>req_state := Executing\<rparr>))"
proof -
  obtain res st' where eq: "approve now rid code st = (res, st')"
    by (cases "approve now rid code st")
  have "\<exists>r e. snapshot rid st = Some r \<and> req_state r = Pending code e \<and> now < e \<and>
      req_action_id r = action \<and>
      (\<lambda>k. snapshot k st') = (\<lambda>k. snapshot k st)(rid \<mapsto> r\<lparr>req_state := Executing\<rparr>)"
    if "res = Inr action"
    using that by (cases rule: approve_cases [OF eq]) (auto simp: fun_eq_iff)
  moreover have "fst (approve now rid code st) = Inr action"
    if "snapshot rid st = Some r" "req_state r = Pending code e" "now < e" "req_action_id r = action"
    for r e
    using that by (simp add: approve_def snapshot_def [symmetric] ct_eq_iff)
  ultimately show ?thesis using eq by auto
qed

subsection \<open>A concrete run\<close>

definition sample_result :: action_result where
  "sample_result = \<lparr>exit_code = Some 0, duration_ms = 12, res_stdout = ''ok'', res_stderr = [],
     res_truncated = False, res_suppressed = False, res_error = None\<rparr>"

definition sample_tr :: "label list" where
  "sample_tr = [LCreated ''ab'' ''222222'' 120, LApproved ''ab'' ''222222'' 5,
     LCompleted ''ab'' sample_result, LDelivered ''ab'' sample_result]"

lemma broker_run_snoc:
  "run broker_step (broker_init p t) tr s \<Longrightarrow> broker_step s l s' \<Longrightarrow> tr' = tr @ [l] \<Longrightarrow>
   run broker_step (broker_init p t) tr' s'"
  by (simp add: run_step)

lemma sample_run: "\<exists>s. run broker_step (broker_init 120 300) sample_tr s"
proof -
  define ds where "ds = replicate 6 (0::nat)"
  have ds: "draws_ok ds" "code_of_draws ds = ''222222''"
    by (simp_all add: ds_def draws_ok_def code_of_draws_def CODE_ALPHABET_def numeral_eq_Suc)
  obtain c1 st1 where st1: "create 0 0 7 ''ab'' ds ''restart'' [] (new_store 120 300) = (c1, st1)"
    by (cases "create 0 0 7 ''ab'' ds ''restart'' [] (new_store 120 300)")
  define s1 where "s1 = \<lparr>sys_store = st1, sys_running = {}, sys_used = {''ab''}\<rparr>"
  have code: "cr_code c1 = ''222222''"
    using st1 by (auto simp: create_def Let_def ds)
  have "broker_step (broker_init 120 300) (LCreated ''ab'' ''222222'' 120) s1"
    using broker_step.step_create [of "''ab''" "broker_init 120 300" ds 0 0 7 "''restart''" "[]" c1 st1]
      st1 code ds by (simp add: broker_init_def new_store_def s1_def)
  from broker_run_snoc [OF run_start this]
  have 1: "run broker_step (broker_init 120 300) [LCreated ''ab'' ''222222'' 120] s1" by simp
  from st1 obtain r1 where r1: "snapshot ''ab'' st1 = Some r1" "req_state r1 = Pending ''222222'' 120"
    using code create_store(1,3) [OF st1] by (auto simp: new_store_def)
  define st2 where "st2 = set_state ''ab'' r1 Executing st1"
  define s2 where "s2 = \<lparr>sys_store = st2, sys_running = {''ab''}, sys_used = {''ab''}\<rparr>"
  have "approve 5 ''ab'' ''222222'' st1 = (Inr (req_action_id r1), st2)"
    using r1 by (simp add: approve_def snapshot_def ct_eq_iff st2_def)
  then have "broker_step s1 (LApproved ''ab'' ''222222'' 5) s2"
    using broker_step.step_approve [of 5 "''ab''" "''222222''" s1] by (simp add: s1_def s2_def)
  from broker_run_snoc [OF 1 this]
  have 2: "run broker_step (broker_init 120 300) [LCreated ''ab'' ''222222'' 120,
      LApproved ''ab'' ''222222'' 5] s2" by simp
  define st3 where "st3 = complete 9 ''ab'' sample_result st2"
  define s3 where "s3 = \<lparr>sys_store = st3, sys_running = {}, sys_used = {''ab''}\<rparr>"
  have "broker_step s2 (LCompleted ''ab'' sample_result) s3"
    using broker_step.step_complete [of "''ab''" s2 sample_result 9]
    by (simp add: s2_def s3_def st3_def)
  from broker_run_snoc [OF 2 this]
  have 3: "run broker_step (broker_init 120 300) [LCreated ''ab'' ''222222'' 120,
      LApproved ''ab'' ''222222'' 5, LCompleted ''ab'' sample_result] s3" by simp
  have "snapshot ''ab'' st2 \<noteq> None" by (simp add: st2_def)
  then obtain r3 e where "snapshot ''ab'' st3 = Some r3" "req_state r3 = Completed sample_result False e"
    by (cases rule: complete_cases [of "''ab''" st2 9 sample_result]) (auto simp: st3_def)
  then have "deliver ''ab'' st3 =
      (Some sample_result, set_state ''ab'' r3 (Completed sample_result True e) st3)"
    by (simp add: deliver_def snapshot_def)
  then obtain s4 where "broker_step s3 (LDelivered ''ab'' sample_result) s4"
    using broker_step.step_deliver [of "''ab''" s3] by (auto simp: s3_def)
  from broker_run_snoc [OF 3 this] show ?thesis by (auto simp: sample_tr_def)
qed

lemma approved_at_most_once_witness:
  "length (filter (is_approval ''ab'') sample_tr) \<le> 1"
  using sample_run approved_at_most_once by blast

lemma delivered_at_most_once_witness:
  "length (filter (is_delivery ''ab'') sample_tr) \<le> 1"
  using sample_run delivered_at_most_once by blast

lemma delivery_was_approved_witness:
  "\<exists>code exp now. now < exp \<and> subseq [LCreated ''ab'' code exp, LApproved ''ab'' code now,
     LCompleted ''ab'' sample_result, LDelivered ''ab'' sample_result] sample_tr"
proof -
  from sample_run obtain s where "run broker_step (broker_init 120 300) sample_tr s" by blast
  then show ?thesis
    by (rule delivery_was_approved) (simp add: sample_tr_def)
qed

definition sample_store :: request_store where
  "sample_store = \<lparr>pending_ttl = 120, result_ttl = 300, requests = [(''ab'',
     \<lparr>req_id = ''ab'', req_action_id = ''restart'', req_reason = [], req_created_at = 7,
      req_purge_at = 420, req_state = Pending ''222222'' 120\<rparr>)]\<rparr>"

lemma sweep_spec_witness:
  "fst (sweep 120 sample_store) = [''ab''] \<and>
   map_option req_state (snapshot ''ab'' (snd (sweep 120 sample_store))) = Some Expired"
proof -
  have "store_wf sample_store" by (simp add: store_wf_def sample_store_def)
  moreover obtain ex st' where eq: "sweep 120 sample_store = (ex, st')"
    by (cases "sweep 120 sample_store")
  ultimately have "snapshot ''ab'' st' = (case snapshot ''ab'' sample_store of None \<Rightarrow> None | Some r \<Rightarrow>
      (case req_state r of
         Pending code e \<Rightarrow>
           if e \<le> 120 then Some (r\<lparr>req_state := Expired, req_purge_at := 120 + result_ttl sample_store\<rparr>)
           else if req_purge_at r \<le> 120 then None else Some r
       | Completed x d e \<Rightarrow> if e \<le> 120 \<or> req_purge_at r \<le> 120 then None else Some r
       | _ \<Rightarrow> if req_purge_at r \<le> 120 then None else Some r))"
    using sweep_spec by blast
  moreover have "ex = [''ab'']"
    using eq by (simp add: sweep_def sample_store_def goes_stale_def Let_def)
  ultimately show ?thesis unfolding eq by (simp add: snapshot_def sample_store_def)
qed

text \<open>
  Two corners.  An approval or a denial that finds the request expired changes its state
  without reporting it, so no sweep will report that expiry; and a request whose action
  outlives the pending and result windows is purged while executing, and its result is lost.
\<close>

lemma late_approval_hides_expiry:
  "let (res, st) = approve 120 ''ab'' ''222222'' sample_store in
   res = Inl (NotPending ''request already expired'') \<and> fst (sweep 121 st) = []"
  by (simp add: approve_def sample_store_def set_state_def sweep_def goes_stale_def Let_def)

lemma slow_action_loses_result:
  "let st1 = snd (approve 5 ''ab'' ''222222'' sample_store); st2 = snd (sweep 420 st1);
       st3 = complete 421 ''ab'' sample_result st2
   in fst (deliver ''ab'' st3) = None"
  by code_simp

end
