(* ===== verification/Json_Codec.thy ===== *)
theory Json_Codec
  imports Json
begin

section \<open>JSON text: what the program relies on\<close>

text \<open>
  Printing and parsing JSON text is the \<open>serde_json\<close> crate.  The locale \<open>json_codec\<close>
  states what the program relies on: a key-sorted value without floating-point numbers is
  read back as it was printed, and compact output is one non-blank line (control characters
  are escaped).  Components take the two functions as arguments and their properties have
  the locale predicate as hypothesis.  \<open>wire_print\<close> and \<open>wire_parse\<close> are a codec with
  these laws, so that they can be met.
\<close>

fun float_free :: "json \<Rightarrow> bool" where
  "float_free (JNum (FloatNum t)) \<longleftrightarrow> False"
| "float_free (JArr vs) \<longleftrightarrow> list_all float_free vs"
| "float_free (JObj kvs) \<longleftrightarrow> list_all (\<lambda>(k, v). float_free v) kvs"
| "float_free v \<longleftrightarrow> True"

definition plain_json :: "json \<Rightarrow> bool" where
  "plain_json v \<longleftrightarrow> json_wf v \<and> float_free v"

abbreviation LF :: char where "LF \<equiv> CHR 0x0A"
abbreviation CR :: char where "CR \<equiv> CHR 0x0D"

locale json_codec =
  fixes to_string :: "json \<Rightarrow> string" and from_str :: "string \<Rightarrow> string + json"
  assumes parse_print: "plain_json v \<Longrightarrow> from_str (to_string v) = Inr v"
    and one_line: "plain_json v \<Longrightarrow> LF \<notin> set (to_string v) \<and> CR \<notin> set (to_string v)"
    and not_blank: "plain_json v \<Longrightarrow> trim (to_string v) \<noteq> []"
begin

lemma print_inj:
  assumes "plain_json v" and "plain_json w" and "to_string v = to_string w"
  shows "v = w"
  by (metis assms parse_print sum.inject(2))

end

lemma plain_json_insert:
  assumes "plain_json (JObj m)" and "plain_json v"
  shows "plain_json (JObj (map_insert k v m))"
proof -
  have "list_all (\<lambda>(k, v). float_free v) (map_insert k v m)"
    if "list_all (\<lambda>(k, v). float_free v) m" "float_free v" for m
    using that by (induction m) auto
  moreover have "list_all (\<lambda>(k, v). json_wf v) (map_insert k v m)"
    if "list_all (\<lambda>(k, v). json_wf v) m" "json_wf v" for m
    using that by (induction m) auto
  ultimately show ?thesis using assms by (simp add: plain_json_def sorted_keys_insert)
qed

lemma plain_json_obj:
  assumes "\<And>k v. (k, v) \<in> set kvs \<Longrightarrow> plain_json v"
  shows "plain_json (json_obj kvs)"
proof -
  have gen: "plain_json (JObj (foldl (\<lambda>m (k, v). map_insert k v m) m kvs))"
    if "plain_json (JObj m)" "\<And>k v. (k, v) \<in> set kvs \<Longrightarrow> plain_json v" for m kvs
    using that by (induction kvs arbitrary: m) (auto intro: plain_json_insert)
  show ?thesis unfolding json_obj_def
    by (rule gen) (use assms in \<open>simp_all add: plain_json_def sorted_keys_def\<close>)
qed

lemma plain_json_atom [simp]:
  "plain_json JNull" "plain_json (JBool b)" "plain_json (JStr s)"
  "plain_json (JNum (PosInt w))" "plain_json (JNum (NegInt w))"
  "plain_json (JArr vs) \<longleftrightarrow> (\<forall>v \<in> set vs. plain_json v)"
  by (auto simp: plain_json_def list_all_iff)

text \<open>The same for a text that ends in a line feed, as responses of the daemon do.\<close>

locale json_lines = json_codec +
  assumes parse_line: "plain_json v \<Longrightarrow> from_str (to_string v @ [LF]) = Inr v"

subsection \<open>Lines of a file\<close>

text \<open>\<open>str::lines\<close>: split at line feeds, a final empty line dropped, one CR cut.\<close>

definition chomp_cr :: "string \<Rightarrow> string" where
  "chomp_cr l = (case strip_suffix [CR] l of Some l' \<Rightarrow> l' | None \<Rightarrow> l)"

definition str_lines :: "string \<Rightarrow> string list" where
  "str_lines s =
     (let parts = split_on LF s
      in map chomp_cr (if last parts = [] then butlast parts else parts))"

lemma chomp_cr_id: "CR \<notin> set l \<Longrightarrow> chomp_cr l = l"
  by (auto simp: chomp_cr_def strip_suffix_Some_iff split: option.splits)

lemma str_lines_append:
  assumes "LF \<notin> set l" and "CR \<notin> set l"
  shows "str_lines (l @ LF # s) = l # str_lines s"
proof -
  have "split_on LF (l @ LF # s) = l # split_on LF s"
    using split_on_append_sep [of LF l s] split_on_single [OF assms(1)] by simp
  then show ?thesis
    by (simp add: str_lines_def Let_def chomp_cr_id [OF assms(2)])
qed

lemma str_lines_Nil [simp]: "str_lines [] = []"
  by (simp add: str_lines_def)

lemma str_lines_unlines:
  "\<forall>l \<in> set ls. LF \<notin> set l \<and> CR \<notin> set l \<Longrightarrow> str_lines (concat (map (\<lambda>l. l @ [LF]) ls)) = ls"
  by (induction ls) (simp_all add: str_lines_append)

subsection \<open>A codec with the laws\<close>

text \<open>Every byte as two letters, a string ended by a full stop.\<close>

definition nibble :: "nat \<Rightarrow> char" where
  "nibble n = char_of (97 + n)"

fun wire_str :: "string \<Rightarrow> string" where
  "wire_str [] = ''.''"
| "wire_str (c # s) = nibble (byte_of c div 16) # nibble (byte_of c mod 16) # wire_str s"

fun unwire_str :: "string \<Rightarrow> (string \<times> string) option" where
  "unwire_str [] = None"
| "unwire_str [x] = (if x = CHR ''.'' then Some ([], []) else None)"
| "unwire_str (x # y # s) =
     (if x = CHR ''.'' then Some ([], y # s)
      else map_option (\<lambda>(t, r). (char_of ((byte_of x - 97) * 16 + (byte_of y - 97)) # t, r))
        (unwire_str s))"

fun wire_print :: "json \<Rightarrow> string" where
  "wire_print JNull = ''n''"
| "wire_print (JBool b) = (if b then ''t'' else ''f'')"
| "wire_print (JNum (PosInt w)) = CHR ''p'' # wire_str (nat_dec (unat w))"
| "wire_print (JNum (NegInt w)) = CHR ''m'' # wire_str (nat_dec (unat w))"
| "wire_print (JNum (FloatNum t)) = CHR ''d'' # wire_str t"
| "wire_print (JStr s) = CHR ''s'' # wire_str s"
| "wire_print (JArr vs) = CHR ''['' # concat (map wire_print vs) @ '']''"
| "wire_print (JObj kvs) =
     CHR ''{'' # concat (map (\<lambda>(k, v). CHR '':'' # wire_str k @ wire_print v) kvs) @ ''}''"

fun unwire_list ::
  "(string \<Rightarrow> (json \<times> string) option) \<Rightarrow> nat \<Rightarrow> string \<Rightarrow> (json list \<times> string) option" where
  "unwire_list dec 0 s = None"
| "unwire_list dec (Suc n) s =
     (case s of
        [] \<Rightarrow> None
      | c # r \<Rightarrow>
          if c = CHR '']'' then Some ([], r)
          else (case dec s of
            None \<Rightarrow> None
          | Some (v, r') \<Rightarrow> map_option (\<lambda>(vs, t). (v # vs, t)) (unwire_list dec n r')))"

fun unwire_obj ::
  "(string \<Rightarrow> (json \<times> string) option) \<Rightarrow> nat \<Rightarrow> string \<Rightarrow> ((string \<times> json) list \<times> string) option"
  where
  "unwire_obj dec 0 s = None"
| "unwire_obj dec (Suc n) s =
     (case s of
        [] \<Rightarrow> None
      | c # r \<Rightarrow>
          if c = CHR ''}'' then Some ([], r)
          else (case unwire_str r of
            None \<Rightarrow> None
          | Some (k, r') \<Rightarrow>
              (case dec r' of
                None \<Rightarrow> None
              | Some (v, r'') \<Rightarrow> map_option (\<lambda>(kvs, t). ((k, v) # kvs, t)) (unwire_obj dec n r''))))"

definition unwire_num :: "(64 word \<Rightarrow> jnumber) \<Rightarrow> string \<Rightarrow> (json \<times> string) option" where
  "unwire_num mk s = (case unwire_str s of
     None \<Rightarrow> None
   | Some (t, r) \<Rightarrow> map_option (\<lambda>n. (JNum (mk (word_of_nat n)), r)) (parse_index t))"

fun unwire :: "nat \<Rightarrow> string \<Rightarrow> (json \<times> string) option" where
  "unwire 0 s = None"
| "unwire (Suc n) [] = None"
| "unwire (Suc n) (c # s) =
     (if c = CHR ''n'' then Some (JNull, s)
      else if c = CHR ''t'' then Some (JBool True, s)
      else if c = CHR ''f'' then Some (JBool False, s)
      else if c = CHR ''p'' then unwire_num PosInt s
      else if c = CHR ''m'' then unwire_num NegInt s
      else if c = CHR ''d'' then map_option (\<lambda>(t, r). (JNum (FloatNum t), r)) (unwire_str s)
      else if c = CHR ''s'' then map_option (\<lambda>(t, r). (JStr t, r)) (unwire_str s)
      else if c = CHR ''['' then map_option (\<lambda>(vs, r). (JArr vs, r)) (unwire_list (unwire n) (Suc n) s)
      else if c = CHR ''{'' then map_option (\<lambda>(kvs, r). (JObj kvs, r)) (unwire_obj (unwire n) (Suc n) s)
      else None)"

definition wire_parse :: "string \<Rightarrow> string + json" where
  "wire_parse s = (case unwire (length s) s of
     Some (v, r) \<Rightarrow> if r = [] \<or> r = [LF] then Inr v else Inl ''not a value''
   | None \<Rightarrow> Inl ''not a value'')"

lemma byte_of_nibble: "n < 16 \<Longrightarrow> byte_of (nibble n) = 97 + n"
  by (simp add: nibble_def)

lemma nibble_not_stop: "n < 16 \<Longrightarrow> nibble n \<noteq> CHR ''.''"
  using byte_of_nibble [of n] by auto

lemma unwire_wire_str: "unwire_str (wire_str s @ r) = Some (s, r)"
proof (induction s)
  case Nil
  show ?case by (cases r) simp_all
next
  case (Cons c s)
  have b: "byte_of c < 256" by (rule nat_of_char_less_256)
  then have "byte_of c div 16 < 16" and "byte_of c mod 16 < 16"
    by (simp_all add: div_less_iff_less_mult)
  moreover have "char_of (byte_of c div 16 * 16 + byte_of c mod 16) = c" by simp
  ultimately show ?case using Cons by (simp add: byte_of_nibble nibble_not_stop)
qed

lemma unwire_num_wire:
  "unwire_num mk (wire_str (nat_dec (unat w)) @ r) = Some (JNum (mk w), r)"
  by (simp add: unwire_num_def unwire_wire_str parse_index_nat_dec)

lemma wire_print_ne: "wire_print v \<noteq> []"
  by (cases v rule: wire_print.cases) simp_all

lemma wire_print_head:
  "\<exists>c t. wire_print v = c # t \<and> c \<noteq> CHR '']'' \<and> c \<noteq> CHR ''}''"
  by (cases v rule: wire_print.cases) simp_all

lemma unwire_list_wire:
  assumes "\<And>v r. v \<in> set vs \<Longrightarrow> dec (wire_print v @ r) = Some (v, r)" and "length vs < n"
  shows "unwire_list dec n (concat (map wire_print vs) @ CHR '']'' # r) = Some (vs, r)"
  using assms
proof (induction vs arbitrary: n)
  case Nil
  then show ?case by (cases n) simp_all
next
  case (Cons v vs)
  then obtain m where n: "n = Suc m" "length vs < m" by (cases n) auto
  obtain c t where c: "wire_print v = c # t" "c \<noteq> CHR '']''" using wire_print_head by blast
  have "unwire_list dec m (concat (map wire_print vs) @ CHR '']'' # r) = Some (vs, r)"
    by (rule Cons.IH) (use Cons.prems(1) n in auto)
  moreover have "dec (c # t @ concat (map wire_print vs) @ CHR '']'' # r) =
      Some (v, concat (map wire_print vs) @ CHR '']'' # r)"
    using Cons.prems(1) [of v] c(1) by simp
  ultimately show ?case using c by (simp add: n(1))
qed

lemma unwire_obj_wire:
  assumes "\<And>k v r. (k, v) \<in> set kvs \<Longrightarrow> dec (wire_print v @ r) = Some (v, r)" and "length kvs < n"
  shows "unwire_obj dec n (concat (map (\<lambda>(k, v). CHR '':'' # wire_str k @ wire_print v) kvs)
    @ CHR ''}'' # r) = Some (kvs, r)"
  using assms
proof (induction kvs arbitrary: n)
  case Nil
  then show ?case by (cases n) simp_all
next
  case (Cons p kvs)
  then obtain m where n: "n = Suc m" "length kvs < m" by (cases n) auto
  obtain k v where p: "p = (k, v)" by (cases p)
  let ?rest = "concat (map (\<lambda>(k, v). CHR '':'' # wire_str k @ wire_print v) kvs) @ CHR ''}'' # r"
  have "unwire_obj dec m ?rest = Some (kvs, r)"
    by (rule Cons.IH) (use Cons.prems(1) n in auto)
  moreover have "dec (wire_print v @ ?rest) = Some (v, ?rest)"
    using Cons.prems(1) [of k v] p by simp
  ultimately show ?case by (simp add: p n(1) unwire_wire_str)
qed

lemma length_concat_ge: "\<forall>x \<in> set xs. x \<noteq> [] \<Longrightarrow> length xs \<le> length (concat xs)"
proof (induction xs)
  case (Cons x xs)
  then show ?case by (cases x) simp_all
qed simp

lemma length_concat_mem: "x \<in> set xs \<Longrightarrow> length x \<le> length (concat xs)"
  by (induction xs) auto

lemma unwire_wire: "length (wire_print v) \<le> n \<Longrightarrow> unwire n (wire_print v @ r) = Some (v, r)"
proof (induction v arbitrary: n r)
  case JNull
  then show ?case by (cases n) simp_all
next
  case (JStr t)
  then show ?case by (cases n) (simp_all add: unwire_wire_str)
next
  case (JNum x)
  then obtain m where "n = Suc m" by (cases n; cases x) auto
  then show ?case by (cases x) (simp_all add: unwire_num_wire unwire_wire_str)
next
  case (JArr vs)
  then obtain m where n: "n = Suc m" by (cases n) auto
  have len: "length (concat (map wire_print vs)) \<le> m" using JArr.prems n by simp
  have "unwire m (wire_print v @ t) = Some (v, t)" if "v \<in> set vs" for v t
    using JArr.IH [OF that] len length_concat_mem [of "wire_print v" "map wire_print vs"] that
    by simp
  moreover have "length vs \<le> length (concat (map wire_print vs))"
    using length_concat_ge [of "map wire_print vs"] by (simp add: wire_print_ne)
  ultimately have "unwire_list (unwire m) (Suc m) (concat (map wire_print vs) @ CHR '']'' # r) = Some (vs, r)"
    using len by (intro unwire_list_wire) auto
  then show ?case by (simp add: n del: unwire_list.simps)
next
  case (JObj kvs)
  let ?parts = "map (\<lambda>(k, v). CHR '':'' # wire_str k @ wire_print v) kvs"
  from JObj.prems obtain m where n: "n = Suc m" by (cases n) auto
  have len: "length (concat ?parts) \<le> m" using JObj.prems n by simp
  have "unwire m (wire_print v @ t) = Some (v, t)" if "(k, v) \<in> set kvs" for k v t
  proof -
    have "CHR '':'' # wire_str k @ wire_print v \<in> set ?parts" using that by force
    from length_concat_mem [OF this] len have "length (wire_print v) \<le> m" by simp
    then show ?thesis using JObj.IH [OF that, of v] by simp
  qed
  moreover have "length kvs \<le> length (concat ?parts)"
    using length_concat_ge [of ?parts] by (simp add: split_beta)
  ultimately have "unwire_obj (unwire m) (Suc m) (concat ?parts @ CHR ''}'' # r) = Some (kvs, r)"
    using len by (intro unwire_obj_wire) auto
  then show ?case by (simp add: n del: unwire_obj.simps)
next
  case (JBool b)
  then show ?case by (cases n; cases b) simp_all
qed

text \<open>The bytes the wire format uses are printable.\<close>

definition wire_byte :: "char \<Rightarrow> bool" where
  "wire_byte c \<longleftrightarrow> 33 \<le> byte_of c \<and> byte_of c < 127"

lemma wire_byte_letters:
  "wire_byte (CHR ''n'')" "wire_byte (CHR ''t'')" "wire_byte (CHR ''f'')" "wire_byte (CHR ''p'')"
  "wire_byte (CHR ''m'')" "wire_byte (CHR ''d'')" "wire_byte (CHR ''s'')" "wire_byte (CHR '':'')"
  "wire_byte (CHR ''['')" "wire_byte (CHR '']'')" "wire_byte (CHR ''{'')" "wire_byte (CHR ''}'')"
  by (simp_all add: wire_byte_def)

lemma wire_str_bytes: "c \<in> set (wire_str s) \<Longrightarrow> wire_byte c"
proof (induction s)
  case (Cons x s)
  have "byte_of x < 256" by (rule nat_of_char_less_256)
  then have "byte_of x div 16 < 16" by (simp add: div_less_iff_less_mult)
  with Cons show ?case by (auto simp: wire_byte_def byte_of_nibble)
qed (simp add: wire_byte_def)

lemma wire_print_bytes: "c \<in> set (wire_print v) \<Longrightarrow> wire_byte c"
proof (induction v arbitrary: c)
  case (JNum x)
  then show ?case by (cases x) (auto dest: wire_str_bytes simp: wire_byte_letters)
next
  case (JObj kvs)
  then consider "wire_byte c" | k v where "(k, v) \<in> set kvs" "c \<in> set (wire_print v)"
    by (auto dest: wire_str_bytes simp: wire_byte_letters)
  then show ?case using JObj.IH by cases auto
qed (auto dest: wire_str_bytes simp: wire_byte_letters split: if_splits)

text \<open>A text that starts with a printable ASCII byte is not blank.\<close>

lemma trim_printable: "wire_byte c \<Longrightarrow> trim (c # s) \<noteq> []"
proof -
  assume c: "wire_byte c"
  let ?ch = "c # takeWhile is_utf8_cont s"
  have nw: "\<not> char_is_whitespace ?ch"
    using c by (auto simp: char_is_whitespace_def wire_byte_def)
  have "dropWhile char_is_whitespace (utf8_chars (c # s)) = utf8_chars (c # s)"
    using nw by simp
  moreover have "?ch \<in> set (dropWhile char_is_whitespace (rev (utf8_chars (c # s))))"
    using nw by (simp add: dropWhile_append)
  ultimately show ?thesis
    unfolding trim_def by (auto simp del: utf8_chars.simps)
qed

lemma wire_parse_print: "wire_parse (wire_print v) = Inr v"
  using unwire_wire [of v "length (wire_print v)" "[]"] by (simp add: wire_parse_def)

lemma wire_parse_line: "wire_parse (wire_print v @ [LF]) = Inr v"
  using unwire_wire [of v "length (wire_print v @ [LF])" "[LF]"] by (simp add: wire_parse_def)

interpretation wire: json_lines wire_print wire_parse
proof unfold_locales
  fix v
  show "wire_parse (wire_print v) = Inr v" by (rule wire_parse_print)
  show "wire_parse (wire_print v @ [LF]) = Inr v" by (rule wire_parse_line)
  show "LF \<notin> set (wire_print v) \<and> CR \<notin> set (wire_print v)"
    using wire_print_bytes [of LF v] wire_print_bytes [of CR v] by (auto simp: wire_byte_def)
  obtain c t where "wire_print v = c # t" using wire_print_head by blast
  with wire_print_bytes [of c v] trim_printable show "trim (wire_print v) \<noteq> []" by simp
qed

end
