(* ===== verification/Audit_Chain.thy ===== *)
theory Audit_Chain
  imports Runs Json_Codec
begin

section \<open>The hash-chained audit log (src/security/audit\_chain.rs)\<close>

text \<open>
  Writer and verifier of the log.  Parameters: the JSON codec and \<open>digest\<close>, the hex of
  SHA-256 of a byte string.  Sequence numbers are \<open>u64\<close> and wrap in both the writer and
  the verifier.  Printing a value cannot fail, so the \<open>.ok()?\<close> branches of the source
  are not taken.
\<close>

subsection \<open>The writer\<close>

definition GENESIS_HASH :: string where
  "GENESIS_HASH = replicate 64 (CHR ''0'')"

record writer_state =
  w_seq :: "64 word"
  w_prev :: string

definition genesis :: writer_state where
  "genesis = \<lparr>w_seq = 0, w_prev = GENESIS_HASH\<rparr>"

definition chain_hash :: "(json \<Rightarrow> string) \<Rightarrow> (string \<Rightarrow> string) \<Rightarrow> string \<Rightarrow> (string \<times> json) list \<Rightarrow> string"
  where
  "chain_hash to_str digest prev object = digest (prev @ to_str (JObj object))"

definition append_line ::
  "(json \<Rightarrow> string) \<Rightarrow> (string \<Rightarrow> string) \<Rightarrow> json \<Rightarrow> writer_state \<Rightarrow> string option \<times> writer_state"
  where
  "append_line to_str digest event st =
     (case event of
        JObj kvs \<Rightarrow>
          (let seq = w_seq st + 1;
               object = map_insert ''prev'' (JStr (w_prev st))
                          (map_insert ''seq'' (JNum (PosInt seq)) kvs);
               hash = chain_hash to_str digest (w_prev st) object
           in (Some (to_str (JObj (map_insert ''hash'' (JStr hash) object)) @ [LF]),
               \<lparr>w_seq = seq, w_prev = hash\<rparr>))
      | _ \<Rightarrow> (None, st))"

text \<open>The writer task: every queued event, in order, is appended to the file.\<close>

fun write_events ::
  "(json \<Rightarrow> string) \<Rightarrow> (string \<Rightarrow> string) \<Rightarrow> json list \<Rightarrow> string \<Rightarrow> writer_state \<Rightarrow>
   string \<times> writer_state" where
  "write_events to_str digest [] content st = (content, st)"
| "write_events to_str digest (event # events) content st =
     (case append_line to_str digest event st of
        (Some line, st') \<Rightarrow> write_events to_str digest events (content @ line) st'
      | (None, st') \<Rightarrow> write_events to_str digest events content st')"

text \<open>
  The same with the outcome of each append: where writing fails, the line is not in the file, but
  the state of the writer has moved on.
\<close>

fun write_outcomes ::
  "(json \<Rightarrow> string) \<Rightarrow> (string \<Rightarrow> string) \<Rightarrow> (json \<times> bool) list \<Rightarrow> string \<Rightarrow> writer_state \<Rightarrow>
   string \<times> writer_state" where
  "write_outcomes to_str digest [] content st = (content, st)"
| "write_outcomes to_str digest ((event, written) # events) content st =
     (case append_line to_str digest event st of
        (Some line, st') \<Rightarrow>
          write_outcomes to_str digest events (if written then content @ line else content) st'
      | (None, st') \<Rightarrow> write_outcomes to_str digest events content st')"

lemma write_outcomes_all_written:
  "write_outcomes to_str digest (map (\<lambda>e. (e, True)) events) content st =
   write_events to_str digest events content st"
  by (induction events arbitrary: content st) (auto split: prod.splits option.splits)

subsection \<open>Resuming\<close>

datatype file_read = NotFound string | ReadError string | Content string

definition blank :: "string \<Rightarrow> bool" where
  "blank l \<longleftrightarrow> trim l = []"

fun recover_loop ::
  "(string \<Rightarrow> string + json) \<Rightarrow> string list \<Rightarrow> nat \<Rightarrow> writer_state \<Rightarrow> string + writer_state" where
  "recover_loop from_str [] index st = Inr st"
| "recover_loop from_str (l # ls) index st =
     (if blank l then recover_loop from_str ls (index + 1) st
      else (case from_str l of
          Inl e \<Rightarrow> Inl (''line '' @ nat_dec (index + 1) @ '' is not valid JSON: '' @ e)
        | Inr v \<Rightarrow> recover_loop from_str ls (index + 1)
            \<lparr>w_seq = (case Option.bind (obj_get v ''seq'') as_u64 of Some n \<Rightarrow> n | None \<Rightarrow> 0),
             w_prev = (case Option.bind (obj_get v ''hash'') as_str of
                Some h \<Rightarrow> h | None \<Rightarrow> GENESIS_HASH)\<rparr>))"

definition recover_tip :: "(string \<Rightarrow> string + json) \<Rightarrow> file_read \<Rightarrow> string + writer_state" where
  "recover_tip from_str file =
     (case file of
        NotFound e \<Rightarrow> Inr genesis
      | ReadError e \<Rightarrow> Inl e
      | Content content \<Rightarrow> recover_loop from_str (str_lines content) 0 genesis)"

text \<open>One process: open the chain, write the events, stop.\<close>

definition audit_session ::
  "(json \<Rightarrow> string) \<Rightarrow> (string \<Rightarrow> string + json) \<Rightarrow> (string \<Rightarrow> string) \<Rightarrow> json list \<Rightarrow> file_read \<Rightarrow>
   string + string" where
  "audit_session to_str from_str digest events file =
     (case recover_tip from_str file of
        Inl e \<Rightarrow> Inl (''failed to read existing audit chain: '' @ e)
      | Inr st \<Rightarrow> Inr (fst (write_events to_str digest events
          (case file of Content c \<Rightarrow> c | _ \<Rightarrow> []) st)))"

subsection \<open>The verifier\<close>

record chain_report =
  rep_lines :: "64 word"
  rep_last_hash :: string

record chain_broken =
  broken_line :: "64 word"
  broken_reason :: string

definition broken :: "64 word \<Rightarrow> string \<Rightarrow> chain_broken + 'a" where
  "broken n reason = Inl \<lparr>broken_line = n, broken_reason = reason\<rparr>"

definition u64_dec :: "64 word \<Rightarrow> string" where
  "u64_dec w = nat_dec (unat w)"

definition check_line ::
  "(json \<Rightarrow> string) \<Rightarrow> (string \<Rightarrow> string + json) \<Rightarrow> (string \<Rightarrow> string) \<Rightarrow> string \<Rightarrow>
   64 word \<Rightarrow> string \<Rightarrow> 64 word \<Rightarrow> chain_broken + string" where
  "check_line to_str from_str digest raw expected prev line_number =
     (case from_str raw of
        Inl e \<Rightarrow> broken line_number (''not valid JSON: '' @ e)
      | Inr v \<Rightarrow>
     (case as_object v of
        None \<Rightarrow> broken line_number ''line is not a JSON object''
      | Some object \<Rightarrow>
     (case Option.bind (map_of object ''seq'') as_u64 of
        None \<Rightarrow> broken line_number ''missing seq''
      | Some seq \<Rightarrow>
     if seq \<noteq> expected
     then broken line_number (''expected seq '' @ u64_dec expected @ '', found '' @ u64_dec seq)
     else
     (case Option.bind (map_of object ''hash'') as_str of
        None \<Rightarrow> broken line_number ''missing hash''
      | Some stored \<Rightarrow>
          (let stored_prev =
             (case Option.bind (map_of object ''prev'') as_str of Some p \<Rightarrow> p | None \<Rightarrow> [])
           in if stored_prev \<noteq> prev
              then broken line_number ''prev does not link to the previous line's hash''
              else if chain_hash to_str digest prev (map_remove ''hash'' object) \<noteq> stored
              then broken line_number ''hash mismatch: line was modified after it was written''
              else Inr stored)))))"

fun verify_loop ::
  "(json \<Rightarrow> string) \<Rightarrow> (string \<Rightarrow> string + json) \<Rightarrow> (string \<Rightarrow> string) \<Rightarrow> string list \<Rightarrow>
   64 word \<Rightarrow> string \<Rightarrow> 64 word \<Rightarrow> chain_broken + chain_report" where
  "verify_loop to_str from_str digest [] expected prev n = Inr \<lparr>rep_lines = n, rep_last_hash = prev\<rparr>"
| "verify_loop to_str from_str digest (raw # ls) expected prev n =
     (if blank raw then verify_loop to_str from_str digest ls expected prev n
      else (case check_line to_str from_str digest raw expected prev (n + 1) of
          Inl b \<Rightarrow> Inl b
        | Inr stored \<Rightarrow> verify_loop to_str from_str digest ls (expected + 1) stored (n + 1)))"

definition verify ::
  "(json \<Rightarrow> string) \<Rightarrow> (string \<Rightarrow> string + json) \<Rightarrow> (string \<Rightarrow> string) \<Rightarrow> file_read \<Rightarrow>
   chain_broken + chain_report" where
  "verify to_str from_str digest file =
     (case file of
        NotFound e \<Rightarrow> broken 0 (''cannot read log: '' @ e)
      | ReadError e \<Rightarrow> broken 0 (''cannot read log: '' @ e)
      | Content content \<Rightarrow>
          verify_loop to_str from_str digest (str_lines content) 1 GENESIS_HASH 0)"

text \<open>Processes one after the other on the same file.\<close>

fun audit_sessions ::
  "(json \<Rightarrow> string) \<Rightarrow> (string \<Rightarrow> string + json) \<Rightarrow> (string \<Rightarrow> string) \<Rightarrow> json list list \<Rightarrow>
   file_read \<Rightarrow> string + file_read" where
  "audit_sessions to_str from_str digest [] file = Inr file"
| "audit_sessions to_str from_str digest (b # bs) file =
     (case audit_session to_str from_str digest b file of
        Inl e \<Rightarrow> Inl e
      | Inr c \<Rightarrow> audit_sessions to_str from_str digest bs (Content c))"

subsection \<open>The loops on concatenated lines\<close>

lemma verify_loop_append:
  "verify_loop p q d (ls @ ms) (n + 1) prev n =
     (case verify_loop p q d ls (n + 1) prev n of
        Inl b \<Rightarrow> Inl b
      | Inr r \<Rightarrow> verify_loop p q d ms (rep_lines r + 1) (rep_last_hash r) (rep_lines r))"
proof (induction ls arbitrary: n prev)
  case (Cons l ls)
  have two: "n + 1 + 1 = 2 + n" by (simp add: add.commute)
  show ?case using Cons.IH [of "n + 1", unfolded two] Cons.IH [of n]
    by (auto simp: two split: sum.splits)
qed simp

lemma recover_loop_append:
  "recover_loop q (ls @ ms) i st =
     (case recover_loop q ls i st of
        Inl e \<Rightarrow> Inl e
      | Inr st' \<Rightarrow> recover_loop q ms (i + length ls) st')"
  by (induction ls arbitrary: i st) (auto split: sum.splits)

subsection \<open>A written line checks\<close>

text \<open>The events the program logs: objects without a \<open>hash\<close> field of their own.\<close>

definition event_ok :: "json \<Rightarrow> bool" where
  "event_ok v \<longleftrightarrow> (case v of JObj kvs \<Rightarrow> plain_json v \<and> map_of kvs ''hash'' = None | _ \<Rightarrow> True)"

definition is_obj :: "json \<Rightarrow> bool" where
  "is_obj v \<longleftrightarrow> (case v of JObj kvs \<Rightarrow> True | _ \<Rightarrow> False)"

definition clean_line :: "string \<Rightarrow> bool" where
  "clean_line l \<longleftrightarrow> LF \<notin> set l \<and> CR \<notin> set l \<and> \<not> blank l"

lemma map_remove_insert:
  assumes "sorted_keys m" and "map_of m k = None"
  shows "map_remove k (map_insert k v m) = m"
  using assms by (intro sorted_keys_eqI) (auto simp: fun_eq_iff sorted_keys_insert sorted_keys_remove)

lemma append_line_checks:
  assumes "json_codec to_str from_str" and "event_ok (JObj kvs)"
  obtains l st' where "append_line to_str digest (JObj kvs) st = (Some (l @ [LF]), st')"
    "clean_line l" "w_seq st' = w_seq st + 1"
    "check_line to_str from_str digest l (w_seq st + 1) (w_prev st) n = Inr (w_prev st')"
    "\<forall>i st0. recover_loop from_str [l] i st0 = Inr st'"
proof -
  let ?seq = "w_seq st + 1"
  define o1 where "o1 = map_insert ''prev'' (JStr (w_prev st)) (map_insert ''seq'' (JNum (PosInt ?seq)) kvs)"
  define h where "h = chain_hash to_str digest (w_prev st) o1"
  define o2 where "o2 = map_insert ''hash'' (JStr h) o1"
  have kvs: "plain_json (JObj kvs)" "map_of kvs ''hash'' = None"
    using assms(2) by (simp_all add: event_ok_def)
  have atom: "plain_json (JStr t)" "plain_json (JNum (PosInt w))" for t w
    by (simp_all add: plain_json_def)
  have o1: "plain_json (JObj o1)" unfolding o1_def by (intro plain_json_insert kvs atom)
  then have o2: "plain_json (JObj o2)" unfolding o2_def by (intro plain_json_insert atom)
  have none: "map_of o1 ''hash'' = None" using kvs(2) by (simp add: o1_def)
  have get: "map_of o2 ''seq'' = Some (JNum (PosInt ?seq))" "map_of o2 ''hash'' = Some (JStr h)"
    "map_of o2 ''prev'' = Some (JStr (w_prev st))"
    by (simp_all add: o2_def o1_def)
  have rm: "map_remove ''hash'' o2 = o1"
    unfolding o2_def using o1 none by (intro map_remove_insert) (simp_all add: plain_json_def)
  let ?l = "to_str (JObj o2)"
  have parse: "from_str ?l = Inr (JObj o2)" by (rule json_codec.parse_print [OF assms(1) o2])
  have clean: "clean_line ?l"
    using json_codec.one_line [OF assms(1) o2] json_codec.not_blank [OF assms(1) o2]
    by (simp add: clean_line_def blank_def)
  have app: "append_line to_str digest (JObj kvs) st = (Some (?l @ [LF]), \<lparr>w_seq = ?seq, w_prev = h\<rparr>)"
    by (simp add: append_line_def Let_def o2_def h_def o1_def)
  have chk: "check_line to_str from_str digest ?l ?seq (w_prev st) n = Inr h"
    using get rm by (simp add: check_line_def parse as_object_def as_u64_def as_str_def h_def)
  have "recover_loop from_str [?l] i st0 = Inr \<lparr>w_seq = ?seq, w_prev = h\<rparr>" for i st0
    using clean get by (simp add: clean_line_def parse obj_get_def as_u64_def as_str_def)
  with that [OF app clean _ _] chk show ?thesis by simp
qed

subsection \<open>What a writer leaves behind\<close>

text \<open>The lines of a file that verifies and leads back to the state \<open>st\<close>.\<close>

definition good_lines ::
  "(json \<Rightarrow> string) \<Rightarrow> (string \<Rightarrow> string + json) \<Rightarrow> (string \<Rightarrow> string) \<Rightarrow> string list \<Rightarrow> writer_state \<Rightarrow> bool"
  where
  "good_lines p q d ls st \<longleftrightarrow> list_all clean_line ls \<and>
     verify_loop p q d ls 1 GENESIS_HASH 0 = Inr \<lparr>rep_lines = w_seq st, rep_last_hash = w_prev st\<rparr> \<and>
     recover_loop q ls 0 genesis = Inr st"

definition unlines :: "string list \<Rightarrow> string" where
  "unlines ls = concat (map (\<lambda>l. l @ [LF]) ls)"

lemma unlines_append [simp]: "unlines (ls @ ms) = unlines ls @ unlines ms"
  by (simp add: unlines_def)

lemma unlines_single [simp]: "unlines [] = []" "unlines [l] = l @ [LF]"
  by (simp_all add: unlines_def)

lemma str_lines_clean: "list_all clean_line ls \<Longrightarrow> str_lines (unlines ls) = ls"
  unfolding unlines_def by (rule str_lines_unlines) (auto simp: list_all_iff clean_line_def)

lemma good_lines_Nil: "good_lines p q d [] genesis"
  by (simp add: good_lines_def genesis_def)

lemma good_lines_snoc:
  assumes "good_lines p q d ls st" and "clean_line l"
    and "check_line p q d l (w_seq st + 1) (w_prev st) (w_seq st + 1) = Inr (w_prev st')"
    and "w_seq st' = w_seq st + 1" and "\<forall>i st0. recover_loop q [l] i st0 = Inr st'"
  shows "good_lines p q d (ls @ [l]) st'"
proof -
  have "verify_loop p q d (ls @ [l]) 1 GENESIS_HASH 0 =
      Inr \<lparr>rep_lines = w_seq st', rep_last_hash = w_prev st'\<rparr>"
    using verify_loop_append [of p q d ls "[l]" 0 GENESIS_HASH] assms(1-4)
    by (simp add: good_lines_def clean_line_def)
  moreover have "recover_loop q (ls @ [l]) 0 genesis = Inr st'"
    using assms(1,5) unfolding recover_loop_append good_lines_def by simp
  ultimately show ?thesis using assms(1,2) by (simp add: good_lines_def)
qed

lemma write_events_good:
  assumes "json_codec to_str from_str" and "list_all event_ok events"
    and "good_lines to_str from_str digest ls st"
  shows "\<exists>ms st'. write_events to_str digest events (unlines ls) st = (unlines (ls @ ms), st') \<and>
    good_lines to_str from_str digest (ls @ ms) st' \<and> length ms = length (filter is_obj events) \<and>
    w_seq st' = w_seq st + of_nat (length ms)"
  using assms(2,3)
proof (induction events arbitrary: ls st)
  case Nil
  then show ?case by (intro exI [of _ "[]"]) simp
next
  case (Cons v events)
  show ?case
  proof (cases "is_obj v")
    case False
    then have "append_line to_str digest v st = (None, st)"
      by (auto simp: append_line_def is_obj_def split: json.splits)
    with Cons False show ?thesis by simp
  next
    case True
    then obtain kvs where v: "v = JObj kvs" by (cases v) (auto simp: is_obj_def)
    from Cons.prems(1) v have "event_ok (JObj kvs)" by simp
    then obtain l st1 where l: "append_line to_str digest (JObj kvs) st = (Some (l @ [LF]), st1)"
      "clean_line l" "w_seq st1 = w_seq st + 1"
      "check_line to_str from_str digest l (w_seq st + 1) (w_prev st) (w_seq st + 1) = Inr (w_prev st1)"
      "\<forall>i st0. recover_loop from_str [l] i st0 = Inr st1"
      by (rule append_line_checks [OF assms(1), where digest = digest and st = st and n = "w_seq st + 1"])
    have good: "good_lines to_str from_str digest (ls @ [l]) st1"
      by (rule good_lines_snoc [OF Cons.prems(2) l(2,4,3,5)])
    obtain ms st' where "write_events to_str digest events (unlines (ls @ [l])) st1 =
        (unlines ((ls @ [l]) @ ms), st')"
      "good_lines to_str from_str digest ((ls @ [l]) @ ms) st'"
      "length ms = length (filter is_obj events)" "w_seq st' = w_seq st1 + of_nat (length ms)"
      using Cons.IH [OF _ good] Cons.prems(1) by auto
    with l(1,3) v True show ?thesis
      by (intro exI [of _ "l # ms"] exI [of _ st']) (simp add: add.assoc)
  qed
qed

text \<open>
  One line that could not be written spoils the log: the next line of the same process carries a
  sequence number too high, and verification stops there.
\<close>

lemma check_line_expected:
  "check_line p q d raw expected prev n = Inr h \<Longrightarrow> expected' \<noteq> expected \<Longrightarrow>
   \<exists>b. check_line p q d raw expected' prev' n' = Inl b"
  by (auto simp: check_line_def broken_def Let_def split: sum.splits option.splits if_splits)

lemma lost_line_breaks:
  assumes "json_codec to_str from_str" and "event_ok (JObj e1)" "event_ok (JObj e2)"
    and "good_lines to_str from_str digest ls st"
  shows "\<exists>b. verify to_str from_str digest (Content (fst
    (write_outcomes to_str digest [(JObj e1, False), (JObj e2, True)] (unlines ls) st))) = Inl b"
proof -
  obtain l1 st1 where 1: "append_line to_str digest (JObj e1) st = (Some (l1 @ [LF]), st1)"
    "w_seq st1 = w_seq st + 1"
    by (rule append_line_checks [OF assms(1,2), where digest = digest and st = st]) blast
  obtain l2 st2 where 2: "append_line to_str digest (JObj e2) st1 = (Some (l2 @ [LF]), st2)"
    "clean_line l2" "check_line to_str from_str digest l2 (w_seq st1 + 1) (w_prev st1) 0 = Inr (w_prev st2)"
    by (rule append_line_checks [OF assms(1,3), where digest = digest and st = st1 and n = 0]) blast
  have "w_seq st + 1 \<noteq> w_seq st1 + 1" by (simp add: 1(2))
  from check_line_expected [OF 2(3) this] obtain b where
    b: "check_line to_str from_str digest l2 (w_seq st + 1) (w_prev st) (w_seq st + 1) = Inl b" by blast
  have "list_all clean_line (ls @ [l2])" using assms(4) 2(2) by (simp add: good_lines_def)
  then have "str_lines (unlines (ls @ [l2])) = ls @ [l2]" by (rule str_lines_clean)
  moreover have "verify_loop to_str from_str digest (ls @ [l2]) 1 GENESIS_HASH 0 = Inl b"
    using verify_loop_append [of to_str from_str digest ls "[l2]" 0 GENESIS_HASH] assms(4) b 2(2)
    by (simp add: good_lines_def clean_line_def)
  ultimately show ?thesis by (simp add: 1(1) 2(1) verify_def)
qed

lemma audit_session_good:
  assumes "json_codec to_str from_str" and "list_all event_ok events"
    and "good_lines to_str from_str digest ls st"
    and "file = Content (unlines ls) \<or> (\<exists>e. file = NotFound e) \<and> ls = [] \<and> st = genesis"
  shows "\<exists>ms st'. audit_session to_str from_str digest events file = Inr (unlines (ls @ ms)) \<and>
    good_lines to_str from_str digest (ls @ ms) st' \<and>
    w_seq st' = w_seq st + of_nat (length (filter is_obj events))"
proof -
  have tip: "recover_tip from_str file = Inr st"
    using assms(3,4) by (auto simp: recover_tip_def good_lines_def str_lines_clean)
  have "(case file of Content c \<Rightarrow> c | _ \<Rightarrow> []) = unlines ls" using assms(4) by auto
  moreover obtain ms st' where "write_events to_str digest events (unlines ls) st = (unlines (ls @ ms), st')"
    "good_lines to_str from_str digest (ls @ ms) st'" "length ms = length (filter is_obj events)"
    "w_seq st' = w_seq st + of_nat (length ms)"
    using write_events_good [OF assms(1-3)] by blast
  ultimately show ?thesis
    using tip by (intro exI [of _ ms] exI [of _ st']) (simp add: audit_session_def)
qed

lemma audit_sessions_good:
  assumes "json_codec to_str from_str" and "list_all (list_all event_ok) bs"
    and "good_lines to_str from_str digest ls st"
  shows "\<exists>ms st'. audit_sessions to_str from_str digest bs (Content (unlines ls)) =
      Inr (Content (unlines ms)) \<and> good_lines to_str from_str digest ms st' \<and>
    w_seq st' = w_seq st + of_nat (length (filter is_obj (concat bs)))"
  using assms(2,3)
proof (induction bs arbitrary: ls st)
  case Nil
  then show ?case by auto
next
  case (Cons b bs)
  obtain ms st1 where b: "audit_session to_str from_str digest b (Content (unlines ls)) = Inr (unlines (ls @ ms))"
    "good_lines to_str from_str digest (ls @ ms) st1"
    "w_seq st1 = w_seq st + of_nat (length (filter is_obj b))"
    using audit_session_good [OF assms(1) _ Cons.prems(2), of b "Content (unlines ls)"] Cons.prems(1)
    by auto
  from Cons.IH [OF _ b(2)] Cons.prems(1) obtain ns st2 where
    "audit_sessions to_str from_str digest bs (Content (unlines (ls @ ms))) = Inr (Content (unlines ns))"
    "good_lines to_str from_str digest ns st2"
    "w_seq st2 = w_seq st1 + of_nat (length (filter is_obj (concat bs)))"
    by auto
  with b show ?case by (intro exI [of _ ns] exI [of _ st2]) (simp add: add.assoc)
qed

text \<open>
  What the writer writes verifies, across restarts: any number of processes that one
  after the other open the log and append their events, starting from a missing file, leave
  a file that the verifier accepts, with one line per object event.
\<close>

theorem audit_log_verifies:
  assumes "json_codec to_str from_str" and "list_all (list_all event_ok) (b # bs)"
  shows "\<exists>content h. audit_sessions to_str from_str digest (b # bs) (NotFound e) = Inr (Content content) \<and>
    verify to_str from_str digest (Content content) =
      Inr \<lparr>rep_lines = of_nat (length (filter is_obj (concat (b # bs)))), rep_last_hash = h\<rparr>"
proof -
  obtain ms st1 where b: "audit_session to_str from_str digest b (NotFound e) = Inr (unlines ([] @ ms))"
    "good_lines to_str from_str digest ([] @ ms) st1"
    "w_seq st1 = w_seq genesis + of_nat (length (filter is_obj b))"
    using audit_session_good [OF assms(1) _ good_lines_Nil, of b "NotFound e" digest] assms(2) by auto
  from audit_sessions_good [OF assms(1) _ b(2), of bs] assms(2) obtain ns st2 where
    ns: "audit_sessions to_str from_str digest bs (Content (unlines ([] @ ms))) = Inr (Content (unlines ns))"
    "good_lines to_str from_str digest ns st2"
    "w_seq st2 = w_seq st1 + of_nat (length (filter is_obj (concat bs)))"
    by auto
  have "verify to_str from_str digest (Content (unlines ns)) =
      Inr \<lparr>rep_lines = w_seq st2, rep_last_hash = w_prev st2\<rparr>"
    using ns(2) by (simp add: verify_def good_lines_def str_lines_clean)
  with b(1,3) ns(1,3) show ?thesis
    by (intro exI [of _ "unlines ns"] exI [of _ "w_prev st2"]) (simp add: genesis_def add.assoc)
qed

subsection \<open>Tampering\<close>

text \<open>
  The records of a log: what every non-blank line hashes to and from.  \<open>rec_input\<close> is the
  text the hash commits to, the previous hash followed by the line without its own hash.
\<close>

record chain_record =
  rec_input :: string
  rec_hash :: string

definition line_record :: "(json \<Rightarrow> string) \<Rightarrow> (string \<Rightarrow> string + json) \<Rightarrow> string \<Rightarrow> string \<Rightarrow> chain_record"
  where
  "line_record to_str from_str prev raw =
     (case from_str raw of
        Inr (JObj object) \<Rightarrow>
          \<lparr>rec_input = prev @ to_str (JObj (map_remove ''hash'' object)),
           rec_hash = (case Option.bind (map_of object ''hash'') as_str of Some h \<Rightarrow> h | None \<Rightarrow> [])\<rparr>
      | _ \<Rightarrow> \<lparr>rec_input = prev, rec_hash = []\<rparr>)"

fun chain_records ::
  "(json \<Rightarrow> string) \<Rightarrow> (string \<Rightarrow> string + json) \<Rightarrow> string list \<Rightarrow> string \<Rightarrow> chain_record list" where
  "chain_records p q [] prev = []"
| "chain_records p q (raw # ls) prev =
     (if blank raw then chain_records p q ls prev
      else (let r = line_record p q prev raw in r # chain_records p q ls (rec_hash r)))"

text \<open>A chain of records: each hash is the digest of its input.\<close>

fun linked :: "(string \<Rightarrow> string) \<Rightarrow> string \<Rightarrow> chain_record list \<Rightarrow> string \<Rightarrow> bool" where
  "linked d prev [] tip \<longleftrightarrow> tip = prev"
| "linked d prev (r # rs) tip \<longleftrightarrow>
     (\<exists>payload. rec_input r = prev @ payload) \<and> d (rec_input r) = rec_hash r \<and>
     linked d (rec_hash r) rs tip"

lemma check_line_record:
  assumes "check_line p q d raw expected prev n = Inr stored"
  shows "rec_hash (line_record p q prev raw) = stored \<and>
    d (rec_input (line_record p q prev raw)) = stored \<and>
    (\<exists>payload. rec_input (line_record p q prev raw) = prev @ payload)"
  using assms
  by (auto simp: check_line_def broken_def line_record_def as_object_def chain_hash_def Let_def
      split: sum.splits json.splits option.splits if_splits)

lemma verify_loop_linked:
  "verify_loop p q d ls (n + 1) prev n = Inr r \<Longrightarrow>
   linked d prev (chain_records p q ls prev) (rep_last_hash r) \<and>
   rep_lines r = n + of_nat (length (chain_records p q ls prev))"
proof (induction ls arbitrary: n prev)
  case (Cons raw ls)
  show ?case
  proof (cases "blank raw")
    case True
    with Cons show ?thesis by simp
  next
    case False
    with Cons.prems obtain stored where chk: "check_line p q d raw (n + 1) prev (n + 1) = Inr stored"
      and rest: "verify_loop p q d ls (n + 1 + 1) stored (n + 1) = Inr r"
      by (auto split: sum.splits)
    from Cons.IH [OF rest] check_line_record [OF chk] False show ?thesis
      by (simp add: Let_def add.assoc)
  qed
qed auto

lemma linked_snoc:
  "linked d prev (rs @ [r]) tip \<longleftrightarrow>
     (\<exists>h. linked d prev rs h \<and> (\<exists>payload. rec_input r = h @ payload) \<and> d (rec_input r) = rec_hash r \<and>
        tip = rec_hash r)"
  by (induction rs arbitrary: prev) auto

lemma linked_unique:
  assumes "\<And>x. length (d x) = 64" and "length rs = length ss"
    and "linked d GENESIS_HASH rs h" and "linked d GENESIS_HASH ss h"
    and "\<forall>r \<in> set rs. \<forall>t \<in> set ss. d (rec_input r) = d (rec_input t) \<longrightarrow> rec_input r = rec_input t"
  shows "rs = ss"
  using assms(2-5)
proof (induction rs arbitrary: ss h rule: rev_induct)
  case Nil
  then show ?case by simp
next
  case (snoc r rs)
  from snoc.prems(1) obtain t ts where ss: "ss = ts @ [t]" by (cases ss rule: rev_cases) auto
  have len_h: "length g = 64" if "linked d GENESIS_HASH us g" for us g
  proof (cases us rule: rev_cases)
    case Nil
    with that show ?thesis by (simp add: GENESIS_HASH_def)
  next
    case (snoc vs v)
    with that assms(1) show ?thesis by (auto simp: linked_snoc) metis
  qed
  from snoc.prems(2) obtain g pay where r: "linked d GENESIS_HASH rs g" "rec_input r = g @ pay"
    "d (rec_input r) = rec_hash r" "h = rec_hash r" by (auto simp: linked_snoc)
  from snoc.prems(3) ss obtain g' pay' where t: "linked d GENESIS_HASH ts g'" "rec_input t = g' @ pay'"
    "d (rec_input t) = rec_hash t" "h = rec_hash t" by (auto simp: linked_snoc)
  have "rec_input r = rec_input t" using snoc.prems(4) r(3,4) t(3,4) ss by simp
  with r(2) t(2) len_h [OF r(1)] len_h [OF t(1)] have "g = g'" by simp
  have "rs = ts"
    by (rule snoc.IH [of ts g]) (use snoc.prems(1,4) ss r(1) t(1) \<open>g = g'\<close> in auto)
  moreover have "r = t"
    using \<open>rec_input r = rec_input t\<close> r(4) t(4) by simp
  ultimately show ?case by (simp add: ss)
qed

text \<open>The records of a whole file.\<close>

definition log_records :: "(json \<Rightarrow> string) \<Rightarrow> (string \<Rightarrow> string + json) \<Rightarrow> string \<Rightarrow> chain_record list" where
  "log_records p q content = chain_records p q (str_lines content) GENESIS_HASH"

text \<open>
  C29 The log is tamper evident: two files that both verify with the same number of lines
  and the same last hash hold the same records, line by line, unless two different texts
  hashed in them collide.  Whoever keeps the count and the last hash can therefore detect
  every edit, insertion, deletion and reordering.
\<close>

theorem verified_log_unique:
  assumes "\<And>x. length (digest x) = 64"
    and "verify to_str from_str digest (Content c1) = Inr r1"
    and "verify to_str from_str digest (Content c2) = Inr r2"
    and "rep_last_hash r1 = rep_last_hash r2" and "rep_lines r1 = rep_lines r2"
    and "length (log_records to_str from_str c1) < 2 ^ 64"
    and "length (log_records to_str from_str c2) < 2 ^ 64"
    and "\<forall>x \<in> set (log_records to_str from_str c1). \<forall>y \<in> set (log_records to_str from_str c2).
       digest (rec_input x) = digest (rec_input y) \<longrightarrow> rec_input x = rec_input y"
  shows "log_records to_str from_str c1 = log_records to_str from_str c2"
proof -
  have link: "linked digest GENESIS_HASH (log_records to_str from_str c) (rep_last_hash r) \<and>
      rep_lines r = of_nat (length (log_records to_str from_str c))"
    if "verify to_str from_str digest (Content c) = Inr r" for c r
    using verify_loop_linked [of to_str from_str digest "str_lines c" 0 GENESIS_HASH r] that
    by (simp add: verify_def log_records_def)
  have small: "unat (of_nat n :: 64 word) = n" if "n < 2 ^ 64" for n
    using that by (simp add: unat_of_nat take_bit_nat_eq_self)
  have "length (log_records to_str from_str c1) = length (log_records to_str from_str c2)"
    using link [OF assms(2)] link [OF assms(3)] small [OF assms(6)] small [OF assms(7)] assms(5)
    by metis
  then show ?thesis
    using link [OF assms(2)] link [OF assms(3)] assms(4,8)
    by (intro linked_unique [OF assms(1)]) auto
qed

subsection \<open>Witnesses, and what verification does not see\<close>

definition sample_event :: json where
  "sample_event = JObj [(''event'', JStr ''one'')]"

definition sample_digest :: "string \<Rightarrow> string" where
  "sample_digest x = take 64 (x @ replicate 64 (CHR ''x''))"

lemma sample_event_ok: "event_ok sample_event" "is_obj sample_event"
  by (simp_all add: sample_event_def event_ok_def plain_json_def is_obj_def)

lemma audit_log_verifies_witness:
  "\<exists>content h. audit_sessions wire_print wire_parse sample_digest
       [[sample_event, JNull], [sample_event]] (NotFound ''no file'') = Inr (Content content) \<and>
     verify wire_print wire_parse sample_digest (Content content) =
       Inr \<lparr>rep_lines = 2, rep_last_hash = h\<rparr>"
proof -
  have "list_all (list_all event_ok) [[sample_event, JNull], [sample_event]]"
    by (simp add: sample_event_ok) (simp add: event_ok_def)
  from audit_log_verifies [OF wire.json_codec_axioms this, of sample_digest "''no file''"]
  moreover have "length (filter is_obj (concat [[sample_event, JNull], [sample_event]])) = 2"
  proof -
    have "\<not> is_obj JNull" by (simp add: is_obj_def)
    then show ?thesis by (simp add: sample_event_ok)
  qed
  ultimately show ?thesis by simp
qed

lemma chain_records_length:
  "list_all clean_line ls \<Longrightarrow> length (chain_records p q ls prev) = length ls"
  by (induction ls arbitrary: prev) (auto simp: clean_line_def Let_def)

definition sample_log :: string where
  "sample_log = fst (write_events wire_print sample_digest [sample_event] [] genesis)"

lemma verified_log_unique_witness:
  "sample_log \<noteq> [] \<and> log_records wire_print wire_parse sample_log =
     log_records wire_print wire_parse (LF # sample_log)"
proof -
  obtain ms st where w: "write_events wire_print sample_digest [sample_event] (unlines []) genesis =
      (unlines ([] @ ms), st)"
    and good: "good_lines wire_print wire_parse sample_digest ([] @ ms) st"
    and len: "length ms = length (filter is_obj [sample_event])"
    using write_events_good [OF wire.json_codec_axioms _ good_lines_Nil,
        where events = "[sample_event]" and digest = sample_digest]
      sample_event_ok by auto
  from w have log: "sample_log = unlines ms" by (simp add: sample_log_def)
  have clean: "list_all clean_line ms" using good by (simp add: good_lines_def)
  have lines: "str_lines sample_log = ms" "str_lines (LF # sample_log) = [] # ms"
    using str_lines_append [of "[]" sample_log] by (simp_all add: log str_lines_clean clean)
  have nil: "blank []" by (simp add: blank_def trim_def)
  have one: "length ms = 1" using len sample_event_ok by simp
  have ver: "verify wire_print wire_parse sample_digest (Content c) =
      Inr \<lparr>rep_lines = w_seq st, rep_last_hash = w_prev st\<rparr>"
    if "c = sample_log \<or> c = LF # sample_log" for c
    using that good lines nil by (auto simp: verify_def good_lines_def)
  have recs: "length (log_records wire_print wire_parse c) = 1 \<and>
      log_records wire_print wire_parse c = chain_records wire_print wire_parse ms GENESIS_HASH"
    if "c = sample_log \<or> c = LF # sample_log" for c
    using that lines nil one chain_records_length [OF clean] by (auto simp: log_records_def)
  have "length (sample_digest x) = 64" for x by (simp add: sample_digest_def)
  moreover have "\<forall>x \<in> set (log_records wire_print wire_parse sample_log).
      \<forall>y \<in> set (log_records wire_print wire_parse (LF # sample_log)).
        sample_digest (rec_input x) = sample_digest (rec_input y) \<longrightarrow> rec_input x = rec_input y"
  proof -
    obtain y where "chain_records wire_print wire_parse ms GENESIS_HASH = [y]"
      using chain_records_length [OF clean, of wire_print wire_parse GENESIS_HASH] one
      by (auto simp: length_Suc_conv simp del: chain_records.simps)
    then show ?thesis using recs by simp
  qed
  ultimately have "log_records wire_print wire_parse sample_log =
      log_records wire_print wire_parse (LF # sample_log)"
    by (intro verified_log_unique [OF _ ver ver])
      (use recs chain_records_length [OF clean, of wire_print wire_parse GENESIS_HASH] one in auto)
  moreover have "sample_log \<noteq> []" using one by (cases ms) (simp_all add: log unlines_def)
  ultimately show ?thesis by simp
qed

text \<open>
  Cutting lines off the end of a log leaves a log that verifies: the verifier alone does not
  see a truncation.
\<close>

lemma verify_truncated:
  assumes "verify_loop p q d (ls @ ms) 1 GENESIS_HASH 0 = Inr r"
  shows "\<exists>r'. verify_loop p q d ls 1 GENESIS_HASH 0 = Inr r'"
  using assms verify_loop_append [of p q d ls ms 0 GENESIS_HASH]
  by (auto split: sum.splits)

end
