(* ===== verification/Secret_Ref.thy ===== *)
theory Secret_Ref
  imports Prelude "HOL-Library.AList"
begin

section \<open>Secret references and the secret broker (src/secrets/reference.rs, mod.rs, keychain.rs)\<close>

text \<open>
  The parser of \<open>{{secret:backend://path#field}}\<close>, the broker that dispatches a reference
  to the backend registered under its scheme, and two backends: process environment and
  native keychain.  A backend is what the locale \<open>secret_backend\<close> says: a valid scheme, and
  never an empty secret.  \<open>std::env::var\<close> and the \<open>keyring\<close> crate are parameters.
\<close>

subsection \<open>References\<close>

definition SECRET_PREFIX :: string where "SECRET_PREFIX = ''{{secret:''"
definition SECRET_SUFFIX :: string where "SECRET_SUFFIX = ''}}''"
definition MAX_REFERENCE_LENGTH :: nat where "MAX_REFERENCE_LENGTH = 2048"

datatype secret_error =
    InvalidReference string
  | UnsupportedBackend string
  | InvalidEnvironmentName
  | EnvironmentUnavailable string
  | EmptyValue
  | BackendError string

fun secret_error_text :: "secret_error \<Rightarrow> string" where
  "secret_error_text (InvalidReference reason) = ''invalid secret reference: '' @ reason"
| "secret_error_text (UnsupportedBackend b) = ''secret backend '' @ SQ @ b @ SQ @ '' is not registered''"
| "secret_error_text InvalidEnvironmentName =
     ''environment secret reference has an invalid variable name''"
| "secret_error_text (EnvironmentUnavailable name) =
     ''environment credential '' @ SQ @ name @ SQ @ '' is unavailable''"
| "secret_error_text EmptyValue = ''resolved secret is empty''"
| "secret_error_text (BackendError reason) = ''secret backend failed: '' @ reason"

record secret_ref =
  ref_backend :: string
  ref_path :: string
  ref_field :: "string option"

definition is_valid_scheme :: "string \<Rightarrow> bool" where
  "is_valid_scheme scheme =
     (case scheme of
        [] \<Rightarrow> False
      | c # cs \<Rightarrow> is_ascii_lowercase c \<and> length (utf8_chars cs) \<le> 31 \<and>
          list_all (\<lambda>x. is_ascii_lowercase x \<or> is_ascii_digit x \<or> x = CHR ''_'' \<or> x = CHR ''-'') cs)"

definition path_fault :: "string \<Rightarrow> string option" where
  "path_fault path =
     (if path = [] then Some ''path is empty''
      else if starts_with ''/'' path \<or> ends_with ''/'' path \<or> contains [CHR 0x5C] path
      then Some ''path must be logical and relative''
      else if list_ex (\<lambda>ch. char_is_control ch \<or> char_is_whitespace ch) (utf8_chars path)
      then Some ''path contains whitespace or control characters''
      else if list_ex (\<lambda>seg. seg = [] \<or> seg = ''.'' \<or> seg = ''..'') (split_on (CHR ''/'') path)
      then Some ''path contains an empty or traversal segment''
      else None)"

definition field_fault :: "string \<Rightarrow> string option" where
  "field_fault field =
     (if field = [] \<or> \<not> list_all (\<lambda>c. is_ascii_alphanumeric c \<or> c = CHR ''_'' \<or>
          c = CHR ''-'' \<or> c = CHR ''.'') field
      then Some ''field is invalid'' else None)"

definition invalid :: "string \<Rightarrow> secret_error + 'a" where
  "invalid reason = Inl (InvalidReference reason)"

definition parse_location :: "string \<Rightarrow> string \<Rightarrow> secret_error + secret_ref" where
  "parse_location backend location =
     (let parts = split_on (CHR ''#'') location;
          path = hd parts;
          field = (case tl parts of [] \<Rightarrow> None | f # _ \<Rightarrow> Some f)
      in if 2 < length parts then invalid ''reference contains more than one field separator''
         else (case path_fault path of
             Some reason \<Rightarrow> invalid reason
           | None \<Rightarrow>
               (case Option.bind field field_fault of
                  Some reason \<Rightarrow> invalid reason
                | None \<Rightarrow> Inr \<lparr>ref_backend = backend, ref_path = path, ref_field = field\<rparr>)))"

definition parse_ref :: "string \<Rightarrow> secret_error + secret_ref" where
  "parse_ref input =
     (if MAX_REFERENCE_LENGTH < length input then invalid ''reference is too long''
      else (case Option.bind (strip_prefix SECRET_PREFIX input) (strip_suffix SECRET_SUFFIX) of
          None \<Rightarrow> invalid (''expected '' @ SQ @ ''{{secret:<backend>://<path>}}'' @ SQ)
        | Some uri \<Rightarrow>
            if contains ''{{'' uri \<or> contains ''}}'' uri
            then invalid ''nested templates are not allowed''
            else (case split_once ''://'' uri of
                None \<Rightarrow> invalid ''backend scheme is missing''
              | Some (backend, location) \<Rightarrow>
                  if \<not> is_valid_scheme backend then invalid ''backend scheme is invalid''
                  else if contains ''://'' location \<or> contains ''?'' location
                  then invalid ''nested schemes and query strings are not allowed''
                  else parse_location backend location)))"

definition display_ref :: "secret_ref \<Rightarrow> string" where
  "display_ref r =
     SECRET_PREFIX @ ref_backend r @ ''://'' @ ref_path r @
     (case ref_field r of Some f \<Rightarrow> ''#'' @ f | None \<Rightarrow> []) @ SECRET_SUFFIX"

subsection \<open>The broker\<close>

text \<open>\<open>SecretValue::new\<close>: a secret value is not empty.\<close>

definition secret_value :: "string \<Rightarrow> secret_error + string" where
  "secret_value v = (if v = [] then Inl EmptyValue else Inr v)"

type_synonym resolver = "secret_ref \<Rightarrow> secret_error + string"

record secret_broker =
  backends :: "(string \<times> resolver) list"

definition new_broker :: secret_broker where
  "new_broker = \<lparr>backends = []\<rparr>"

definition register ::
  "string \<Rightarrow> resolver \<Rightarrow> secret_broker \<Rightarrow> secret_error option \<times> secret_broker" where
  "register scheme res b =
     (if \<not> is_valid_scheme scheme
      then (Some (BackendError (''backend registered invalid scheme '' @ SQ @ scheme @ SQ)), b)
      else if map_of (backends b) scheme \<noteq> None
      then (Some (BackendError (''backend scheme '' @ SQ @ scheme @ SQ @
             '' is already registered'')), b)
      else (None, b\<lparr>backends := AList.update scheme res (backends b)\<rparr>))"

definition resolve :: "secret_broker \<Rightarrow> secret_ref \<Rightarrow> secret_error + string" where
  "resolve b r =
     (case map_of (backends b) (ref_backend r) of
        None \<Rightarrow> Inl (UnsupportedBackend (ref_backend r))
      | Some res \<Rightarrow> res r)"

subsection \<open>The environment backend\<close>

definition is_valid_environment_name :: "string \<Rightarrow> bool" where
  "is_valid_environment_name name =
     (case name of
        [] \<Rightarrow> False
      | c # cs \<Rightarrow> (c = CHR ''_'' \<or> is_ascii_uppercase c \<or> is_ascii_lowercase c) \<and>
          list_all (\<lambda>x. x = CHR ''_'' \<or> is_ascii_alphanumeric x) cs)"

definition env_reference :: "string \<Rightarrow> secret_error + secret_ref" where
  "env_reference var =
     (if \<not> is_valid_environment_name var then Inl InvalidEnvironmentName
      else parse_ref (''{{secret:env://'' @ var @ ''}}''))"

definition env_resolve :: "(string \<Rightarrow> string option) \<Rightarrow> resolver" where
  "env_resolve getenv r =
     (if ref_field r \<noteq> None \<or> \<not> is_valid_environment_name (ref_path r)
      then Inl InvalidEnvironmentName
      else (case getenv (ref_path r) of
          None \<Rightarrow> Inl (EnvironmentUnavailable (ref_path r))
        | Some v \<Rightarrow> secret_value v))"

subsection \<open>The keychain backend\<close>

definition KEYCHAIN_SERVICE :: string where
  "KEYCHAIN_SERVICE = ''io.github.anthonysmith96.open-guardian''"

text \<open>
  The native store: whether an entry handle can be made, whether the platform lets the
  operation through, and what is stored under a service and an account.
\<close>

record keyring =
  kr_entry :: "string \<Rightarrow> string \<Rightarrow> bool"
  kr_allows :: "string \<Rightarrow> string \<Rightarrow> bool"
  kr_items :: "string \<times> string \<Rightarrow> string option"

definition keychain_account :: "secret_ref \<Rightarrow> secret_error + string" where
  "keychain_account r =
     (if ref_backend r \<noteq> ''keychain''
      then Inl (BackendError ''native keychain received a reference for another backend'')
      else Inr (ref_path r @ (case ref_field r of Some f \<Rightarrow> ''#'' @ f | None \<Rightarrow> [])))"

definition NO_KEYRING :: secret_error where
  "NO_KEYRING = BackendError ''native credential store is unavailable on this device''"

definition keychain_resolve :: "keyring \<Rightarrow> resolver" where
  "keychain_resolve kr r =
     (case keychain_account r of
        Inl e \<Rightarrow> Inl e
      | Inr account \<Rightarrow>
          if \<not> kr_entry kr KEYCHAIN_SERVICE account then Inl NO_KEYRING
          else (case (kr_allows kr KEYCHAIN_SERVICE account, kr_items kr (KEYCHAIN_SERVICE, account)) of
              (True, Some v) \<Rightarrow> secret_value v
            | _ \<Rightarrow> Inl (BackendError ''requested Open-Guardian keychain entry is unavailable'')))"

definition keychain_set ::
  "keyring \<Rightarrow> secret_ref \<Rightarrow> string \<Rightarrow> (secret_error + unit) \<times> keyring" where
  "keychain_set kr r v =
     (case keychain_account r of
        Inl e \<Rightarrow> (Inl e, kr)
      | Inr account \<Rightarrow>
          if \<not> kr_entry kr KEYCHAIN_SERVICE account then (Inl NO_KEYRING, kr)
          else if \<not> kr_allows kr KEYCHAIN_SERVICE account
          then (Inl (BackendError ''Open-Guardian keychain entry could not be written''), kr)
          else (Inr (), kr\<lparr>kr_items := (kr_items kr)((KEYCHAIN_SERVICE, account) \<mapsto> v)\<rparr>))"

definition keychain_delete :: "keyring \<Rightarrow> secret_ref \<Rightarrow> (secret_error + unit) \<times> keyring" where
  "keychain_delete kr r =
     (case keychain_account r of
        Inl e \<Rightarrow> (Inl e, kr)
      | Inr account \<Rightarrow>
          if \<not> kr_entry kr KEYCHAIN_SERVICE account then (Inl NO_KEYRING, kr)
          else if \<not> kr_allows kr KEYCHAIN_SERVICE account \<or> kr_items kr (KEYCHAIN_SERVICE, account) = None
          then (Inl (BackendError ''Open-Guardian keychain entry could not be deleted''), kr)
          else (Inr (), kr\<lparr>kr_items := (kr_items kr)((KEYCHAIN_SERVICE, account) := None)\<rparr>))"

subsection \<open>References are canonical and safe\<close>

lemma parse_location_Inr:
  assumes "parse_location backend location = Inr r"
  shows "ref_backend r = backend \<and>
    location = ref_path r @ (case ref_field r of Some f \<Rightarrow> ''#'' @ f | None \<Rightarrow> []) \<and>
    CHR ''#'' \<notin> set (ref_path r) \<and> path_fault (ref_path r) = None \<and>
    (\<forall>f. ref_field r = Some f \<longrightarrow> field_fault f = None)"
proof -
  let ?parts = "split_on (CHR ''#'') location"
  have join: "join_with ''#'' ?parts = location" by (rule join_split_on)
  have hash: "CHR ''#'' \<notin> set (hd ?parts)"
    using split_on_no_sep [of "hd ?parts" "CHR ''#''" location] by simp
  obtain p ps where parts: "?parts = p # ps" by (cases ?parts) auto
  from assms have len: "length ?parts \<le> 2"
    by (auto simp: parse_location_def invalid_def Let_def split: if_splits)
  consider "ps = []" | f where "ps = [f]"
    using len parts by (cases ps rule: list.exhaust; cases "tl ps") auto
  then show ?thesis
  proof cases
    case 1
    with assms parts join hash show ?thesis
      by (auto simp: parse_location_def invalid_def Let_def split: option.splits)
  next
    case 2
    with assms parts join hash show ?thesis
      by (auto simp: parse_location_def invalid_def Let_def split: option.splits)
  qed
qed

lemma parse_ref_Inr:
  assumes "parse_ref s = Inr r"
  shows "display_ref r = s \<and> is_valid_scheme (ref_backend r) \<and> CHR ''#'' \<notin> set (ref_path r) \<and>
    path_fault (ref_path r) = None \<and> (\<forall>f. ref_field r = Some f \<longrightarrow> field_fault f = None) \<and>
    length s \<le> MAX_REFERENCE_LENGTH"
proof -
  from assms obtain u1 uri where u: "strip_prefix SECRET_PREFIX s = Some u1"
    "strip_suffix SECRET_SUFFIX u1 = Some uri"
    by (auto simp: parse_ref_def invalid_def split: if_splits option.splits Option.bind_splits)
  with assms obtain backend location where bl: "split_once ''://'' uri = Some (backend, location)"
    by (auto simp: parse_ref_def invalid_def split: if_splits option.splits)
  with assms u have loc: "parse_location backend location = Inr r" and "is_valid_scheme backend"
    and "length s \<le> MAX_REFERENCE_LENGTH"
    by (auto simp: parse_ref_def invalid_def split: if_splits)
  from parse_location_Inr [OF loc] u split_once_SomeD [OF bl] this(2,3) show ?thesis
    by (auto simp: display_ref_def strip_prefix_Some_iff strip_suffix_Some_iff)
qed

text \<open>
  C36 References are canonical and cannot escape: a text that parses is the display of its
  reference, so parsing what is displayed gives the same reference back and two texts never
  name the same secret; the scheme is valid, and the path is relative without empty, \<open>.\<close> or
  \<open>..\<close> segments, backslashes or whitespace.
\<close>

theorem secret_ref_canonical:
  assumes "parse_ref s = Inr r"
  shows "display_ref r = s \<and> parse_ref (display_ref r) = Inr r \<and> is_valid_scheme (ref_backend r) \<and>
    \<not> starts_with ''/'' (ref_path r) \<and> \<not> ends_with ''/'' (ref_path r) \<and>
    \<not> contains [CHR 0x5C] (ref_path r) \<and>
    (\<forall>seg \<in> set (split_on (CHR ''/'') (ref_path r)). seg \<noteq> [] \<and> seg \<noteq> ''.'' \<and> seg \<noteq> ''..'')"
  using parse_ref_Inr [OF assms] assms
  by (auto simp: path_fault_def list_ex_iff split: if_splits)

definition sample_ref_text :: string where
  "sample_ref_text = ''{{secret:vault://infrastructure/proxmox#password}}''"

definition sample_ref :: secret_ref where
  "sample_ref = \<lparr>ref_backend = ''vault'', ref_path = ''infrastructure/proxmox'',
     ref_field = Some ''password''\<rparr>"

lemma parse_sample_ref: "parse_ref sample_ref_text = Inr sample_ref"
  by code_simp

lemma secret_ref_canonical_witness: "display_ref sample_ref = sample_ref_text"
  using secret_ref_canonical [OF parse_sample_ref] by simp

subsection \<open>The backend contract\<close>

locale secret_backend =
  fixes scheme :: string and res :: resolver
  assumes scheme_valid: "is_valid_scheme scheme"
    and never_empty: "res r \<noteq> Inr []"
begin

lemma register_fresh:
  assumes "map_of (backends b) scheme = None"
  shows "register scheme res b = (None, b\<lparr>backends := AList.update scheme res (backends b)\<rparr>)"
  using assms scheme_valid by (simp add: register_def)

lemma registered_keeps:
  assumes "\<And>r. resolve b r \<noteq> Inr []"
  shows "resolve (snd (register scheme res b)) r \<noteq> Inr []"
  using assms [of r] never_empty [of r]
  by (auto simp: register_def resolve_def update_conv' split: option.splits if_splits)

end

lemma secret_value_ne: "secret_value v \<noteq> Inr []"
  by (simp add: secret_value_def)

interpretation env: secret_backend "''env''" "env_resolve getenv" for getenv
  by unfold_locales
    (auto simp: is_valid_scheme_def ascii_defs env_resolve_def secret_value_def split: option.splits)

interpretation keychain: secret_backend "''keychain''" "keychain_resolve kr" for kr
  by unfold_locales
    (auto simp: is_valid_scheme_def ascii_defs keychain_resolve_def secret_value_def
      split: option.splits sum.splits bool.splits)

subsection \<open>The keychain namespace\<close>

lemma parsed_path_field_inj:
  assumes "CHR ''#'' \<notin> set p" and "CHR ''#'' \<notin> set q"
    and "p @ (case f of Some x \<Rightarrow> ''#'' @ x | None \<Rightarrow> []) = q @ (case g of Some x \<Rightarrow> ''#'' @ x | None \<Rightarrow> [])"
  shows "p = q \<and> f = g"
proof -
  have cut: "takeWhile (\<lambda>c. c \<noteq> CHR ''#'') (p @ (case f of Some x \<Rightarrow> ''#'' @ x | None \<Rightarrow> [])) = p"
    if "CHR ''#'' \<notin> set p" for p f
    using that by (cases f) (auto simp: takeWhile_append)
  from cut [OF assms(1), of f] cut [OF assms(2), of g] assms(3) have "p = q" by simp
  with assms(3) show ?thesis by (auto split: option.splits)
qed

text \<open>
  Writing one keychain reference reaches exactly that reference: afterwards it resolves
  to the value written, and every other reference the parser accepts resolves as before.
\<close>

theorem keychain_set_isolated:
  assumes "parse_ref s = Inr r" and "parse_ref t = Inr q" and "q \<noteq> r"
    and "keychain_set kr r v = (Inr (), kr')" and "v \<noteq> []"
  shows "keychain_resolve kr' r = Inr v \<and> keychain_resolve kr' q = keychain_resolve kr q"
proof -
  from assms(4) obtain acc where acc: "keychain_account r = Inr acc"
    "kr_entry kr KEYCHAIN_SERVICE acc" "kr_allows kr KEYCHAIN_SERVICE acc"
    "kr' = kr\<lparr>kr_items := (kr_items kr)((KEYCHAIN_SERVICE, acc) \<mapsto> v)\<rparr>"
    by (auto simp: keychain_set_def split: sum.splits if_splits)
  have other: "keychain_account q \<noteq> Inr acc"
  proof
    assume "keychain_account q = Inr acc"
    with acc(1) have "ref_backend q = ref_backend r" and
      "ref_path q @ (case ref_field q of Some x \<Rightarrow> ''#'' @ x | None \<Rightarrow> []) =
       ref_path r @ (case ref_field r of Some x \<Rightarrow> ''#'' @ x | None \<Rightarrow> [])"
      by (auto simp: keychain_account_def split: if_splits)
    with parsed_path_field_inj [OF _ _ this(2)] parse_ref_Inr [OF assms(1)] parse_ref_Inr [OF assms(2)]
    have "q = r" by simp
    with assms(3) show False by simp
  qed
  have "keychain_resolve kr' r = Inr v"
    using acc assms(5) by (simp add: keychain_resolve_def secret_value_def)
  moreover have "keychain_resolve kr' q = keychain_resolve kr q"
    using other by (auto simp: keychain_resolve_def acc(4) split: sum.splits)
  ultimately show ?thesis by simp
qed

definition sample_keyring :: keyring where
  "sample_keyring = \<lparr>kr_entry = (\<lambda>s a. True), kr_allows = (\<lambda>s a. True), kr_items = (\<lambda>k. None)\<rparr>"

lemma keychain_set_isolated_witness:
  "\<exists>r q. parse_ref ''{{secret:keychain://openai}}'' = Inr r \<and>
     parse_ref ''{{secret:keychain://openai#key}}'' = Inr q \<and>
     keychain_resolve (snd (keychain_set sample_keyring r ''k1'')) r = Inr ''k1'' \<and>
     keychain_resolve (snd (keychain_set sample_keyring r ''k1'')) q = keychain_resolve sample_keyring q"
proof -
  let ?r = "\<lparr>ref_backend = ''keychain'', ref_path = ''openai'', ref_field = None\<rparr>"
  let ?q = "\<lparr>ref_backend = ''keychain'', ref_path = ''openai'', ref_field = Some ''key''\<rparr>"
  have r: "parse_ref ''{{secret:keychain://openai}}'' = Inr ?r" by code_simp
  have q: "parse_ref ''{{secret:keychain://openai#key}}'' = Inr ?q" by code_simp
  obtain kr' where kr': "keychain_set sample_keyring ?r ''k1'' = (Inr (), kr')"
    by (simp add: keychain_set_def keychain_account_def sample_keyring_def)
  from keychain_set_isolated [OF r q _ kr'] r q kr' show ?thesis by simp
qed

end
