(* ===== verification/Vault.thy ===== *)
theory Vault
  imports Secret_Ref
begin

section \<open>The portable vault (src/secrets/vault.rs, vault\_payload.rs)\<close>

text \<open>
  The bounded plaintext contract of the vault and its read-only backend.  Parameters: the
  serde decoding of the payload document up to the \<open>fields\<close> visitor (which is source code
  and is modelled), RFC 3339 timestamps, age decryption, and the file system.
\<close>

subsection \<open>Bounds and data\<close>

definition MAX_PLAINTEXT_BYTES :: nat where "MAX_PLAINTEXT_BYTES = 4 * 1024 * 1024"
definition MAX_ENTRIES :: nat where "MAX_ENTRIES = 4096"
definition MAX_FIELDS_PER_ENTRY :: nat where "MAX_FIELDS_PER_ENTRY = 64"
definition MAX_TOTAL_FIELDS :: nat where "MAX_TOTAL_FIELDS = 16384"
definition MAX_SECRET_BYTES :: nat where "MAX_SECRET_BYTES = 64 * 1024"
definition MAX_TOTAL_SECRET_BYTES :: nat where "MAX_TOTAL_SECRET_BYTES = 2 * 1024 * 1024"
definition MAX_VAULT_ID_BYTES :: nat where "MAX_VAULT_ID_BYTES = 128"
definition MAX_CIPHERTEXT_BYTES :: nat where
  "MAX_CIPHERTEXT_BYTES = MAX_PLAINTEXT_BYTES + 4 * 1024 * 1024"

record vault_entry =
  logical_path :: string
  ve_fields :: "(string \<times> string) list"
  ve_created_at :: string
  ve_updated_at :: string

record vault_payload =
  format_version :: nat
  vault_id :: string
  generation :: nat
  vp_created_at :: string
  vp_updated_at :: string
  vp_entries :: "vault_entry list"

definition payload_error :: "string \<Rightarrow> secret_error" where
  "payload_error reason = BackendError (''portable vault payload rejected: '' @ reason)"

definition vault_error :: "string \<Rightarrow> secret_error" where
  "vault_error reason = BackendError (''portable vault failed: '' @ reason)"

subsection \<open>The fields visitor\<close>

text \<open>
  \<open>visit_map\<close>: the pairs in document order go into a \<open>HashMap\<close>; too many or repeated
  names are errors, \<open>None\<close>.
\<close>

fun visit_fields :: "(string \<times> string) list \<Rightarrow> (string \<times> string) list \<Rightarrow> (string \<times> string) list option"
  where
  "visit_fields [] acc = Some acc"
| "visit_fields ((name, v) # rest) acc =
     (if MAX_FIELDS_PER_ENTRY \<le> length acc then None
      else if map_of acc name \<noteq> None then None
      else visit_fields rest (acc @ [(name, v)]))"

fun visit_entries :: "vault_entry list \<Rightarrow> vault_entry list option" where
  "visit_entries [] = Some []"
| "visit_entries (e # es) =
     (case visit_fields (ve_fields e) [] of
        None \<Rightarrow> None
      | Some fs \<Rightarrow> map_option (\<lambda>r. e\<lparr>ve_fields := fs\<rparr> # r) (visit_entries es))"

subsection \<open>Validation\<close>

definition validate_timestamp_pair ::
  "(string \<Rightarrow> int option) \<Rightarrow> string \<Rightarrow> string \<Rightarrow> secret_error option" where
  "validate_timestamp_pair rfc3339 c u =
     (case rfc3339 c of
        None \<Rightarrow> Some (payload_error ''vault timestamp is invalid'')
      | Some created \<Rightarrow>
          (case rfc3339 u of
             None \<Rightarrow> Some (payload_error ''vault timestamp is invalid'')
           | Some updated \<Rightarrow>
               if updated < created
               then Some (payload_error ''vault timestamps are out of order'') else None))"

definition entry_reference :: "string \<Rightarrow> string \<Rightarrow> string" where
  "entry_reference path field = ''{{secret:vault://'' @ path @ ''#'' @ field @ ''}}''"

text \<open>The inner loop; \<open>Inr n\<close> is the running number of secret bytes.\<close>

fun validate_fields ::
  "string \<Rightarrow> (string \<times> string) list \<Rightarrow> nat \<Rightarrow> secret_error + nat" where
  "validate_fields path [] tot = Inr tot"
| "validate_fields path ((field, v) # rest) tot =
     (case parse_ref (entry_reference path field) of
        Inl _ \<Rightarrow> Inl (payload_error ''vault entry path or field is invalid'')
      | Inr _ \<Rightarrow>
          if v = [] \<or> MAX_SECRET_BYTES < length v
          then Inl (payload_error ''vault secret size is invalid'')
          else if MAX_TOTAL_SECRET_BYTES < tot + length v
          then Inl (payload_error ''vault secret data exceeds the allowed size'')
          else validate_fields path rest (tot + length v))"

fun validate_entries ::
  "(string \<Rightarrow> int option) \<Rightarrow> vault_entry list \<Rightarrow> string list \<Rightarrow> nat \<Rightarrow> nat \<Rightarrow> secret_error option" where
  "validate_entries rfc3339 [] paths total_fields total_bytes = None"
| "validate_entries rfc3339 (e # es) paths total_fields total_bytes =
     (if logical_path e \<in> set paths
      then Some (payload_error ''vault contains a duplicate logical path'')
      else (case validate_timestamp_pair rfc3339 (ve_created_at e) (ve_updated_at e) of
          Some err \<Rightarrow> Some err
        | None \<Rightarrow>
            if ve_fields e = [] \<or> MAX_FIELDS_PER_ENTRY < length (ve_fields e)
            then Some (payload_error ''vault entry field count is invalid'')
            else if MAX_TOTAL_FIELDS < total_fields + length (ve_fields e)
            then Some (payload_error ''vault contains too many fields'')
            else (case validate_fields (logical_path e) (ve_fields e) total_bytes of
                Inl err \<Rightarrow> Some err
              | Inr tot \<Rightarrow> validate_entries rfc3339 es (logical_path e # paths)
                  (total_fields + length (ve_fields e)) tot)))"

definition validate :: "(string \<Rightarrow> int option) \<Rightarrow> vault_payload \<Rightarrow> secret_error option" where
  "validate rfc3339 p =
     (if format_version p \<noteq> 1 then Some (payload_error ''format version is unsupported'')
      else if vault_id p = [] \<or> MAX_VAULT_ID_BYTES < length (vault_id p) \<or>
        \<not> list_all (\<lambda>c. is_ascii_alphanumeric c \<or> c = CHR ''-'' \<or> c = CHR ''_'') (vault_id p)
      then Some (payload_error ''vault ID is invalid'')
      else (case validate_timestamp_pair rfc3339 (vp_created_at p) (vp_updated_at p) of
          Some err \<Rightarrow> Some err
        | None \<Rightarrow>
            if MAX_ENTRIES < length (vp_entries p)
            then Some (payload_error ''vault contains too many entries'')
            else validate_entries rfc3339 (vp_entries p) [] 0 0))"

text \<open>\<open>from_slice\<close> is the serde decoding with the fields of an entry as document pairs.\<close>

definition parse_payload ::
  "(string \<Rightarrow> vault_payload option) \<Rightarrow> (string \<Rightarrow> int option) \<Rightarrow> string \<Rightarrow> secret_error + vault_payload"
  where
  "parse_payload from_slice rfc3339 plaintext =
     (if plaintext = [] \<or> MAX_PLAINTEXT_BYTES < length plaintext
      then Inl (payload_error ''plaintext size is outside the allowed range'')
      else (case Option.bind (from_slice plaintext) (\<lambda>raw.
                 map_option (\<lambda>es. raw\<lparr>vp_entries := es\<rparr>) (visit_entries (vp_entries raw))) of
          None \<Rightarrow> Inl (payload_error ''payload is malformed'')
        | Some p \<Rightarrow> (case validate rfc3339 p of Some e \<Rightarrow> Inl e | None \<Rightarrow> Inr p)))"

definition into_secret :: "vault_payload \<Rightarrow> secret_ref \<Rightarrow> secret_error + string" where
  "into_secret p r =
     (if ref_backend r \<noteq> ''vault'' then Inl (payload_error ''backend received a non-vault reference'')
      else (case ref_field r of
          None \<Rightarrow> Inl (payload_error ''vault references require a field'')
        | Some field \<Rightarrow>
            (case find (\<lambda>e. logical_path e = ref_path r) (vp_entries p) of
               None \<Rightarrow> Inl (payload_error ''vault entry or field is unavailable'')
             | Some e \<Rightarrow>
                 (case map_of (ve_fields e) field of
                    None \<Rightarrow> Inl (payload_error ''vault entry or field is unavailable'')
                  | Some v \<Rightarrow> Inr v))))"

subsection \<open>The backend\<close>

text \<open>
  The outside of the backend: parsing an age identity, decrypting, and the file system.
  \<open>metadata\<close> is \<open>is_file\<close> and \<open>len\<close>; \<open>read_file\<close> the bytes of a file.
\<close>

record vault_env =
  identity_ok :: "string \<Rightarrow> bool"
  age_decrypt :: "string \<Rightarrow> string \<Rightarrow> string option"
  canonicalize :: "string \<Rightarrow> string option"
  file_name :: "string \<Rightarrow> string option"
  metadata :: "string \<Rightarrow> (bool \<times> nat) option"
  open_file :: "string \<Rightarrow> bool"
  read_file :: "string \<Rightarrow> string option"
  from_slice :: "string \<Rightarrow> vault_payload option"
  rfc3339 :: "string \<Rightarrow> int option"

record vault_backend =
  vb_path :: string
  vb_identity :: string

definition vault_new :: "vault_env \<Rightarrow> string \<Rightarrow> string \<Rightarrow> secret_error + vault_backend" where
  "vault_new E path ident =
     (if \<not> identity_ok E ident then Inl (vault_error ''device identity is invalid'')
      else (case canonicalize E path of
          None \<Rightarrow> Inl (vault_error ''encrypted vault file is unavailable'')
        | Some full \<Rightarrow>
            (case file_name E full of
               None \<Rightarrow> Inl (vault_error ''encrypted vault filename is invalid'')
             | Some name \<Rightarrow>
                 if \<not> ends_with ''.guardian.age'' name
                 then Inl (vault_error ''encrypted vault filename must end in .guardian.age'')
                 else (case metadata E full of
                     None \<Rightarrow> Inl (vault_error ''encrypted vault file is unavailable'')
                   | Some (is_file, len) \<Rightarrow>
                       if \<not> is_file \<or> MAX_CIPHERTEXT_BYTES < len
                       then Inl (vault_error ''encrypted vault file size is invalid'')
                       else Inr \<lparr>vb_path = full, vb_identity = ident\<rparr>))))"

text \<open>At most one byte more than allowed is read (\<open>File::take\<close>).\<close>

definition read_bounded_ciphertext :: "vault_env \<Rightarrow> string \<Rightarrow> secret_error + string" where
  "read_bounded_ciphertext E path =
     (if \<not> open_file E path then Inl (vault_error ''encrypted vault file is unavailable'')
      else (case read_file E path of
          None \<Rightarrow> Inl (vault_error ''encrypted vault file could not be read'')
        | Some bytes \<Rightarrow>
            (let ciphertext = take (MAX_CIPHERTEXT_BYTES + 1) bytes
             in if MAX_CIPHERTEXT_BYTES < length ciphertext
                then Inl (vault_error ''encrypted vault file exceeds the allowed size'')
                else Inr ciphertext)))"

definition resolve_sync :: "vault_env \<Rightarrow> vault_backend \<Rightarrow> resolver" where
  "resolve_sync E b r =
     (if \<not> identity_ok E (vb_identity b) then Inl (vault_error ''device identity is invalid'')
      else (case read_bounded_ciphertext E (vb_path b) of
          Inl e \<Rightarrow> Inl e
        | Inr ciphertext \<Rightarrow>
            (case age_decrypt E (vb_identity b) ciphertext of
               None \<Rightarrow> Inl (vault_error ''vault decryption failed'')
             | Some plaintext \<Rightarrow>
                 if MAX_PLAINTEXT_BYTES < length plaintext
                 then Inl (vault_error ''decrypted payload exceeds the allowed size'')
                 else (case parse_payload (from_slice E) (rfc3339 E) plaintext of
                     Inl e \<Rightarrow> Inl e
                   | Inr p \<Rightarrow> into_secret p r))))"

subsection \<open>What validation guarantees\<close>

lemma visit_fields_distinct:
  "visit_fields raw acc = Some fs \<Longrightarrow> distinct (map fst acc) \<Longrightarrow> distinct (map fst fs)"
proof (induction raw acc rule: visit_fields.induct)
  case (2 name v rest acc)
  from 2(2) have none: "map_of acc name = None" and small: "\<not> MAX_FIELDS_PER_ENTRY \<le> length acc"
    and rest: "visit_fields rest (acc @ [(name, v)]) = Some fs"
    by (simp_all split: if_splits)
  from none have "name \<notin> fst ` set acc" by (simp only: map_of_eq_None_iff not_False_eq_True)
  with 2(3) have "distinct (map fst (acc @ [(name, v)]))" by simp
  with 2(1) [OF small _ rest] none show ?case by simp
qed simp

lemma visit_entries_distinct:
  "visit_entries raw = Some es \<Longrightarrow> e \<in> set es \<Longrightarrow> distinct (map fst (ve_fields e))"
proof (induction raw arbitrary: es)
  case (Cons r raw)
  then show ?case
    using visit_fields_distinct [of "ve_fields r" "[]"] by (auto split: option.splits)
qed simp

lemma validate_fields_Inr:
  "validate_fields path fs tot = Inr n \<Longrightarrow> (field, v) \<in> set fs \<Longrightarrow>
   v \<noteq> [] \<and> length v \<le> MAX_SECRET_BYTES \<and> n \<le> max tot MAX_TOTAL_SECRET_BYTES \<and>
   (\<exists>r. parse_ref (entry_reference path field) = Inr r)"
proof (induction path fs tot rule: validate_fields.induct)
  case (2 path f w rest tot)
  have bound: "validate_fields path fs t = Inr n \<Longrightarrow> t \<le> MAX_TOTAL_SECRET_BYTES \<Longrightarrow>
      n \<le> MAX_TOTAL_SECRET_BYTES" for fs t
    by (induction path fs t rule: validate_fields.induct) (auto split: sum.splits if_splits)
  from 2 show ?case
    by (auto split: sum.splits if_splits dest!: bound)
qed simp

lemma validate_entries_None:
  assumes "validate_entries rfc es paths tf tb = None"
  shows "distinct (map logical_path es) \<and> (\<forall>e \<in> set es. logical_path e \<notin> set paths) \<and>
    (\<forall>e \<in> set es. \<exists>t n. validate_fields (logical_path e) (ve_fields e) t = Inr n)"
  using assms
  by (induction rfc es paths tf tb rule: validate_entries.induct)
    (auto split: if_splits option.splits sum.splits)

lemma one_separator:
  assumes "path @ CHR ''#'' # field = p @ CHR ''#'' # f" and "CHR ''#'' \<notin> set p" and "CHR ''#'' \<notin> set f"
  shows "path = p \<and> field = f"
  using assms unfolding append_eq_append_conv2
  by (auto simp: Cons_eq_append_conv append_eq_Cons_conv)

lemma parse_entry_reference:
  assumes "parse_ref (entry_reference path field) = Inr r"
  shows "r = \<lparr>ref_backend = ''vault'', ref_path = path, ref_field = Some field\<rparr>"
proof -
  let ?uri = "''vault://'' @ path @ ''#'' @ field"
  have "entry_reference path field = SECRET_PREFIX @ ?uri @ SECRET_SUFFIX"
    by (simp add: entry_reference_def SECRET_PREFIX_def SECRET_SUFFIX_def)
  then have strip: "strip_prefix SECRET_PREFIX (entry_reference path field) = Some (?uri @ SECRET_SUFFIX)"
    by (simp only: strip_prefix_append)
  have strip': "strip_suffix SECRET_SUFFIX (?uri @ SECRET_SUFFIX) = Some ?uri"
    by (simp only: strip_suffix_Some_iff)
  have once: "split_once ''://'' ?uri = Some (''vault'', path @ ''#'' @ field)" by simp
  from assms have loc: "parse_location ''vault'' (path @ ''#'' @ field) = Inr r"
    unfolding parse_ref_def strip Option.bind.simps strip' once
    by (auto simp: invalid_def once split: if_splits)
  note r = parse_location_Inr [OF loc]
  obtain f where f: "ref_field r = Some f"
    using r by (cases "ref_field r") (simp_all, metis in_set_conv_decomp)
  have "CHR ''#'' \<notin> set f"
    using r f by (auto simp: field_fault_def ascii_defs list_all_iff split: if_splits)
  then have "path = ref_path r \<and> field = f"
    using r f by (intro one_separator) simp_all
  with r f show ?thesis by simp
qed


lemma find_SomeD: "find P xs = Some x \<Longrightarrow> x \<in> set xs \<and> P x"
  by (induction xs) (auto split: if_splits)

lemma into_secret_entry:
  assumes "into_secret p r = Inr v"
  obtains e f where "e \<in> set (vp_entries p)" "(f, v) \<in> set (ve_fields e)"
  using assms
  by (auto simp: into_secret_def split: if_splits option.splits dest!: map_of_SomeD find_SomeD)

lemma parse_payload_nonempty:
  assumes "parse_payload slice rfc plaintext = Inr p"
  shows "into_secret p r \<noteq> Inr []"
proof
  assume "into_secret p r = Inr []"
  then obtain e f where e: "e \<in> set (vp_entries p)" "(f, []) \<in> set (ve_fields e)"
    by (rule into_secret_entry)
  from assms have "validate rfc p = None"
    by (auto simp: parse_payload_def split: if_splits option.splits Option.bind_splits)
  then have "validate_entries rfc (vp_entries p) [] 0 0 = None"
    by (auto simp: validate_def split: if_splits option.splits)
  from validate_entries_None [OF this] e obtain t n where
    "validate_fields (logical_path e) (ve_fields e) t = Inr n" by blast
  from validate_fields_Inr [OF this e(2)] show False by simp
qed

text \<open>The vault meets the backend contract: it never hands out an empty secret.\<close>

interpretation vault: secret_backend "''vault''" "resolve_sync E b" for E b
  by unfold_locales
    (auto simp: is_valid_scheme_def ascii_defs resolve_sync_def parse_payload_nonempty
      split: sum.splits option.splits)

text \<open>
  The assembled broker never yields an empty secret: with the environment, keychain and
  vault backends registered (in this order, as the server does), every reference that
  resolves gives a non-empty value, and a scheme nobody registered is an error.
\<close>

theorem broker_never_empty:
  "let b1 = snd (register ''env'' (env_resolve getenv) new_broker);
       b2 = snd (register ''keychain'' (keychain_resolve kr) b1);
       b3 = snd (register ''vault'' (resolve_sync E vb) b2)
   in resolve b3 r \<noteq> Inr [] \<and>
      (ref_backend r \<notin> {''env'', ''keychain'', ''vault''} \<longrightarrow>
        resolve b3 r = Inl (UnsupportedBackend (ref_backend r)))"
proof -
  have "resolve new_broker r \<noteq> Inr []" for r by (simp add: resolve_def new_broker_def)
  note 1 = env.registered_keeps [OF this]
  note 2 = keychain.registered_keeps [OF 1]
  note 3 = vault.registered_keeps [OF 2]
  have "ref_backend r \<notin> {''env'', ''keychain'', ''vault''} \<Longrightarrow>
      resolve (snd (register ''vault'' (resolve_sync E vb) (snd (register ''keychain'' (keychain_resolve kr)
        (snd (register ''env'' (env_resolve getenv) new_broker)))))) r = Inl (UnsupportedBackend (ref_backend r))"
    by (simp add: register_def resolve_def new_broker_def)
  with 3 show ?thesis by (simp add: Let_def)
qed

subsection \<open>Witnesses\<close>

definition sample_payload :: vault_payload where
  "sample_payload = \<lparr>format_version = 1, vault_id = ''v1'', generation = 3,
     vp_created_at = ''a'', vp_updated_at = ''a'',
     vp_entries = [\<lparr>logical_path = ''infra/pve'', ve_fields = [(''password'', ''s3'')],
       ve_created_at = ''a'', ve_updated_at = ''b''\<rparr>]\<rparr>"


definition sample_env :: vault_env where
  "sample_env = \<lparr>identity_ok = (\<lambda>i. True), age_decrypt = (\<lambda>i c. Some c),
     canonicalize = Some, file_name = Some, metadata = (\<lambda>p. Some (True, 1)),
     open_file = (\<lambda>p. True), read_file = (\<lambda>p. Some ''doc''),
     from_slice = (\<lambda>s. Some sample_payload), rfc3339 = (\<lambda>t. Some 0)\<rparr>"

lemma broker_never_empty_witness:
  "resolve (snd (register ''vault'' (resolve_sync sample_env \<lparr>vb_path = ''p'', vb_identity = ''i''\<rparr>)
       (snd (register ''keychain'' (keychain_resolve \<lparr>kr_entry = (\<lambda>s a. True), kr_allows = (\<lambda>s a. True), kr_items = (\<lambda>k. None)\<rparr>)
         (snd (register ''env'' (env_resolve (\<lambda>n. Some [])) new_broker))))))
     \<lparr>ref_backend = ''env'', ref_path = ''API_KEY'', ref_field = None\<rparr> \<noteq> Inr [] \<and>
   resolve (snd (register ''vault'' (resolve_sync sample_env \<lparr>vb_path = ''p'', vb_identity = ''i''\<rparr>)
       (snd (register ''keychain'' (keychain_resolve \<lparr>kr_entry = (\<lambda>s a. True), kr_allows = (\<lambda>s a. True), kr_items = (\<lambda>k. None)\<rparr>)
         (snd (register ''env'' (env_resolve (\<lambda>n. Some [])) new_broker))))))
     \<lparr>ref_backend = ''op'', ref_path = ''x'', ref_field = None\<rparr> = Inl (UnsupportedBackend ''op'')"
  using broker_never_empty [of "\<lambda>n. Some []" "\<lparr>kr_entry = (\<lambda>s a. True), kr_allows = (\<lambda>s a. True), kr_items = (\<lambda>k. None)\<rparr>" sample_env
      "\<lparr>vb_path = ''p'', vb_identity = ''i''\<rparr>" "\<lparr>ref_backend = ''env'', ref_path = ''API_KEY'', ref_field = None\<rparr>"]
    broker_never_empty [of "\<lambda>n. Some []" "\<lparr>kr_entry = (\<lambda>s a. True), kr_allows = (\<lambda>s a. True), kr_items = (\<lambda>k. None)\<rparr>" sample_env
      "\<lparr>vb_path = ''p'', vb_identity = ''i''\<rparr>" "\<lparr>ref_backend = ''op'', ref_path = ''x'', ref_field = None\<rparr>"]
  by (simp add: Let_def)

end
