(* ===== verification/Config.thy ===== *)
theory Config
  imports Dlp Secret_Ref "HOL-Library.Word"
begin

section \<open>Configuration (src/config.rs)\<close>

text \<open>
  The configuration records, the migration of deprecated credentials, the checks of
  endpoints and of the DLP action, path anchoring, and the search for the file.  Parameters:
  URL and TOML parsing, Unicode lower-casing, and \<open>std::path\<close>/\<open>std::fs\<close> (the record
  \<open>path_env\<close>).  Paths are byte strings; warnings printed to the terminal are left out.
\<close>

subsection \<open>Records\<close>

record broker_config =
  bc_policy :: "string option"
  bc_public_key :: "string option"
  bc_audit_log_path :: "string option"
  bc_pending_ttl_secs :: "nat option"
  bc_result_ttl_secs :: "nat option"

record file_server_config =
  fs_bind_address :: "string option"
  fs_port :: "16 word option"
  fs_default_upstream :: "string option"
  fs_requests_per_minute :: "32 word option"

record security_config =
  sec_audit_log_path :: "string option"
  sec_dlp :: "dlp_config option"
  sec_allow_non_json :: bool

definition default_allow_non_json :: bool where
  "default_allow_non_json = False"

record route_config =
  rt_url :: string
  rt_model :: "string option"
  rt_credential :: "secret_ref option"
  rt_legacy_key_env :: "string option"

record vault_config =
  vc_path :: string
  vc_identity :: secret_ref

record tier_config =
  tier_url :: string
  tier_model :: "string option"
  tier_credential :: "secret_ref option"
  tier_legacy_key_env :: "string option"

record load_balancer_config =
  lb_enabled :: bool
  lb_smart_threshold :: "32 word option"
  lb_fast_tier :: tier_config
  lb_smart_tier :: tier_config

record file_config =
  cfg_server :: "file_server_config option"
  cfg_security :: "security_config option"
  cfg_routes :: "(string \<times> route_config) list option"
  cfg_load_balancer :: "load_balancer_config option"
  cfg_vault :: "vault_config option"
  cfg_broker :: "broker_config option"

definition default_config :: file_config where
  "default_config = \<lparr>cfg_server = None, cfg_security = None, cfg_routes = None,
     cfg_load_balancer = None, cfg_vault = None, cfg_broker = None\<rparr>"

subsection \<open>Credentials\<close>

definition migrate_credential ::
  "secret_ref option \<Rightarrow> string option \<Rightarrow> string \<Rightarrow> string + secret_ref option" where
  "migrate_credential credential legacy location =
     (if credential \<noteq> None \<and> legacy \<noteq> None
      then Inl (location @ '' defines both '' @ SQ @ ''credential'' @ SQ @ '' and deprecated '' @ SQ @
                ''key_env'' @ SQ)
      else (case (credential, legacy) of
          (None, Some variable) \<Rightarrow>
            (case env_reference variable of
               Inl e \<Rightarrow> Inl (''invalid deprecated key_env in '' @ location @ '': '' @ secret_error_text e)
             | Inr r \<Rightarrow> Inr (Some r))
        | _ \<Rightarrow> Inr credential))"

fun migrate_routes :: "(string \<times> route_config) list \<Rightarrow> string + (string \<times> route_config) list" where
  "migrate_routes [] = Inr []"
| "migrate_routes ((name, route) # rest) =
     (case migrate_credential (rt_credential route) (rt_legacy_key_env route) (''routes.'' @ name) of
        Inl e \<Rightarrow> Inl e
      | Inr c \<Rightarrow>
          (case migrate_routes rest of
             Inl e \<Rightarrow> Inl e
           | Inr rest' \<Rightarrow> Inr ((name, route\<lparr>rt_credential := c\<rparr>) # rest')))"

definition migrate_tier :: "string \<Rightarrow> tier_config \<Rightarrow> string + tier_config" where
  "migrate_tier location tier =
     (case migrate_credential (tier_credential tier) (tier_legacy_key_env tier) location of
        Inl e \<Rightarrow> Inl e | Inr c \<Rightarrow> Inr (tier\<lparr>tier_credential := c\<rparr>))"

definition migrate_balancer :: "load_balancer_config \<Rightarrow> string + load_balancer_config" where
  "migrate_balancer lb =
     (case migrate_tier ''load_balancer.fast'' (lb_fast_tier lb) of
        Inl e \<Rightarrow> Inl e
      | Inr fast \<Rightarrow>
          (case migrate_tier ''load_balancer.smart'' (lb_smart_tier lb) of
             Inl e \<Rightarrow> Inl e
           | Inr smart \<Rightarrow> Inr (lb\<lparr>lb_fast_tier := fast, lb_smart_tier := smart\<rparr>)))"

subsection \<open>Endpoints\<close>

record url_parts =
  u_scheme :: string
  u_host :: "string option"
  u_username :: string
  u_password :: "string option"
  u_query :: "string option"
  u_fragment :: "string option"
  u_cannot_be_a_base :: bool

definition url_acceptable :: "url_parts \<Rightarrow> bool" where
  "url_acceptable url \<longleftrightarrow>
     (u_scheme url = ''http'' \<or> u_scheme url = ''https'') \<and> u_host url \<noteq> None \<and>
     u_username url = [] \<and> u_password url = None \<and> u_query url = None \<and>
     u_fragment url = None \<and> \<not> u_cannot_be_a_base url"

definition validate_endpoint ::
  "(string \<Rightarrow> url_parts option) \<Rightarrow> string \<Rightarrow> string \<Rightarrow> string option" where
  "validate_endpoint parse raw location =
     (case parse raw of
        None \<Rightarrow> Some (location @ '' is not a valid URL'')
      | Some url \<Rightarrow>
          if \<not> url_acceptable url
          then Some (location @ '' must be an HTTP(S) base URL without userinfo, query, or fragment'')
          else None)"

text \<open>The first error of a list of checks.\<close>

fun first_error :: "string option list \<Rightarrow> string option" where
  "first_error [] = None"
| "first_error (Some e # es) = Some e"
| "first_error (None # es) = first_error es"

definition check_routes :: "(string \<Rightarrow> url_parts option) \<Rightarrow> (string \<times> route_config) list \<Rightarrow> string option"
  where
  "check_routes parse routes = first_error
     (map (\<lambda>(name, route). validate_endpoint parse (rt_url route) (''routes.'' @ name @ ''.url'')) routes)"

definition check_tier ::
  "(string \<Rightarrow> url_parts option) \<Rightarrow> bool \<Rightarrow> tier_config \<Rightarrow> string \<Rightarrow> string option" where
  "check_tier parse enabled tier location =
     (if enabled \<or> tier_url tier \<noteq> [] then validate_endpoint parse (tier_url tier) location else None)"

abbreviation DQ :: string where
  "DQ \<equiv> [CHR 0x22]"

definition check_action :: "(string \<Rightarrow> string) \<Rightarrow> dlp_config \<Rightarrow> string option" where
  "check_action lower dlp =
     (let action = lower (action_name dlp) in
      if action = ''redact'' \<or> action = ''block'' then None
      else Some (''security.dlp.action must be '' @ DQ @ ''redact'' @ DQ @ '' or '' @ DQ @ ''block'' @ DQ @
             '' (got '' @ DQ @ action @ DQ @ '')''))"

definition check_config ::
  "(string \<Rightarrow> string) \<Rightarrow> (string \<Rightarrow> url_parts option) \<Rightarrow> file_config \<Rightarrow> string option" where
  "check_config lower parse c = first_error
     [case cfg_vault c of
        Some v \<Rightarrow> if ref_backend (vc_identity v) = ''vault''
          then Some ''vault.identity cannot resolve from the vault it is intended to unlock'' else None
      | None \<Rightarrow> None,
      case Option.bind (cfg_server c) fs_default_upstream of
        Some url \<Rightarrow> validate_endpoint parse url ''server.default_upstream'' | None \<Rightarrow> None,
      case cfg_routes c of Some routes \<Rightarrow> check_routes parse routes | None \<Rightarrow> None,
      case cfg_load_balancer c of
        Some lb \<Rightarrow> first_error
          [check_tier parse (lb_enabled lb) (lb_fast_tier lb) ''load_balancer.fast.url'',
           check_tier parse (lb_enabled lb) (lb_smart_tier lb) ''load_balancer.smart.url'']
      | None \<Rightarrow> None,
      case Option.bind (cfg_security c) sec_dlp of
        Some dlp \<Rightarrow> check_action lower dlp | None \<Rightarrow> None]"

text \<open>\<open>Some x\<close> is updated by a fallible function.\<close>

definition map_opt :: "('a \<Rightarrow> string + 'a) \<Rightarrow> 'a option \<Rightarrow> string + 'a option" where
  "map_opt f x = (case x of None \<Rightarrow> Inr None
     | Some a \<Rightarrow> (case f a of Inl e \<Rightarrow> Inl e | Inr b \<Rightarrow> Inr (Some b)))"

definition normalize_credentials ::
  "(string \<Rightarrow> string) \<Rightarrow> (string \<Rightarrow> url_parts option) \<Rightarrow> file_config \<Rightarrow> string + file_config" where
  "normalize_credentials lower parse c =
     (case map_opt migrate_routes (cfg_routes c) of
        Inl e \<Rightarrow> Inl e
      | Inr routes \<Rightarrow>
          (case map_opt migrate_balancer (cfg_load_balancer c) of
             Inl e \<Rightarrow> Inl e
           | Inr lb \<Rightarrow>
               (let c' = c\<lparr>cfg_routes := routes, cfg_load_balancer := lb\<rparr>
                in case check_config lower parse c' of Some e \<Rightarrow> Inl e | None \<Rightarrow> Inr c')))"

subsection \<open>Paths and the configuration file\<close>

record path_env =
  is_absolute :: "string \<Rightarrow> bool"
  path_join :: "string \<Rightarrow> string \<Rightarrow> string"
  parent_dir :: "string \<Rightarrow> string option"
  path_exists :: "string \<Rightarrow> bool"
  is_file :: "string \<Rightarrow> bool"
  read_to_string :: "string \<Rightarrow> string + string"
  executable_dir :: "string option"
  current_dir :: "string option"
  config_var :: "string option"

definition resolve_resource_path :: "path_env \<Rightarrow> string \<Rightarrow> string" where
  "resolve_resource_path P path =
     (if is_absolute P path then path
      else (case executable_dir P of
          Some base \<Rightarrow>
            if path_exists P (path_join P base path) then path_join P base path
            else path_join P (case current_dir P of Some d \<Rightarrow> d | None \<Rightarrow> []) path
        | None \<Rightarrow> path_join P (case current_dir P of Some d \<Rightarrow> d | None \<Rightarrow> []) path))"

definition anchor :: "path_env \<Rightarrow> string \<Rightarrow> string \<Rightarrow> string" where
  "anchor P base path = (if is_absolute P path then path else path_join P base path)"

definition make_resource_paths_absolute :: "path_env \<Rightarrow> file_config \<Rightarrow> string \<Rightarrow> file_config" where
  "make_resource_paths_absolute P c config_path =
     (case parent_dir P config_path of
        None \<Rightarrow> c
      | Some base \<Rightarrow>
          c\<lparr>cfg_security := map_option (\<lambda>s. s\<lparr>sec_dlp := map_option
               (\<lambda>d. d\<lparr>rules_files := map (anchor P base) (rules_files d)\<rparr>) (sec_dlp s)\<rparr>) (cfg_security c),
            cfg_vault := map_option (\<lambda>v. v\<lparr>vc_path := anchor P base (vc_path v)\<rparr>) (cfg_vault c),
            cfg_broker := map_option (\<lambda>b. b\<lparr>bc_policy := map_option (anchor P base) (bc_policy b),
               bc_public_key := map_option (anchor P base) (bc_public_key b)\<rparr>) (cfg_broker c)\<rparr>)"

definition config_location :: "path_env \<Rightarrow> string + string option" where
  "config_location P =
     (case config_var P of
        Some path \<Rightarrow>
          if \<not> is_file P path
          then Inl (''GUARDIAN_CONFIG does not point to a readable file: '' @ path)
          else Inr (Some path)
      | None \<Rightarrow>
          (let found = (\<lambda>base. case base of
                 None \<Rightarrow> None
               | Some d \<Rightarrow> (let candidate = path_join P d ''guardian.toml'' in
                   if is_file P candidate then Some candidate else None))
           in Inr (case found (executable_dir P) of
                Some path \<Rightarrow> Some path | None \<Rightarrow> found (current_dir P))))"

definition load_config ::
  "path_env \<Rightarrow> (string \<Rightarrow> string) \<Rightarrow> (string \<Rightarrow> url_parts option) \<Rightarrow> (string \<Rightarrow> string + file_config) \<Rightarrow>
   string + file_config" where
  "load_config P lower parse toml =
     (case config_location P of
        Inl e \<Rightarrow> Inl e
      | Inr None \<Rightarrow> Inr default_config
      | Inr (Some path) \<Rightarrow>
          (case read_to_string P path of
             Inl e \<Rightarrow> Inl (''failed to read '' @ path @ '': '' @ e)
           | Inr content \<Rightarrow>
               (case toml content of
                  Inl e \<Rightarrow> Inl (''failed to parse '' @ path @ '': '' @ e)
                | Inr c \<Rightarrow> normalize_credentials lower parse (make_resource_paths_absolute P c path))))"

subsection \<open>What a loaded configuration guarantees\<close>

lemma first_error_None: "first_error xs = None \<longleftrightarrow> (\<forall>x \<in> set xs. x = None)"
  by (induction xs rule: first_error.induct) auto

lemma validate_endpoint_None:
  "validate_endpoint parse raw location = None \<longleftrightarrow> (\<exists>u. parse raw = Some u \<and> url_acceptable u)"
  by (auto simp: validate_endpoint_def split: option.splits)

lemma env_name_chars:
  "is_valid_environment_name v \<Longrightarrow> c \<in> set v \<Longrightarrow> c = CHR ''_'' \<or> is_ascii_alphanumeric c"
  by (cases v) (auto simp: is_valid_environment_name_def list_all_iff is_ascii_alphanumeric_def)

lemma env_reference_Inr:
  assumes "env_reference v = Inr r"
  shows "r = \<lparr>ref_backend = ''env'', ref_path = v, ref_field = None\<rparr>"
proof -
  let ?s = "''{{secret:env://'' @ v @ ''}}''" and ?uri = "''env://'' @ v"
  from assms have valid: "is_valid_environment_name v" and p: "parse_ref ?s = Inr r"
    by (auto simp: env_reference_def split: if_splits)
  have s: "?s = SECRET_PREFIX @ ?uri @ SECRET_SUFFIX"
    by (simp add: SECRET_PREFIX_def SECRET_SUFFIX_def)
  have strip: "strip_prefix SECRET_PREFIX ?s = Some (?uri @ SECRET_SUFFIX)"
    unfolding s by (simp only: strip_prefix_append)
  have strip': "strip_suffix SECRET_SUFFIX (?uri @ SECRET_SUFFIX) = Some ?uri"
    by (simp only: strip_suffix_Some_iff)
  have once: "split_once ''://'' ?uri = Some (''env'', v)" by simp
  from p have loc: "parse_location ''env'' v = Inr r"
    unfolding parse_ref_def strip Option.bind.simps strip' once
    by (auto simp: invalid_def once split: if_splits)
  have "CHR ''#'' \<notin> set v"
    using env_name_chars [OF valid, of "CHR ''#''"] by (auto simp: ascii_defs)
  with parse_location_Inr [OF loc] have "ref_field r = None \<and> ref_path r = v"
    by (cases "ref_field r") auto
  with parse_location_Inr [OF loc] show ?thesis by simp
qed

lemma migrate_credential_Inr:
  assumes "migrate_credential cred legacy location = Inr cred'"
  shows "cred' = (case legacy of None \<Rightarrow> cred
    | Some v \<Rightarrow> Some \<lparr>ref_backend = ''env'', ref_path = v, ref_field = None\<rparr>)"
  using assms env_reference_Inr
  by (auto simp: migrate_credential_def split: if_splits option.splits sum.splits)

lemma migrate_routes_Inr:
  "migrate_routes routes = Inr routes' \<Longrightarrow> (name, route') \<in> set routes' \<Longrightarrow>
   \<exists>route. (name, route) \<in> set routes \<and> route' = route\<lparr>rt_credential :=
     (case rt_legacy_key_env route of None \<Rightarrow> rt_credential route
      | Some v \<Rightarrow> Some \<lparr>ref_backend = ''env'', ref_path = v, ref_field = None\<rparr>)\<rparr>"
proof (induction routes arbitrary: routes')
  case (Cons r routes)
  obtain n x where r: "r = (n, x)" by (cases r)
  from Cons.prems(1) r obtain c rest where
    c: "migrate_credential (rt_credential x) (rt_legacy_key_env x) (''routes.'' @ n) = Inr c"
    and rest: "migrate_routes routes = Inr rest" and eq: "routes' = (n, x\<lparr>rt_credential := c\<rparr>) # rest"
    by (auto split: sum.splits)
  from Cons.prems(2) eq consider "name = n \<and> route' = x\<lparr>rt_credential := c\<rparr>" | "(name, route') \<in> set rest"
    by auto
  then show ?case
  proof cases
    case 1
    with migrate_credential_Inr [OF c] r show ?thesis by auto
  next
    case 2
    from Cons.IH [OF rest 2] show ?thesis by auto
  qed
qed simp


definition sample_config :: file_config where
  "sample_config = default_config\<lparr>cfg_routes := Some [(''gpt'', \<lparr>rt_url = ''https://u'', rt_model = None,
     rt_credential = None, rt_legacy_key_env = Some ''API_KEY''\<rparr>)]\<rparr>"

definition sample_url :: url_parts where
  "sample_url = \<lparr>u_scheme = ''https'', u_host = Some ''u'', u_username = [], u_password = None,
     u_query = None, u_fragment = None, u_cannot_be_a_base = False\<rparr>"


end
