(* ===== verification/Router.thy ===== *)
theory Router
  imports Config
begin

section \<open>Complexity routing (src/router.rs)\<close>

text \<open>
  The score is a \<open>u32\<close> with saturating additions; the length is cut to 32 bits before it is
  divided.  \<open>lower\<close> is \<open>str::to_lowercase\<close>.
\<close>

datatype routing_tier = Fast | Smart

fun tier_name :: "routing_tier \<Rightarrow> string" where
  "tier_name Fast = ''TIER_FAST''"
| "tier_name Smart = ''TIER_SMART''"

record routing_decision =
  rd_score :: "32 word"
  rd_tier :: routing_tier
  rd_upstream_url :: string
  rd_credential :: "secret_ref option"
  rd_model :: "string option"

definition COMPLEXITY_KEYWORDS :: "string list" where
  "COMPLEXITY_KEYWORDS = [''code'', ''function'', ''rust'', ''python'', ''debug'', ''architect'',
     ''analysis'', ''refactor'', ''complex'', ''mathematics'']"

definition saturating_add :: "32 word \<Rightarrow> 32 word \<Rightarrow> 32 word" where
  "saturating_add a b = (if unat a + unat b < 2 ^ 32 then a + b else - 1)"

definition has_syntax :: "string \<Rightarrow> bool" where
  "has_syntax txt \<longleftrightarrow> contains ''```'' txt \<or> (contains ''{'' txt \<and> contains ''}'' txt)"

definition calculate_complexity :: "(string \<Rightarrow> string) \<Rightarrow> string \<Rightarrow> 32 word" where
  "calculate_complexity lower txt =
     (let lowered = lower txt;
          s0 = saturating_add 10 (word_of_nat (length txt) div 50);
          s1 = fold (\<lambda>kw s. if contains kw lowered then saturating_add s 20 else s) COMPLEXITY_KEYWORDS s0
      in if has_syntax txt then saturating_add s1 30 else s1)"

definition decision :: "32 word \<Rightarrow> routing_tier \<Rightarrow> tier_config \<Rightarrow> routing_decision" where
  "decision score tier cfg = \<lparr>rd_score = score, rd_tier = tier, rd_upstream_url = tier_url cfg,
     rd_credential = tier_credential cfg, rd_model = tier_model cfg\<rparr>"

definition route :: "(string \<Rightarrow> string) \<Rightarrow> string \<Rightarrow> load_balancer_config \<Rightarrow> routing_decision" where
  "route lower txt cfg =
     (let score = calculate_complexity lower txt;
          threshold = (case lb_smart_threshold cfg of Some t \<Rightarrow> t | None \<Rightarrow> 40)
      in if threshold \<le> score then decision score Smart (lb_smart_tier cfg)
         else decision score Fast (lb_fast_tier cfg))"

subsection \<open>The score\<close>

lemma unat_saturating_add:
  "unat (saturating_add a b) = min (unat a + unat b) (2 ^ 32 - 1)"
proof (cases "unat a + unat b < 2 ^ 32")
  case True
  then have "unat (a + b) = unat a + unat b" by (simp add: unat_add_lem [symmetric])
  with True show ?thesis by (simp add: saturating_add_def)
next
  case False
  moreover have "unat (- 1 :: 32 word) = 2 ^ 32 - 1"
    by (simp add: unsigned_minus_1_eq_mask mask_eq_exp_minus_1)
  ultimately show ?thesis by (simp add: saturating_add_def)
qed

definition keyword_count :: "string \<Rightarrow> nat" where
  "keyword_count lowered = length (filter (\<lambda>kw. contains kw lowered) COMPLEXITY_KEYWORDS)"

lemma unat_fold_keywords:
  "unat s + 20 * length kws < 2 ^ 32 \<Longrightarrow>
   unat (fold (\<lambda>kw s. if contains kw l then saturating_add s 20 else s) kws s) =
   unat s + 20 * length (filter (\<lambda>kw. contains kw l) kws)"
proof (induction kws arbitrary: s)
  case (Cons k kws)
  then have "unat (saturating_add s 20) = unat s + 20" by (simp add: unat_saturating_add)
  with Cons show ?case by simp
qed simp

text \<open>
  The score is exactly the sum of its table, and never saturates: for every text that
  fits in 4 GiB it is 10, plus one per 50 bytes, plus 20 per distinct keyword present, plus
  30 for code or JSON syntax; and the smart tier is chosen exactly when the score reaches
  the threshold.
\<close>

theorem complexity_exact:
  assumes "length txt < 2 ^ 32"
  shows "unat (calculate_complexity lower txt) =
      10 + length txt div 50 + 20 * keyword_count (lower txt) + (if has_syntax txt then 30 else 0) \<and>
    (rd_tier (route lower txt cfg) = Smart \<longleftrightarrow>
      (case lb_smart_threshold cfg of Some t \<Rightarrow> unat t | None \<Rightarrow> 40) \<le>
        unat (calculate_complexity lower txt)) \<and>
    rd_upstream_url (route lower txt cfg) =
      (if rd_tier (route lower txt cfg) = Smart then tier_url (lb_smart_tier cfg)
       else tier_url (lb_fast_tier cfg)) \<and>
    rd_credential (route lower txt cfg) =
      (if rd_tier (route lower txt cfg) = Smart then tier_credential (lb_smart_tier cfg)
       else tier_credential (lb_fast_tier cfg))"
proof -
  have len: "unat (word_of_nat (length txt) div 50 :: 32 word) = length txt div 50"
    using assms by (simp add: unat_div unat_of_nat take_bit_nat_eq_self)
  have small: "length txt div 50 \<le> 85899345" using assms by simp
  let ?s0 = "saturating_add 10 (word_of_nat (length txt) div 50)"
  have s0: "unat ?s0 = 10 + length txt div 50"
    using small by (simp add: unat_saturating_add len)
  have ten: "length COMPLEXITY_KEYWORDS = 10" by (simp add: COMPLEXITY_KEYWORDS_def)
  have count: "keyword_count l \<le> 10" for l
    unfolding keyword_count_def ten [symmetric] by (rule length_filter_le)
  let ?s1 = "fold (\<lambda>kw s. if contains kw (lower txt) then saturating_add s 20 else s) COMPLEXITY_KEYWORDS ?s0"
  have s1: "unat ?s1 = 10 + length txt div 50 + 20 * keyword_count (lower txt)"
    using small by (simp add: unat_fold_keywords s0 ten keyword_count_def)
  have score: "unat (calculate_complexity lower txt) =
      10 + length txt div 50 + 20 * keyword_count (lower txt) + (if has_syntax txt then 30 else 0)"
    using s1 small count [of "lower txt"]
    by (simp add: calculate_complexity_def Let_def unat_saturating_add)
  have tier: "rd_tier (route lower txt cfg) = Smart \<longleftrightarrow>
      (case lb_smart_threshold cfg of Some t \<Rightarrow> unat t | None \<Rightarrow> 40) \<le>
        unat (calculate_complexity lower txt)"
    by (simp add: route_def Let_def decision_def word_le_nat_alt split: option.splits)
  let ?r = "route lower txt cfg" and ?s = "calculate_complexity lower txt"
  have "?r = decision ?s Smart (lb_smart_tier cfg) \<or> ?r = decision ?s Fast (lb_fast_tier cfg)"
    by (simp add: route_def Let_def)
  then have "rd_upstream_url ?r =
      (if rd_tier ?r = Smart then tier_url (lb_smart_tier cfg) else tier_url (lb_fast_tier cfg)) \<and>
    rd_credential ?r = (if rd_tier ?r = Smart then tier_credential (lb_smart_tier cfg)
       else tier_credential (lb_fast_tier cfg))"
    by (auto simp: decision_def)
  with score tier show ?thesis by blast
qed

lemma complexity_exact_witness:
  "unat (calculate_complexity (\<lambda>s. s) ''debug this {}'') = 60"
proof -
  have "has_syntax ''debug this {}''" and "keyword_count ''debug this {}'' = 1"
    by (simp_all add: has_syntax_def keyword_count_def COMPLEXITY_KEYWORDS_def starts_with_def)
  with complexity_exact [of "''debug this {}''" "\<lambda>s. s" undefined] show ?thesis by simp
qed

end
