(* ===== verification/Rate_Limit.thy ===== *)
theory Rate_Limit
  imports Prelude "HOL-Library.AList" "HOL-Library.Word"
begin

section \<open>Per-client rate limiting (src/security/rate\_limit.rs)\<close>

text \<open>
  Token buckets on \<open>u32\<close>.  Instants are natural numbers of nanoseconds.  The refill
  \<open>(elapsed * max / 60.0).floor() as u32\<close> is computed exactly here (the source uses
  \<open>f64\<close>) and saturates at the largest \<open>u32\<close>; adding it to the tokens wraps, as in a release
  build.  \<open>try_consume\<close> reads the clock twice.  The key type of the map is left open.
\<close>

definition NANOS_PER_MINUTE :: nat where
  "NANOS_PER_MINUTE = 60 * 10 ^ 9"

definition IDLE_PRUNE_AGE :: nat where
  "IDLE_PRUNE_AGE = 120 * 10 ^ 9"

definition DEFAULT_REQUESTS_PER_MINUTE :: "32 word" where
  "DEFAULT_REQUESTS_PER_MINUTE = 1200"

record token_bucket =
  tokens :: "32 word"
  max_tokens :: "32 word"
  last_refill :: nat

definition new_bucket :: "32 word \<Rightarrow> nat \<Rightarrow> token_bucket" where
  "new_bucket m now = \<lparr>tokens = m, max_tokens = m, last_refill = now\<rparr>"

definition refill_amount :: "nat \<Rightarrow> token_bucket \<Rightarrow> nat" where
  "refill_amount now b =
     min (((now - last_refill b) * unat (max_tokens b)) div NANOS_PER_MINUTE) (2 ^ 32 - 1)"

definition refill :: "nat \<Rightarrow> nat \<Rightarrow> token_bucket \<Rightarrow> token_bucket" where
  "refill now now' b =
     (let new_tokens = refill_amount now b
      in if 0 < new_tokens
         then b\<lparr>tokens := min (tokens b + word_of_nat new_tokens) (max_tokens b), last_refill := now'\<rparr>
         else b)"

definition try_consume :: "nat \<Rightarrow> nat \<Rightarrow> token_bucket \<Rightarrow> bool \<times> token_bucket" where
  "try_consume now now' b =
     (let b' = refill now now' b
      in if 0 < tokens b' then (True, b'\<lparr>tokens := tokens b' - 1\<rparr>) else (False, b'))"

definition is_idle :: "nat \<Rightarrow> token_bucket \<Rightarrow> bool" where
  "is_idle now b \<longleftrightarrow> IDLE_PRUNE_AGE \<le> now - last_refill b"

record 'k limiter =
  buckets :: "('k \<times> token_bucket) list"
  requests_per_minute :: "32 word"

definition new_limiter :: "32 word \<Rightarrow> 'k limiter" where
  "new_limiter rpm = \<lparr>buckets = [], requests_per_minute = max rpm 1\<rparr>"

text \<open>\<open>now0\<close> is the clock of \<open>TokenBucket::new\<close> when the address has no bucket yet.\<close>

definition check :: "nat \<Rightarrow> nat \<Rightarrow> nat \<Rightarrow> 'k \<Rightarrow> 'k limiter \<Rightarrow> bool \<times> 'k limiter" where
  "check now0 now now' ip l =
     (let bucket = (case map_of (buckets l) ip of
            Some b \<Rightarrow> b | None \<Rightarrow> new_bucket (requests_per_minute l) now0);
          (ok, bucket') = try_consume now now' bucket
      in (ok, l\<lparr>buckets := AList.update ip bucket' (buckets l)\<rparr>))"

definition prune :: "nat \<Rightarrow> 'k limiter \<Rightarrow> 'k limiter" where
  "prune now l = l\<lparr>buckets := filter (\<lambda>(ip, b). \<not> is_idle now b) (buckets l)\<rparr>"

subsection \<open>One bucket\<close>

definition bucket_wf :: "token_bucket \<Rightarrow> bool" where
  "bucket_wf b \<longleftrightarrow> tokens b \<le> max_tokens b"

text \<open>The refill does not wrap.\<close>

definition no_wrap :: "nat \<Rightarrow> token_bucket \<Rightarrow> bool" where
  "no_wrap now b \<longleftrightarrow> unat (tokens b) + refill_amount now b < 2 ^ 32"

lemma unat32: "unat w < 2 ^ 32" for w :: "32 word"
  using unsigned_less [of w, where 'a = nat] by simp

lemma unat_add_small:
  "unat a + unat b < 2 ^ 32 \<Longrightarrow> unat (a + b) = unat a + unat b" for a b :: "32 word"
  by (simp add: unat_add_lem [symmetric])

lemma refill_props:
  assumes "bucket_wf b" and "no_wrap now b"
  shows "bucket_wf (refill now now' b) \<and> max_tokens (refill now now' b) = max_tokens b \<and>
    unat (tokens (refill now now' b)) = min (unat (tokens b) + refill_amount now b) (unat (max_tokens b)) \<and>
    last_refill (refill now now' b) = (if 0 < refill_amount now b then now' else last_refill b)"
proof (cases "0 < refill_amount now b")
  case True
  let ?n = "refill_amount now b"
  have n: "?n < 2 ^ 32" using assms(2) by (simp add: no_wrap_def)
  have "unat (tokens b + word_of_nat ?n) = unat (tokens b) + ?n"
  proof -
    have "unat (word_of_nat ?n :: 32 word) = ?n"
      using n by (simp add: unat_of_nat take_bit_nat_eq_self)
    with unat_add_small [of "tokens b" "word_of_nat ?n"] assms(2) show ?thesis
      by (simp add: no_wrap_def)
  qed
  then show ?thesis using True by (auto simp: refill_def bucket_wf_def min_def word_le_nat_alt)
next
  case False
  with assms(1) show ?thesis by (simp add: refill_def bucket_wf_def word_le_nat_alt)
qed

lemma try_consume_props:
  assumes "bucket_wf b" and "no_wrap now b" and "try_consume now now' b = (ok, b')"
  shows "bucket_wf b' \<and> max_tokens b' = max_tokens b \<and>
    unat (tokens b') + (if ok then 1 else 0) =
      min (unat (tokens b) + refill_amount now b) (unat (max_tokens b)) \<and>
    last_refill b' = (if 0 < refill_amount now b then now' else last_refill b) \<and>
    (ok \<longleftrightarrow> 0 < min (unat (tokens b) + refill_amount now b) (unat (max_tokens b)))"
proof -
  note r = refill_props [OF assms(1,2), of now']
  let ?b = "refill now now' b"
  have pos: "0 < tokens ?b \<longleftrightarrow> 0 < unat (tokens ?b)" by (simp add: word_less_nat_alt)
  show ?thesis
  proof (cases "0 < tokens ?b")
    case True
    then have "unat (tokens ?b - 1) = unat (tokens ?b) - 1"
      by (intro unat_minus_one) auto
    moreover have "ok" "b' = ?b\<lparr>tokens := tokens ?b - 1\<rparr>"
      using assms(3) True by (simp_all add: try_consume_def Let_def)
    ultimately show ?thesis
      using r True pos by (auto simp: bucket_wf_def word_le_nat_alt)
  next
    case False
    then have "\<not> ok" "b' = ?b" using assms(3) by (simp_all add: try_consume_def Let_def)
    with r False pos show ?thesis by simp
  qed
qed

subsection \<open>The budget\<close>

text \<open>A client's requests at the given clock readings; the number let through.\<close>

fun allowed :: "(nat \<times> nat) list \<Rightarrow> token_bucket \<Rightarrow> nat \<times> token_bucket" where
  "allowed [] b = (0, b)"
| "allowed ((now, now') # ts) b =
     (let (ok, b') = try_consume now now' b; (n, b'') = allowed ts b'
      in ((if ok then 1 else 0) + n, b''))"

text \<open>Clock readings that go up, from \<open>t\<close> to at most \<open>t_end\<close>.\<close>

fun clock_ok :: "nat \<Rightarrow> (nat \<times> nat) list \<Rightarrow> nat \<Rightarrow> bool" where
  "clock_ok t [] t_end \<longleftrightarrow> t \<le> t_end"
| "clock_ok t ((now, now') # ts) t_end \<longleftrightarrow> t \<le> now \<and> now \<le> now' \<and> clock_ok now' ts t_end"

lemma clock_ok_le: "clock_ok t ts t_end \<Longrightarrow> t \<le> t_end"
  by (induction t ts t_end rule: clock_ok.induct) auto

lemma allowed_bound:
  assumes "bucket_wf b" and "last_refill b \<le> t" and "clock_ok t ts t_end"
    and "(t_end - last_refill b) * unat (max_tokens b) div NANOS_PER_MINUTE + unat (max_tokens b) < 2 ^ 32"
    and "allowed ts b = (n, b')"
  shows "n * NANOS_PER_MINUTE \<le>
    unat (tokens b) * NANOS_PER_MINUTE + (t_end - last_refill b) * unat (max_tokens b)"
  using assms
proof (induction ts arbitrary: b t n b')
  case Nil
  then show ?case by simp
next
  case (Cons x ts)
  obtain now now' where x: "x = (now, now')" by (cases x)
  obtain ok b1 where c: "try_consume now now' b = (ok, b1)" by (cases "try_consume now now' b")
  obtain m b2 where rest: "allowed ts b1 = (m, b2)" by (cases "allowed ts b1")
  have n: "n = (if ok then 1 else 0) + m" using Cons.prems(5) x c rest by simp
  let ?M = "unat (max_tokens b)" and ?D = NANOS_PER_MINUTE
  let ?r = "refill_amount now b"
  have clock: "t \<le> now" "now \<le> now'" "clock_ok now' ts t_end" using Cons.prems(3) x by simp_all
  have le_end: "now' \<le> t_end" using clock_ok_le [OF clock(3)] .
  have tok: "unat (tokens b) \<le> ?M" using Cons.prems(1) by (simp add: bucket_wf_def word_le_nat_alt)
  have r_le: "?r \<le> (now - last_refill b) * ?M div ?D" by (simp add: refill_amount_def)
  also have "\<dots> \<le> (t_end - last_refill b) * ?M div ?D"
    using clock le_end by (intro div_le_mono mult_right_mono) auto
  finally have "no_wrap now b" using Cons.prems(4) tok by (simp add: no_wrap_def)
  note p = try_consume_props [OF Cons.prems(1) this c]
  have r_D: "?r * ?D \<le> (now - last_refill b) * ?M"
  proof -
    have "?r * ?D \<le> ((now - last_refill b) * ?M div ?D) * ?D" using r_le by (rule mult_le_mono1)
    then show ?thesis using div_times_less_eq_dividend le_trans by blast
  qed
  have last: "last_refill b \<le> last_refill b1" "last_refill b1 \<le> now'"
    using p clock Cons.prems(2) by (auto split: if_splits)
  have "(t_end - last_refill b1) * ?M div ?D \<le> (t_end - last_refill b) * ?M div ?D"
    using last by (intro div_le_mono mult_right_mono) auto
  with Cons.prems(4) p have small:
    "(t_end - last_refill b1) * unat (max_tokens b1) div ?D + unat (max_tokens b1) < 2 ^ 32" by simp
  have IH: "m * ?D \<le> unat (tokens b1) * ?D + (t_end - last_refill b1) * ?M"
    using Cons.IH [OF _ last(2) clock(3) small rest] p by simp
  have "n * ?D \<le> (unat (tokens b1) + (if ok then 1 else 0)) * ?D + (t_end - last_refill b1) * ?M"
    using IH by (simp add: n algebra_simps)
  also have "\<dots> \<le> (unat (tokens b) + ?r) * ?D + (t_end - last_refill b1) * ?M"
  proof -
    have "unat (tokens b1) + (if ok then 1 else 0) = min (unat (tokens b) + ?r) (unat (max_tokens b))"
      using p by blast
    then have "unat (tokens b1) + (if ok then 1 else 0) \<le> unat (tokens b) + ?r" by linarith
    from mult_le_mono1 [OF this, of ?D] show ?thesis by simp
  qed
  also have "\<dots> \<le> unat (tokens b) * ?D + (t_end - last_refill b) * ?M"
  proof (cases "0 < ?r")
    case True
    then have l1: "last_refill b1 = now'" using p by simp
    have "(now - last_refill b) * ?M + (t_end - now') * ?M \<le> (t_end - last_refill b) * ?M"
    proof -
      have "(now - last_refill b) + (t_end - now') \<le> t_end - last_refill b"
        using clock le_end Cons.prems(2) by linarith
      from mult_le_mono1 [OF this, of ?M] show ?thesis by (simp add: algebra_simps)
    qed
    with r_D l1 show ?thesis by (simp add: algebra_simps)
  next
    case False
    then show ?thesis using p by simp
  qed
  finally show ?case .
qed

text \<open>
  The limiter enforces its budget: from a fresh bucket of \<open>m\<close> tokens, whatever the
  pattern of requests, the number let through in the first \<open>T\<close> nanoseconds is at most the
  burst \<open>m\<close> plus the sustained rate \<open>m\<close> per minute over \<open>T\<close>, as long as \<open>m\<close> and \<open>T\<close> are
  small enough that no refill can wrap the 32-bit counter.
\<close>

theorem rate_bound:
  assumes "clock_ok t0 ts (t0 + T)" and "T * unat m div NANOS_PER_MINUTE + unat m < 2 ^ 32"
  shows "fst (allowed ts (new_bucket m t0)) * NANOS_PER_MINUTE \<le>
    unat m * NANOS_PER_MINUTE + T * unat m"
proof -
  obtain n b' where "allowed ts (new_bucket m t0) = (n, b')" by (cases "allowed ts (new_bucket m t0)")
  with allowed_bound [of "new_bucket m t0" t0 ts "t0 + T" n b'] assms show ?thesis
    by (simp add: new_bucket_def bucket_wf_def)
qed

lemma rate_bound_witness:
  "fst (allowed [(0, 0), (1, 1), (2, 2)] (new_bucket 2 0)) * NANOS_PER_MINUTE \<le>
     2 * NANOS_PER_MINUTE + 2 * 2"
  using rate_bound [of 0 "[(0, 0), (1, 1), (2, 2)]" 2 2] by (simp add: NANOS_PER_MINUTE_def)

subsection \<open>Clients do not affect each other, and pruning is invisible\<close>

text \<open>
  Budgets are per client and pruning is invisible: a check of one address leaves every
  other bucket alone, and for an idle bucket whose refill does not wrap a request gets the
  same answer and leaves the same tokens whether or not the bucket was pruned before.
\<close>

theorem limiter_isolated_and_prunable:
  assumes "bucket_wf b" and "no_wrap now b" and "is_idle now b" and "0 < max_tokens b"
  shows "(ip' \<noteq> ip \<longrightarrow> map_of (buckets (snd (check now0 now now' ip l))) ip' = map_of (buckets l) ip') \<and>
    fst (try_consume now now' b) = fst (try_consume now now' (new_bucket (max_tokens b) now)) \<and>
    tokens (snd (try_consume now now' b)) =
      tokens (snd (try_consume now now' (new_bucket (max_tokens b) now)))"
proof -
  let ?M = "unat (max_tokens b)"
  let ?f = "new_bucket (max_tokens b) now"
  have M: "0 < ?M" using assms(4) by (simp add: word_less_nat_alt)
  have "2 * ?M * NANOS_PER_MINUTE \<le> (now - last_refill b) * ?M"
    using assms(3) by (simp add: is_idle_def IDLE_PRUNE_AGE_def NANOS_PER_MINUTE_def)
  then have "2 * ?M \<le> (now - last_refill b) * ?M div NANOS_PER_MINUTE"
    by (simp add: NANOS_PER_MINUTE_def less_eq_div_iff_mult_less_eq)
  moreover have "?M \<le> 2 ^ 32 - 1" using unat32 [of "max_tokens b"] by simp
  ultimately have full: "?M \<le> refill_amount now b" by (simp add: refill_amount_def)
  have f0: "refill_amount now ?f = 0" by (simp add: refill_amount_def new_bucket_def)
  have wf: "bucket_wf ?f" and nw: "no_wrap now ?f"
    using f0 unat32 [of "max_tokens b"]
    by (simp_all add: bucket_wf_def new_bucket_def no_wrap_def)
  obtain ok b1 where c: "try_consume now now' b = (ok, b1)" by (cases "try_consume now now' b")
  obtain okf bf where cf: "try_consume now now' ?f = (okf, bf)" by (cases "try_consume now now' ?f")
  note p = try_consume_props [OF assms(1,2) c] and pf = try_consume_props [OF wf nw cf]
  have lvl: "min (unat (tokens b) + refill_amount now b) ?M = ?M" using full by simp
  have lvlf: "min (unat (tokens ?f) + refill_amount now ?f) (unat (max_tokens ?f)) = ?M"
    by (simp add: f0) (simp add: new_bucket_def)
  from p lvl M have ok: ok by simp
  from pf lvlf M have okf: okf by simp
  from p ok lvl have "unat (tokens b1) + 1 = ?M" by auto
  moreover from pf okf lvlf have "unat (tokens bf) + 1 = ?M" by auto
  ultimately have "unat (tokens b1) = unat (tokens bf)" by linarith
  with ok okf have "ok = okf \<and> tokens b1 = tokens bf" by (simp add: word_unat_eq_iff)
  then show ?thesis
    by (simp add: c cf) (simp add: check_def Let_def split_beta update_conv')
qed

lemma limiter_isolated_and_prunable_witness:
  "fst (try_consume (200 * 10 ^ 9) (200 * 10 ^ 9) \<lparr>tokens = 1, max_tokens = 5, last_refill = 0\<rparr>) =
   fst (try_consume (200 * 10 ^ 9) (200 * 10 ^ 9) (new_bucket 5 (200 * 10 ^ 9)))"
proof -
  let ?b = "\<lparr>tokens = 1, max_tokens = 5, last_refill = 0\<rparr>" and ?now = "200 * 10 ^ 9 :: nat"
  have "bucket_wf ?b" by (simp add: bucket_wf_def word_le_nat_alt)
  moreover have "no_wrap ?now ?b" by (simp add: no_wrap_def refill_amount_def NANOS_PER_MINUTE_def)
  moreover have "is_idle ?now ?b" by (simp add: is_idle_def IDLE_PRUNE_AGE_def)
  moreover have "0 < max_tokens ?b" by simp
  ultimately show ?thesis
    using limiter_isolated_and_prunable [where b = ?b and now = ?now and now' = ?now
      and ip = "0::nat" and ip' = 1 and now0 = 0 and l = "new_limiter 1"] by simp
qed

text \<open>
  With a very large budget the refill wraps the counter: a bucket of \<open>2 ^ 31\<close> tokens that
  has 5 left and then idles for two minutes comes back with 4 instead of a full bucket.
\<close>

lemma refill_wraps:
  "tokens (refill (120 * 10 ^ 9) (120 * 10 ^ 9) \<lparr>tokens = 5, max_tokens = 2147483648, last_refill = 0\<rparr>) = 4"
  by (simp add: refill_def refill_amount_def NANOS_PER_MINUTE_def Let_def min_def word_le_nat_alt)

end
