(* ===== verification/Smuggling.thy ===== *)
theory Smuggling
  imports Prelude
begin

section \<open>Request smuggling protection (src/security/smuggling.rs)\<close>

text \<open>
  A \<open>HeaderMap\<close> is the list of its name/value pairs, names in lower case; a name may occur
  more than once and \<open>get\<close> returns the first value.  \<open>to_str\<close> succeeds on visible ASCII
  and tabs.  \<open>lower\<close> and \<open>upper\<close> are Unicode case mapping.
\<close>

type_synonym header_map = "(string \<times> string) list"

definition header_to_str :: "string \<Rightarrow> string option" where
  "header_to_str v =
     (if list_all (\<lambda>c. (32 \<le> byte_of c \<and> byte_of c < 127) \<or> byte_of c = 9) v then Some v else None)"

definition contains_key :: "header_map \<Rightarrow> string \<Rightarrow> bool" where
  "contains_key h name \<longleftrightarrow> name \<in> fst ` set h"

definition get_header :: "header_map \<Rightarrow> string \<Rightarrow> string option" where
  "get_header h name = map_of h name"

definition remove_header :: "string \<Rightarrow> header_map \<Rightarrow> header_map" where
  "remove_header name h = filter (\<lambda>(n, v). n \<noteq> name) h"

record smuggling_config =
  block_transfer_encoding :: bool
  allowed_transfer_encoding :: "string list"
  reject_ambiguous_requests :: bool
  require_content_length :: bool
  log_blocked_requests :: bool

definition default_smuggling_config :: smuggling_config where
  "default_smuggling_config = \<lparr>block_transfer_encoding = True, allowed_transfer_encoding = [],
     reject_ambiguous_requests = True, require_content_length = True, log_blocked_requests = True\<rparr>"

record header_security_result =
  hs_blocked :: bool
  hs_reason :: "string option"
  hs_warnings :: "string list"
  hs_modified :: bool

definition SUSPICIOUS_TE_VALUES :: "string list" where
  "SUSPICIOUS_TE_VALUES = [''chunked'', ''compress'', ''deflate'', ''gzip'', ''identity'']"

text \<open>\<open>str::parse::<u64>\<close>: an optional plus sign, decimal digits, within range.\<close>

definition parse_u64 :: "string \<Rightarrow> nat option" where
  "parse_u64 s =
     (let d = (case s of c # cs \<Rightarrow> if c = CHR ''+'' then cs else s | [] \<Rightarrow> s) in
      if d = [] \<or> \<not> list_all is_ascii_digit d then None
      else (let n = foldl (\<lambda>n c. n * 10 + (byte_of c - 48)) 0 d in
            if n < 2 ^ 64 then Some n else None))"

definition TE :: string where "TE = ''transfer-encoding''"
definition CL :: string where "CL = ''content-length''"

definition te_reason :: "string \<Rightarrow> string" where
  "te_reason te = ''Transfer-Encoding header contains dangerous value '' @ [CHR 0x27] @ te @ [CHR 0x27] @
     '' - potential request smuggling''"

definition AMBIGUOUS_REASON :: string where
  "AMBIGUOUS_REASON =
     ''Ambiguous request: contains both Transfer-Encoding and Content-Length headers.''"

definition te_dangerous :: "(string \<Rightarrow> string) \<Rightarrow> smuggling_config \<Rightarrow> string \<Rightarrow> bool" where
  "te_dangerous lower cfg te \<longleftrightarrow>
     block_transfer_encoding cfg \<and>
     \<not> list_ex (\<lambda>a. contains (lower a) te) (allowed_transfer_encoding cfg) \<and>
     list_ex (\<lambda>s. contains s te) SUSPICIOUS_TE_VALUES"

definition check_request_headers ::
  "(string \<Rightarrow> string) \<Rightarrow> (string \<Rightarrow> string) \<Rightarrow> header_map \<Rightarrow> string \<Rightarrow> smuggling_config \<Rightarrow>
   header_security_result" where
  "check_request_headers lower upper headers meth cfg =
     (let with_body = upper meth \<in> set [''POST'', ''PUT'', ''PATCH'', ''DELETE''];
          has_te = contains_key headers TE;
          te_value = (if has_te then map_option lower (Option.bind (get_header headers TE) header_to_str)
                      else None);
          has_cl = contains_key headers CL;
          cl_value = (if has_cl then Option.bind (get_header headers CL) header_to_str else None);
          (blocked1, reason1) = (case te_value of
              Some te \<Rightarrow> if te_dangerous lower cfg te then (True, Some (te_reason te)) else (False, None)
            | None \<Rightarrow> (False, None));
          (blocked, reason) =
            (if \<not> blocked1 \<and> has_te \<and> has_cl \<and> reject_ambiguous_requests cfg
             then (True, Some AMBIGUOUS_REASON) else (blocked1, reason1));
          w1 = (if \<not> blocked \<and> with_body \<and> require_content_length cfg \<and> \<not> has_cl
                then [''Request with body but no Content-Length header''] else []);
          w2 = (case cl_value of
              Some cl \<Rightarrow> if parse_u64 cl = None then [''Invalid Content-Length value: '' @ cl] else []
            | None \<Rightarrow> [])
      in \<lparr>hs_blocked = blocked, hs_reason = reason, hs_warnings = w1 @ w2, hs_modified = False\<rparr>)"

definition HOP_BY_HOP :: "string list" where
  "HOP_BY_HOP = [''connection'', ''keep-alive'', ''proxy-authenticate'', ''proxy-authorization'',
     ''te'', ''trailers'', ''transfer-encoding'', ''upgrade'']"

definition sanitize_headers :: "header_map \<Rightarrow> header_map" where
  "sanitize_headers headers =
     (let h = (if contains_key headers TE then remove_header TE headers else headers) in
      fold (\<lambda>name h. if name \<noteq> ''te'' \<and> name \<noteq> ''connection'' \<and> name \<noteq> ''keep-alive''
                     then remove_header name h else h) HOP_BY_HOP h)"

subsection \<open>Properties\<close>

text \<open>
  A request is blocked exactly when its readable transfer encoding is dangerous (not
  allowed by configuration and naming a known coding) or when it carries both framing
  headers and ambiguity is rejected; and a reason is given exactly then.
\<close>

theorem smuggling_blocked_iff:
  "hs_blocked (check_request_headers lower upper h meth cfg) =
     ((\<exists>v te. get_header h TE = Some v \<and> header_to_str v = Some te \<and> te_dangerous lower cfg (lower te)) \<or>
      contains_key h TE \<and> contains_key h CL \<and> reject_ambiguous_requests cfg) \<and>
   (hs_reason (check_request_headers lower upper h meth cfg) = None \<longleftrightarrow>
     \<not> hs_blocked (check_request_headers lower upper h meth cfg))"
proof -
  have key: "contains_key h TE \<longleftrightarrow> get_header h TE \<noteq> None"
    by (simp add: contains_key_def get_header_def map_of_eq_None_iff del: not_None_eq)
  show ?thesis
    by (cases "get_header h TE"; cases "Option.bind (get_header h TE) header_to_str")
      (auto simp: check_request_headers_def Let_def key split: if_splits)
qed

lemma remove_header_simps:
  "remove_header a (remove_header a h) = remove_header a h"
  "set (remove_header a h) = {x \<in> set h. fst x \<noteq> a}"
  by (auto simp: remove_header_def)

text \<open>
  After sanitizing, no header that frames the message or addresses the proxy is
  forwarded, and every other header is kept in its place.
\<close>

lemma sanitize_headers_exact:
  "sanitize_headers h = filter (\<lambda>(n, v). n \<notin> {''transfer-encoding'', ''proxy-authenticate'',
     ''proxy-authorization'', ''trailers'', ''upgrade''}) h"
proof -
  have no_te: "\<not> contains_key h TE \<Longrightarrow> remove_header TE h = h"
    by (auto simp: contains_key_def remove_header_def filter_id_conv image_iff)
  then have "sanitize_headers h = fold (\<lambda>name h. if name \<noteq> ''te'' \<and> name \<noteq> ''connection'' \<and>
      name \<noteq> ''keep-alive'' then remove_header name h else h) HOP_BY_HOP (remove_header TE h)"
    by (simp add: sanitize_headers_def)
  also have "\<dots> = filter (\<lambda>(n, v). n \<notin> {''transfer-encoding'', ''proxy-authenticate'',
     ''proxy-authorization'', ''trailers'', ''upgrade''}) h"
    by (auto simp: HOP_BY_HOP_def remove_header_def TE_def intro!: filter_cong)
  finally show ?thesis .
qed

text \<open>
  The names \<open>connection\<close>, \<open>keep-alive\<close> and \<open>te\<close> are in the list of hop-by-hop headers
  but are skipped.  Only the first transfer encoding is looked at: a second one that names
  chunked coding goes through the check.
\<close>

lemma hop_by_hop_kept:
  "sanitize_headers [(''connection'', ''x''), (''te'', ''trailers'')] = [(''connection'', ''x''), (''te'', ''trailers'')]"
  by (simp add: sanitize_headers_def contains_key_def TE_def HOP_BY_HOP_def remove_header_def)

lemma second_transfer_encoding_unchecked:
  "\<not> hs_blocked (check_request_headers id id [(TE, ''x''), (TE, ''chunked'')] ''POST'' default_smuggling_config)"
  by (simp add: check_request_headers_def default_smuggling_config_def te_dangerous_def
      SUSPICIOUS_TE_VALUES_def contains_key_def TE_def CL_def get_header_def header_to_str_def
      starts_with_def)

end
