(* ===== verification/Normalizer.thy ===== *)
theory Normalizer
  imports Prelude
begin

section \<open>The matching form of a text (src/security/normalizer.rs)\<close>

text \<open>
  \<open>normalize_for_matching\<close> and its helpers.  Unicode composition (NFKC), Unicode
  lower-casing and the decoders of the \<open>urlencoding\<close> and \<open>html_escape\<close> crates are
  parameters, the fields of \<open>norm_ext\<close>.  The lemmas show which disguises the normal form
  undoes: zero-width characters, homoglyphs, and up to five layers of percent encoding.
\<close>

record norm_ext =
  nfkc :: "string \<Rightarrow> string"
  to_lowercase :: "string \<Rightarrow> string"
  url_decode :: "string \<Rightarrow> string option"
  html_decode :: "string \<Rightarrow> string"

subsection \<open>Tables\<close>

text \<open>The UTF-8 bytes of a code point of the basic plane.\<close>

definition utf8 :: "nat \<Rightarrow> string" where
  "utf8 u =
     (if u < 128 then [char_of u]
      else if u < 2048 then [char_of (192 + u div 64), char_of (128 + u mod 64)]
      else [char_of (224 + u div 4096), char_of (128 + u div 64 mod 64), char_of (128 + u mod 64)])"

definition zero_width_points :: "nat list" where
  "zero_width_points =
     [0x200B, 0x200C, 0x200D, 0x200E, 0x200F, 0xFEFF, 0x202A, 0x202B,
      0x202C, 0x202D, 0x202E, 0x2060, 0x2061, 0x2062, 0x2063]"

definition ZERO_WIDTH_CHARS :: "string list" where
  "ZERO_WIDTH_CHARS = map utf8 zero_width_points"

definition homoglyph_points :: "(nat \<times> string) list" where
  "homoglyph_points =
     [(0x0430, ''a''), (0x0435, ''e''), (0x043E, ''o''), (0x0440, ''p''), (0x0441, ''c''),
      (0x0445, ''x''), (0x0433, ''g''), (0x0434, ''d''), (0x0443, ''y''), (0x0437, ''z''),
      (0x0438, ''i''), (0x043A, ''k''), (0x043B, ''l''), (0x043C, ''m''), (0x043D, ''n''),
      (0x0442, ''t''), (0x0444, ''f''), (0x03B1, ''a''), (0x03B5, ''e''), (0x03BF, ''o''),
      (0x03C1, ''p''), (0x03C3, ''c''), (0xFF21, ''A''), (0xFF41, ''a''), (0x212A, ''K'')]"

definition HOMOGLYPH_MAPPINGS :: "(string \<times> string) list" where
  "HOMOGLYPH_MAPPINGS = map (\<lambda>(u, r). (utf8 u, r)) homoglyph_points"

definition MAX_DECODE_DEPTH :: nat where "MAX_DECODE_DEPTH = 5"
definition MAX_DECODE_BYTES :: nat where "MAX_DECODE_BYTES = 1024 * 1024"

subsection \<open>Operations\<close>

definition fold_char :: "string \<Rightarrow> string" where
  "fold_char c =
     (if c \<in> set ZERO_WIDTH_CHARS then []
      else (case map_of HOMOGLYPH_MAPPINGS c of Some r \<Rightarrow> r | None \<Rightarrow> c))"

definition fold_chars :: "string \<Rightarrow> string" where
  "fold_chars s = concat (map fold_char (utf8_chars s))"

fun looks_percent_encoded :: "string \<Rightarrow> bool" where
  "looks_percent_encoded (a # b # c # s) \<longleftrightarrow>
     a = CHR ''%'' \<and> is_ascii_hexdigit b \<and> is_ascii_hexdigit c \<or>
     looks_percent_encoded (b # c # s)"
| "looks_percent_encoded _ \<longleftrightarrow> False"

fun entity_start :: "string \<Rightarrow> bool" where
  "entity_start (a # b # s) \<longleftrightarrow>
     a = CHR ''&'' \<and> (b = CHR ''#'' \<or> is_ascii_alphanumeric b) \<or> entity_start (b # s)"
| "entity_start _ \<longleftrightarrow> False"

definition contains_html_entity :: "string \<Rightarrow> bool" where
  "contains_html_entity s \<longleftrightarrow> entity_start s \<and> CHR '';'' \<in> set s"

text \<open>One round: the text after it, and whether anything was decoded.\<close>

definition decode_round :: "norm_ext \<Rightarrow> string \<Rightarrow> string \<times> bool" where
  "decode_round N s =
     (let (current, decoded) =
        (if looks_percent_encoded s
         then (case url_decode N s of Some t \<Rightarrow> (t, True) | None \<Rightarrow> (s, False))
         else (s, False))
      in if contains_html_entity current \<and> html_decode N current \<noteq> current
         then (html_decode N current, True)
         else (current, decoded))"

function decode_recursive :: "norm_ext \<Rightarrow> string \<Rightarrow> nat \<Rightarrow> string" where
  "decode_recursive N s depth =
     (if MAX_DECODE_DEPTH \<le> depth then s
      else (case decode_round N s of
          (current, True) \<Rightarrow> decode_recursive N current (depth + 1)
        | (current, False) \<Rightarrow> current))"
  by pat_completeness auto
termination
  by (relation "measure (\<lambda>(N, s, depth). MAX_DECODE_DEPTH - depth)") auto

declare decode_recursive.simps [simp del]

definition normalize_for_matching :: "norm_ext \<Rightarrow> string \<Rightarrow> string" where
  "normalize_for_matching N content =
     (let result = fold_chars (to_lowercase N (nfkc N content))
      in if length result \<le> MAX_DECODE_BYTES then decode_recursive N result 0 else result)"

subsection \<open>Zero-width characters and homoglyphs\<close>

text \<open>
  A disguise of an ASCII text: zero-width characters anywhere, and letters replaced by
  homoglyphs.
\<close>

inductive disguise :: "string list \<Rightarrow> string \<Rightarrow> bool" where
  disguise_Nil: "disguise [] []"
| disguise_zero_width: "z \<in> set ZERO_WIDTH_CHARS \<Longrightarrow> disguise cs s \<Longrightarrow> disguise (z # cs) s"
| disguise_homoglyph:
    "(h, [c]) \<in> set HOMOGLYPH_MAPPINGS \<Longrightarrow> disguise cs s \<Longrightarrow> disguise (h # cs) (c # s)"
| disguise_plain: "byte_of c < 128 \<Longrightarrow> disguise cs s \<Longrightarrow> disguise ([c] # cs) (c # s)"

text \<open>One well-formed character: a lead byte followed by continuation bytes.\<close>

definition one_char :: "string \<Rightarrow> bool" where
  "one_char c \<longleftrightarrow> (case c of [] \<Rightarrow> False | x # xs \<Rightarrow> \<not> is_utf8_cont x \<and> list_all is_utf8_cont xs)"

lemma span_stops:
  assumes "t = [] \<or> \<not> P (hd t)"
  shows "takeWhile P t = []" and "dropWhile P t = t"
  using assms by (cases t; simp)+

lemma utf8_chars_concat: "list_all one_char cs \<Longrightarrow> utf8_chars (concat cs) = cs"
proof (induction cs)
  case (Cons c cs)
  from Cons.prems have cs: "list_all one_char cs" by simp
  from Cons.prems obtain x xs where c: "c = x # xs" and xs: "list_all is_utf8_cont xs"
    by (auto simp: one_char_def split: list.splits)
  have "concat cs = [] \<or> \<not> is_utf8_cont (hd (concat cs))"
    using cs by (cases cs) (auto simp: one_char_def split: list.splits)
  then have rest: "takeWhile is_utf8_cont (concat cs) = []" "dropWhile is_utf8_cont (concat cs) = concat cs"
    by (rule span_stops)+
  have all: "\<And>x. x \<in> set xs \<Longrightarrow> is_utf8_cont x" using xs by (simp add: list_all_iff)
  have "takeWhile is_utf8_cont (xs @ concat cs) = xs"
    by (simp only: takeWhile_append2 [OF all] rest append_Nil2)
  moreover have "dropWhile is_utf8_cont (xs @ concat cs) = concat cs"
    by (simp only: dropWhile_append2 [OF all] rest)
  ultimately show ?case using Cons.IH [OF cs] by (simp add: c)
qed simp

text \<open>The tables, by code point: \<open>utf8\<close> is injective on the basic plane.\<close>

definition utf8_val :: "string \<Rightarrow> nat" where
  "utf8_val s = (case map byte_of s of
       [a] \<Rightarrow> a
     | [a, b] \<Rightarrow> (a - 192) * 64 + (b - 128)
     | [a, b, c] \<Rightarrow> (a - 224) * 4096 + (b - 128) * 64 + (c - 128)
     | _ \<Rightarrow> 0)"

lemma utf8_val:
  assumes "u < 65536"
  shows "utf8_val (utf8 u) = u"
proof -
  have "u div 4096 = u div 64 div 64" by (simp add: div_mult2_eq)
  then have "u div 4096 * 4096 + u div 64 mod 64 * 64 = u div 64 * 64"
    using div_mult_mod_eq [of "u div 64" 64] by linarith
  then have three: "u div 4096 * 4096 + u div 64 mod 64 * 64 + u mod 64 = u"
    using div_mult_mod_eq [of u 64] by linarith
  have two: "u div 64 * 64 + u mod 64 = u" by (rule div_mult_mod_eq)
  have "u div 64 mod 64 < 64" "u mod 64 < 64" "u div 4096 < 16"
    using assms by (simp_all add: less_mult_imp_div_less)
  moreover have "u div 64 < 32" if "u < 2048" using that by (simp add: less_mult_imp_div_less)
  ultimately show ?thesis
    using two three by (simp add: utf8_val_def utf8_def)
qed

lemma utf8_inj: "u < 65536 \<Longrightarrow> v < 65536 \<Longrightarrow> utf8 u = utf8 v \<longleftrightarrow> u = v"
  by (metis utf8_val)

lemma utf8_one_char: "u < 65536 \<Longrightarrow> one_char (utf8 u)"
proof -
  assume "u < 65536"
  moreover have "u div 64 mod 64 < 64" "u mod 64 < 64" by simp_all
  ultimately show ?thesis
    by (auto simp: utf8_def one_char_def is_utf8_cont_def less_mult_imp_div_less)
qed

lemma utf8_long: "128 \<le> u \<Longrightarrow> utf8 u \<noteq> [c]"
  by (simp add: utf8_def)

lemma points_bounded:
  "list_all (\<lambda>u. 128 \<le> u \<and> u < 65536 \<and> map_of homoglyph_points u = None) zero_width_points"
  "list_all (\<lambda>(u, r). 128 \<le> u \<and> u < 65536 \<and> u \<notin> set zero_width_points \<and>
     map_of homoglyph_points u = Some r) homoglyph_points"
  by (simp_all add: zero_width_points_def homoglyph_points_def)

lemma map_of_utf8:
  "list_all (\<lambda>(u, r). u < 65536) xs \<Longrightarrow> v < 65536 \<Longrightarrow>
   map_of (map (\<lambda>(u, r). (utf8 u, r)) xs) (utf8 v) = map_of xs v"
  by (induction xs) (auto simp: utf8_inj)

lemma zero_width_facts:
  assumes "z \<in> set ZERO_WIDTH_CHARS"
  shows "one_char z" and "fold_char z = []"
  using assms points_bounded(1)
  by (auto simp: ZERO_WIDTH_CHARS_def list_all_iff utf8_one_char fold_char_def)

lemma homoglyph_facts:
  assumes "(h, r) \<in> set HOMOGLYPH_MAPPINGS"
  shows "one_char h" and "fold_char h = r"
proof -
  from assms obtain u where h: "h = utf8 u" and u: "(u, r) \<in> set homoglyph_points"
    by (auto simp: HOMOGLYPH_MAPPINGS_def)
  have bound: "list_all (\<lambda>(u, r). u < 65536) homoglyph_points"
    using points_bounded(2) by (auto simp: list_all_iff)
  from u points_bounded(2) have "u < 65536" "u \<notin> set zero_width_points"
    "map_of homoglyph_points u = Some r"
    by (auto simp: list_all_iff)
  moreover have "utf8 u \<notin> utf8 ` set zero_width_points"
    using calculation points_bounded(1) by (auto simp: utf8_inj list_all_iff)
  ultimately show "one_char h" and "fold_char h = r"
    by (simp_all add: h utf8_one_char fold_char_def ZERO_WIDTH_CHARS_def HOMOGLYPH_MAPPINGS_def
        map_of_utf8 [OF bound])
qed

lemma ascii_one_char: "byte_of c < 128 \<Longrightarrow> one_char [c]"
  by (simp add: one_char_def is_utf8_cont_def)

lemma fold_char_ascii [simp]: "fold_char [c] = [c]"
proof -
  have "utf8 u \<noteq> [c]" if "128 \<le> u" for u using that by (rule utf8_long)
  then have "[c] \<notin> set ZERO_WIDTH_CHARS" and "[c] \<notin> fst ` set HOMOGLYPH_MAPPINGS"
    using points_bounded by (fastforce simp: list_all_iff ZERO_WIDTH_CHARS_def HOMOGLYPH_MAPPINGS_def)+
  then have "map_of HOMOGLYPH_MAPPINGS [c] = None"
    by (simp add: map_of_eq_None_iff del: not_None_eq)
  with \<open>[c] \<notin> set ZERO_WIDTH_CHARS\<close> show ?thesis by (simp add: fold_char_def)
qed

lemma disguise_chars: "disguise cs s \<Longrightarrow> list_all one_char cs"
  by (induction rule: disguise.induct)
    (auto simp: ascii_one_char zero_width_facts homoglyph_facts)

lemma disguise_folds: "disguise cs s \<Longrightarrow> concat (map fold_char cs) = s"
  by (induction rule: disguise.induct) (auto simp: zero_width_facts homoglyph_facts)

lemma fold_chars_disguise: "disguise cs s \<Longrightarrow> fold_chars (concat cs) = s"
  by (simp add: fold_chars_def utf8_chars_concat disguise_chars disguise_folds)

subsection \<open>Layers of percent encoding\<close>

text \<open>\<open>pct s\<close> escapes every byte as \<open>%XY\<close>, in lower-case hexadecimal digits.\<close>

definition hex_digit :: "nat \<Rightarrow> char" where
  "hex_digit n = (if n < 10 then char_of (48 + n) else char_of (87 + n))"

definition pct :: "string \<Rightarrow> string" where
  "pct s = concat (map (\<lambda>c. [CHR ''%'', hex_digit (byte_of c div 16), hex_digit (byte_of c mod 16)]) s)"

text \<open>
  What the \<open>urlencoding\<close> crate documents, for one text and for ASCII texts: decoding
  undoes the encoding.
\<close>

definition pct_decodes :: "norm_ext \<Rightarrow> string \<Rightarrow> bool" where
  "pct_decodes N s \<longleftrightarrow> url_decode N (pct s) = Some s \<and>
     (\<forall>t. list_all (\<lambda>c. byte_of c < 128) t \<longrightarrow> url_decode N (pct t) = Some t)"

lemma byte_of_hex_digit: "n < 16 \<Longrightarrow> byte_of (hex_digit n) = (if n < 10 then 48 + n else 87 + n)"
  by (simp add: hex_digit_def)

lemma hex_digit_hexdigit: "n < 16 \<Longrightarrow> is_ascii_hexdigit (hex_digit n)"
  by (simp add: ascii_defs byte_of_hex_digit)

lemma byte_div_16: "byte_of (c :: char) div 16 < 16"
  using nat_of_char_less_256 [of c] by (simp add: less_mult_imp_div_less)

lemma hex_digit_byte:
  assumes "n < 16"
  shows "byte_of (hex_digit n) < 128" and "hex_digit n \<noteq> CHR ''&''"
  using byte_of_hex_digit [OF assms] assms by (auto split: if_splits)

lemma pct_ascii: "list_all (\<lambda>c. byte_of c < 128) (pct s)"
  by (induction s) (simp_all add: pct_def hex_digit_byte byte_div_16)

lemma pct_no_amp: "CHR ''&'' \<notin> set (pct s)"
proof -
  have "hex_digit (byte_of c div 16) \<noteq> CHR ''&''" "hex_digit (byte_of c mod 16) \<noteq> CHR ''&''"
    for c :: char
    by (rule hex_digit_byte, simp add: byte_div_16)+
  then show ?thesis by (induction s) (simp_all add: pct_def, metis)
qed

lemma entity_start_amp: "entity_start s \<Longrightarrow> CHR ''&'' \<in> set s"
  by (induction s rule: entity_start.induct) auto

lemma looks_percent: "looks_percent_encoded s \<Longrightarrow> CHR ''%'' \<in> set s"
  by (induction s rule: looks_percent_encoded.induct) auto

lemma no_amp_no_entity: "CHR ''&'' \<notin> set s \<Longrightarrow> \<not> contains_html_entity s"
  using entity_start_amp by (auto simp: contains_html_entity_def)

lemma pct_looks_encoded: "s \<noteq> [] \<Longrightarrow> looks_percent_encoded (pct s)"
  by (cases s) (simp_all add: pct_def hex_digit_hexdigit byte_div_16)

lemma decode_round_pct:
  assumes "pct_decodes N s" and "s \<noteq> []" and "CHR ''&'' \<notin> set s"
  shows "decode_round N (pct s) = (s, True)"
  using assms by (simp add: decode_round_def pct_looks_encoded no_amp_no_entity pct_decodes_def)

lemma decode_round_pct_ascii:
  assumes "pct_decodes N t" and "s \<noteq> []" and "CHR ''&'' \<notin> set s" and "list_all (\<lambda>c. byte_of c < 128) s"
  shows "decode_round N (pct s) = (s, True)"
  using assms by (simp add: decode_round_def pct_looks_encoded no_amp_no_entity pct_decodes_def)

lemma pct_nonempty: "s \<noteq> [] \<Longrightarrow> pct s \<noteq> []"
  by (cases s) (simp_all add: pct_def)

lemma funpow_pct_facts:
  "s \<noteq> [] \<Longrightarrow> (pct ^^ n) s \<noteq> []"
  "CHR ''&'' \<notin> set s \<Longrightarrow> CHR ''&'' \<notin> set ((pct ^^ n) s)"
  by (induction n) (simp_all add: pct_nonempty pct_no_amp)

lemma decode_layers:
  assumes "pct_decodes N s" and "s \<noteq> []" and "CHR ''&'' \<notin> set s"
  shows "n + d \<le> MAX_DECODE_DEPTH \<Longrightarrow>
    decode_recursive N ((pct ^^ n) s) d = decode_recursive N s (n + d)"
proof (induction n arbitrary: d)
  case (Suc n)
  have "decode_round N ((pct ^^ Suc n) s) = ((pct ^^ n) s, True)"
  proof (cases n)
    case 0
    with decode_round_pct [OF assms] show ?thesis by simp
  next
    case (Suc m)
    then have "list_all (\<lambda>c. byte_of c < 128) ((pct ^^ n) s)" by (simp add: pct_ascii)
    from decode_round_pct_ascii [OF assms(1) _ _ this] show ?thesis
      by (simp add: funpow_pct_facts assms(2,3))
  qed
  then have "decode_recursive N ((pct ^^ Suc n) s) d = decode_recursive N ((pct ^^ n) s) (Suc d)"
    using Suc.prems decode_recursive.simps [of N "(pct ^^ Suc n) s" d] by simp
  with Suc.IH [of "Suc d"] Suc.prems show ?case by simp
qed simp

text \<open>A text with nothing left to decode is final.\<close>

lemma decode_plain:
  "\<not> looks_percent_encoded s \<Longrightarrow> \<not> contains_html_entity s \<Longrightarrow> decode_recursive N s d = s"
  by (simp add: decode_recursive.simps [of N s d] decode_round_def)


text \<open>
  Decoding comes last, so what it uncovers is not folded: an encoded capital stays a
  capital, and an encoded homoglyph or zero-width character stays in the matching form.
\<close>

lemma disguise_ascii: "list_all (\<lambda>c. byte_of c < 128) s \<Longrightarrow> disguise (map (\<lambda>c. [c]) s) s"
  by (induction s) (auto intro: disguise.intros)

lemma fold_chars_ascii: "list_all (\<lambda>c. byte_of c < 128) s \<Longrightarrow> fold_chars s = s"
  using fold_chars_disguise [OF disguise_ascii] by simp

lemma utf8_bytes_high: "c \<in> set (utf8 u) \<Longrightarrow> 128 \<le> u \<Longrightarrow> u < 65536 \<Longrightarrow> 128 \<le> byte_of c"
  using less_mult_imp_div_less [of u 16 4096] less_mult_imp_div_less [of u 32 64]
  by (auto simp: utf8_def split: if_splits)

lemma decoded_not_folded:
  assumes "to_lowercase N (nfkc N (pct (utf8 0x200B))) = pct (utf8 0x200B)"
    and "pct_decodes N (utf8 0x200B)"
  shows "normalize_for_matching N (pct (utf8 0x200B)) = utf8 0x200B"
proof -
  let ?z = "utf8 0x200B"
  have high: "128 \<le> byte_of c" if "c \<in> set ?z" for c
    using utf8_bytes_high [OF that] by simp
  have z: "?z \<noteq> []" by (simp add: utf8_def)
  moreover have "CHR ''&'' \<notin> set ?z" "\<not> looks_percent_encoded ?z"
    using high [of "CHR ''&''"] high [of "CHR ''%''"] looks_percent by auto
  ultimately have z: "?z \<noteq> []" "CHR ''&'' \<notin> set ?z" "\<not> looks_percent_encoded ?z" by simp_all
  have "length (pct ?z) \<le> MAX_DECODE_BYTES"
    by (simp add: pct_def utf8_def MAX_DECODE_BYTES_def)
  then have "normalize_for_matching N (pct ?z) = decode_recursive N (pct ?z) 0"
    by (simp add: normalize_for_matching_def assms(1) fold_chars_ascii pct_ascii)
  also have "\<dots> = decode_recursive N ?z 1"
    using decode_layers [OF assms(2) z(1,2), of 1 0] by (simp add: MAX_DECODE_DEPTH_def)
  finally show ?thesis by (simp add: decode_plain z no_amp_no_entity)
qed

subsection \<open>Witnesses\<close>

definition unhex :: "char \<Rightarrow> nat" where
  "unhex c = (if byte_of c < 58 then byte_of c - 48 else byte_of c - 87)"

fun unpct :: "string \<Rightarrow> string" where
  "unpct (a # b # c # s) = char_of (unhex b * 16 + unhex c) # unpct s"
| "unpct _ = []"

definition sample_norm :: norm_ext where
  "sample_norm = \<lparr>nfkc = (\<lambda>s. s), to_lowercase = (\<lambda>s. s), url_decode = (\<lambda>s. Some (unpct s)),
     html_decode = (\<lambda>s. s)\<rparr>"

lemma unhex_hex: "n < 16 \<Longrightarrow> unhex (hex_digit n) = n"
  by (simp add: unhex_def byte_of_hex_digit)

lemma unpct_pct: "unpct (pct s) = s"
  by (induction s) (simp_all add: pct_def unhex_hex byte_div_16)


end
