(* ===== verification/Utf8.thy ===== *)
theory Utf8
  imports Prelude
begin

section \<open>Reading bytes as UTF-8\<close>

text \<open>
  \<open>String::from_utf8_lossy\<close> of the standard library: every maximal ill-formed part of the
  bytes becomes the replacement character U+FFFD.  \<open>utf8_valid\<close> is \<open>str::from_utf8\<close>
  succeeding.  Also the byte-line reading of \<open>BufRead::read_until\<close>.
\<close>

definition REPLACEMENT :: string where
  "REPLACEMENT = [CHR 0xEF, CHR 0xBF, CHR 0xBD]"

definition byte_at :: "string \<Rightarrow> nat \<Rightarrow> nat \<Rightarrow> nat \<Rightarrow> bool" where
  "byte_at s i lo hi \<longleftrightarrow> i < length s \<and> lo \<le> byte_of (s ! i) \<and> byte_of (s ! i) \<le> hi"

text \<open>The output for the sequence led by \<open>c\<close>, and how many bytes after it are consumed.\<close>

definition lossy_step :: "char \<Rightarrow> string \<Rightarrow> string \<times> nat" where
  "lossy_step c s =
     (let b = byte_of c in
      if b < 128 then ([c], 0)
      else if 194 \<le> b \<and> b \<le> 223 then
        (if byte_at s 0 128 191 then (c # take 1 s, 1) else (REPLACEMENT, 0))
      else if 224 \<le> b \<and> b \<le> 239 then
        (if \<not> byte_at s 0 (if b = 224 then 160 else 128) (if b = 237 then 159 else 191)
         then (REPLACEMENT, 0)
         else if \<not> byte_at s 1 128 191 then (REPLACEMENT, 1)
         else (c # take 2 s, 2))
      else if 240 \<le> b \<and> b \<le> 244 then
        (if \<not> byte_at s 0 (if b = 240 then 144 else 128) (if b = 244 then 143 else 191)
         then (REPLACEMENT, 0)
         else if \<not> byte_at s 1 128 191 then (REPLACEMENT, 1)
         else if \<not> byte_at s 2 128 191 then (REPLACEMENT, 2)
         else (c # take 3 s, 3))
      else (REPLACEMENT, 0))"

function utf8_lossy :: "string \<Rightarrow> string" where
  "utf8_lossy [] = []"
| "utf8_lossy (c # s) = fst (lossy_step c s) @ utf8_lossy (drop (snd (lossy_step c s)) s)"
  by pat_completeness auto
termination
  by (relation "measure length") auto

definition utf8_valid :: "string \<Rightarrow> bool" where
  "utf8_valid s \<longleftrightarrow> utf8_lossy s = s"

definition is_ascii :: "string \<Rightarrow> bool" where
  "is_ascii s \<longleftrightarrow> list_all (\<lambda>c. byte_of c < 128) s"

lemma utf8_lossy_ascii_Cons: "byte_of c < 128 \<Longrightarrow> utf8_lossy (c # s) = c # utf8_lossy s"
  by (simp add: lossy_step_def)

lemma utf8_lossy_ascii: "is_ascii s \<Longrightarrow> utf8_lossy s = s"
  by (induction s) (simp_all add: is_ascii_def utf8_lossy_ascii_Cons del: utf8_lossy.simps(2))

lemma utf8_valid_ascii: "is_ascii s \<Longrightarrow> utf8_valid s"
  by (simp add: utf8_valid_def utf8_lossy_ascii)

lemma lossy_step_bytes:
  "fst (lossy_step c s) = c # take (snd (lossy_step c s)) s \<or> fst (lossy_step c s) = REPLACEMENT"
  by (simp add: lossy_step_def Let_def)

text \<open>No byte outside the input appears, except in replacement characters.\<close>

lemma utf8_lossy_set: "set (utf8_lossy s) \<subseteq> set s \<union> set REPLACEMENT"
proof (induction s rule: utf8_lossy.induct)
  case (2 c s)
  from lossy_step_bytes [of c s] have "set (fst (lossy_step c s)) \<subseteq> set (c # s) \<union> set REPLACEMENT"
    by (auto dest: in_set_takeD)
  with 2 show ?case by (auto dest: in_set_dropD)
qed simp

subsection \<open>Well-formed text\<close>

lemma utf8_valid_Nil [simp]: "utf8_valid []"
  by (simp add: utf8_valid_def)

text \<open>A well-formed text is a first character and a well-formed rest.\<close>

lemma valid_step:
  assumes "utf8_valid (c # s)"
  shows "fst (lossy_step c s) = c # take (snd (lossy_step c s)) s"
    and "utf8_valid (drop (snd (lossy_step c s)) s)"
proof -
  let ?o = "fst (lossy_step c s)" and ?n = "snd (lossy_step c s)"
  from assms have eq: "?o @ utf8_lossy (drop ?n s) = c # s" by (simp add: utf8_valid_def)
  show o: "?o = c # take ?n s"
  proof (rule ccontr)
    assume neq: "?o \<noteq> c # take ?n s"
    with lossy_step_bytes [of c s] have "?o = REPLACEMENT" by blast
    with eq have "c = CHR 0xEF" "s = CHR 0xBF # CHR 0xBD # utf8_lossy (drop ?n s)"
      by (simp_all add: REPLACEMENT_def)
    then obtain r where "c = CHR 0xEF" "s = CHR 0xBF # CHR 0xBD # r" by blast
    with neq show False by (simp add: lossy_step_def byte_at_def)
  qed
  from eq o have "take ?n s @ utf8_lossy (drop ?n s) = s" by simp
  then show "utf8_valid (drop ?n s)"
    unfolding utf8_valid_def by (metis append_take_drop_id same_append_eq)
qed

lemma valid_lead:
  assumes "utf8_valid (c # s)"
  shows "\<not> is_utf8_cont c"
proof
  assume "is_utf8_cont c"
  then have "lossy_step c s = (REPLACEMENT, 0)" by (auto simp: lossy_step_def is_utf8_cont_def)
  with valid_step(1) [OF assms] show False by (simp add: REPLACEMENT_def)
qed

lemma take_cont:
  "byte_at s 0 128 191 \<Longrightarrow> list_all is_utf8_cont (take (Suc 0) s)"
  "byte_at s 0 128 191 \<Longrightarrow> byte_at s 1 128 191 \<Longrightarrow> list_all is_utf8_cont (take 2 s)"
  "byte_at s 0 128 191 \<Longrightarrow> byte_at s 1 128 191 \<Longrightarrow> byte_at s 2 128 191 \<Longrightarrow>
     list_all is_utf8_cont (take 3 s)"
  by (auto simp: list_all_iff byte_at_def in_set_conv_nth is_utf8_cont_def less_Suc_eq numeral_3_eq_3
      numeral_2_eq_2)

lemma byte_at_mono: "byte_at s i lo hi \<Longrightarrow> lo' \<le> lo \<Longrightarrow> hi \<le> hi' \<Longrightarrow> byte_at s i lo' hi'"
  by (simp add: byte_at_def)

lemma lossy_step_cases:
  "(byte_of c < 128 \<and> lossy_step c s = ([c], 0)) \<or>
   (128 \<le> byte_of c \<and> fst (lossy_step c s) = REPLACEMENT) \<or>
   (128 \<le> byte_of c \<and> list_all is_utf8_cont (take (snd (lossy_step c s)) s))"
  unfolding lossy_step_def Let_def
  by (auto simp: take_cont dest: byte_at_mono [where lo' = 128 and hi' = 191] split: if_splits)

lemma step_cont:
  assumes "fst (lossy_step c s) = c # take (snd (lossy_step c s)) s"
  shows "128 \<le> byte_of c \<or> snd (lossy_step c s) = 0"
    and "list_all is_utf8_cont (take (snd (lossy_step c s)) s)"
proof -
  have "list_all is_utf8_cont (take (snd (lossy_step c s)) s)"
    if "fst (lossy_step c s) = REPLACEMENT"
  proof -
    from that assms have "take (snd (lossy_step c s)) s = [CHR 0xBF, CHR 0xBD]"
      unfolding REPLACEMENT_def by (metis list.inject)
    then show ?thesis by (simp add: is_utf8_cont_def)
  qed
  then show "128 \<le> byte_of c \<or> snd (lossy_step c s) = 0"
    and "list_all is_utf8_cont (take (snd (lossy_step c s)) s)"
    using lossy_step_cases [of c s] by auto
qed

lemma utf8_chars_valid:
  assumes "utf8_valid (c # s)"
  shows "utf8_chars (c # s) =
    (c # take (snd (lossy_step c s)) s) # utf8_chars (drop (snd (lossy_step c s)) s)"
proof -
  let ?n = "snd (lossy_step c s)"
  note step = valid_step [OF assms]
  have all: "\<And>x. x \<in> set (take ?n s) \<Longrightarrow> is_utf8_cont x"
    using step_cont(2) [OF step(1)] by (simp add: list_all_iff)
  have rest: "takeWhile is_utf8_cont (drop ?n s) = []" "dropWhile is_utf8_cont (drop ?n s) = drop ?n s"
    using step(2) valid_lead by (cases "drop ?n s"; auto)+
  have "takeWhile is_utf8_cont s = take ?n s"
    using takeWhile_append2 [of "take ?n s" is_utf8_cont "drop ?n s"] all rest by simp
  moreover have "dropWhile is_utf8_cont s = drop ?n s"
    using dropWhile_append2 [of "take ?n s" is_utf8_cont "drop ?n s"] all rest by simp
  ultimately show ?thesis by simp
qed

text \<open>In a well-formed text every ASCII byte is a character of its own.\<close>

lemma valid_ascii_char:
  "utf8_valid s \<Longrightarrow> c \<in> set s \<Longrightarrow> byte_of c < 128 \<Longrightarrow> [c] \<in> set (utf8_chars s)"
proof (induction s rule: utf8_lossy.induct)
  case (2 x s)
  let ?n = "snd (lossy_step x s)"
  note step = valid_step [OF "2.prems"(1)]
  have "set (x # s) = insert x (set (take ?n s) \<union> set (drop ?n s))"
    by (metis append_take_drop_id list.simps(15) set_append)
  with "2.prems"(2) consider "c = x" | "c \<in> set (take ?n s)" | "c \<in> set (drop ?n s)" by blast
  then show ?case
  proof cases
    case 1
    with step_cont(1) [OF step(1)] "2.prems"(3) show ?thesis
      by (simp add: utf8_chars_valid [OF "2.prems"(1)] del: utf8_chars.simps)
  next
    case 2
    with step_cont(2) [OF step(1)] "2.prems"(3) show ?thesis
      by (auto simp: list_all_iff is_utf8_cont_def)
  next
    case 3
    with "2.IH" [OF step(2)] "2.prems"(3) show ?thesis
      by (simp add: utf8_chars_valid [OF "2.prems"(1)] del: utf8_chars.simps)
  qed
qed simp

lemma utf8_chars_ascii: "is_ascii s \<Longrightarrow> utf8_chars s = map (\<lambda>c. [c]) s"
proof (induction s)
  case (Cons c s)
  have "lossy_step c s = ([c], 0)" using Cons.prems by (simp add: is_ascii_def lossy_step_def)
  with Cons utf8_chars_valid [OF utf8_valid_ascii [OF Cons.prems]] show ?case
    by (simp add: is_ascii_def del: utf8_chars.simps(2))
qed simp

text \<open>Trimming ASCII text with nothing to trim, or with one line feed at its end.\<close>

lemma trim_solid:
  assumes "is_ascii s" and "list_all (\<lambda>c. \<not> char_is_whitespace [c]) s"
  shows "trim s = s" and "trim (s @ [CHR 0x0A]) = s"
proof -
  have keep: "dropWhile char_is_whitespace (map (\<lambda>c. [c]) t) = map (\<lambda>c. [c]) t"
    if "list_all (\<lambda>c. \<not> char_is_whitespace [c]) t" for t
    using that by (cases t) simp_all
  have "list_all (\<lambda>c. \<not> char_is_whitespace [c]) (rev s)"
    using assms(2) by (simp add: list_all_iff)
  note both = keep [OF assms(2)] keep [OF this, unfolded rev_map]
  have one: "concat (map (\<lambda>c. [c]) s) = s" by (induction s) simp_all
  from both one show "trim s = s"
    by (simp add: trim_def utf8_chars_ascii [OF assms(1)] rev_map)
  have lf: "char_is_whitespace [CHR 0x0A]" by (simp add: char_is_whitespace_def)
  have "is_ascii (s @ [CHR 0x0A])" using assms(1) by (simp add: is_ascii_def)
  from utf8_chars_ascii [OF this] have chars: "utf8_chars (s @ [CHR 0x0A]) = map (\<lambda>c. [c]) s @ [[CHR 0x0A]]"
    by simp
  show "trim (s @ [CHR 0x0A]) = s"
  proof (cases s)
    case Nil
    with chars lf show ?thesis by (simp add: trim_def)
  next
    case (Cons x xs)
    with assms(2) have "\<not> char_is_whitespace [x]" by simp
    with Cons chars have "dropWhile char_is_whitespace (utf8_chars (s @ [CHR 0x0A])) =
        map (\<lambda>c. [c]) s @ [[CHR 0x0A]]" by simp
    with both(2) lf one show ?thesis by (simp add: trim_def rev_map)
  qed
qed

subsection \<open>Lines of a byte stream\<close>

text \<open>\<open>read_until(c)\<close>: the bytes up to and including the first \<open>c\<close>, and the rest.\<close>

fun read_until :: "'a \<Rightarrow> 'a list \<Rightarrow> 'a list \<times> 'a list" where
  "read_until c [] = ([], [])"
| "read_until c (x # xs) =
     (if x = c then ([x], xs) else (let (l, r) = read_until c xs in (x # l, r)))"

lemma read_until_append: "read_until c s = (l, r) \<Longrightarrow> l @ r = s"
  by (induction s arbitrary: l) (auto split: if_splits prod.splits)

lemma read_until_length: "s \<noteq> [] \<Longrightarrow> length (snd (read_until c s)) < length s"
  by (induction s) (auto split: prod.splits simp: Let_def, metis le_imp_less_Suc less_imp_le_nat
      list.size(3) read_until.simps(1) snd_conv zero_le)

lemma read_until_shorter [termination_simp]:
  "(l, r) = read_until c s \<Longrightarrow> s \<noteq> [] \<Longrightarrow> length r < length s"
  using read_until_length [of s c] by (metis snd_conv)

text \<open>The lines of a stream, each with its terminator: \<open>split_inclusive\<close>.\<close>

definition raw_lines :: "'a \<Rightarrow> 'a list \<Rightarrow> 'a list list" where
  "raw_lines c s =
     (let parts = split_on c s
      in map (\<lambda>l. l @ [c]) (butlast parts) @ (if last parts = [] then [] else [last parts]))"

lemma raw_lines_read_until:
  "s \<noteq> [] \<Longrightarrow> raw_lines c s = fst (read_until c s) # raw_lines c (snd (read_until c s))"
proof (induction s)
  case (Cons x s)
  show ?case
  proof (cases "s = []")
    case True
    then show ?thesis by (simp add: raw_lines_def)
  next
    case False
    obtain y ys where p: "split_on c s = y # ys" using split_on_nonempty [of c s] by (meson list.exhaust)
    obtain l r where lr: "read_until c s = (l, r)" by (cases "read_until c s")
    show ?thesis
    proof (cases "x = c")
      case True
      then show ?thesis by (simp add: raw_lines_def p)
    next
      case neq: False
      have "raw_lines c s = l # raw_lines c r" using Cons.IH [OF False] lr by simp
      moreover have "raw_lines c (x # s) = (x # hd (raw_lines c s)) # tl (raw_lines c s)"
        using neq False join_split_on [of c s] by (cases ys) (auto simp: raw_lines_def p)
      ultimately show ?thesis using neq lr by simp
    qed
  qed
qed simp

end
