(* ===== verification/Context_Dlp.thy ===== *)
theory Context_Dlp
  imports Config Normalizer Json_Codec Utf8
begin

section \<open>DLP on the way into the model's context (src/context.rs)\<close>

text \<open>
  Sanitizing free text and the tool results of a wrapped MCP server: \<open>sanitize_text\<close>,
  \<open>redact_tree\<close>, \<open>sanitize_rpc_line\<close> and the two pumps of the gateway.  JSON printing and
  parsing (\<open>to_str\<close>, \<open>from_str\<close>), the DLP library functions \<open>X\<close> and the normalizer's
  \<open>N\<close> are parameters.  Reading a stream ends at its end or at the first read error, so a
  pump's input is the bytes before that; writing succeeds.
\<close>

definition SUPPRESSED_BY_DLP :: string where
  "SUPPRESSED_BY_DLP = ''[output suppressed: potential obfuscated sensitive data detected]''"

definition sanitize_text :: "dlp_ext \<Rightarrow> norm_ext \<Rightarrow> dlp_engine \<Rightarrow> string \<Rightarrow> string" where
  "sanitize_text X N engine s =
     (let redacted = redact_permanent X engine s
      in if check_violations X engine (normalize_for_matching N redacted) \<noteq> None
         then SUPPRESSED_BY_DLP else redacted)"

text \<open>The engine of the command: the configured rules, or the single file of \<open>--rules\<close>.\<close>

definition context_engine ::
  "dlp_ext \<Rightarrow> (string \<Rightarrow> string) \<Rightarrow> (string \<Rightarrow> string option) \<Rightarrow> (string \<Rightarrow> string + raw_rule list) \<Rightarrow>
   string + file_config \<Rightarrow> string option \<Rightarrow> string + dlp_engine" where
  "context_engine X locate read parse loaded rules =
     (case loaded of
        Inl e \<Rightarrow> Inl e
      | Inr file \<Rightarrow>
          (let config = (case Option.bind (cfg_security file) sec_dlp of
                 Some d \<Rightarrow> d | None \<Rightarrow> default_dlp_config);
               config' = (case rules of Some r \<Rightarrow> config\<lparr>rules_files := [r]\<rparr> | None \<Rightarrow> config)
           in case build_engine X locate read parse config' of
                Inl e \<Rightarrow> Inl (''DLP engine: '' @ rule_error_text e)
              | Inr engine \<Rightarrow> Inr engine))"

definition is_tool_result :: "json \<Rightarrow> bool" where
  "is_tool_result message \<longleftrightarrow>
     (case Option.bind (obj_get message ''result'') (\<lambda>r. obj_get r ''content'') of
        Some c \<Rightarrow> as_array c \<noteq> None
      | None \<Rightarrow> False)"

text \<open>A number prints as it serializes.\<close>

fun redact_tree :: "(json \<Rightarrow> string) \<Rightarrow> (string \<Rightarrow> string) \<Rightarrow> json \<Rightarrow> json" where
  "redact_tree to_str f (JStr s) = JStr (f s)"
| "redact_tree to_str f (JNum n) =
     (let raw = to_str (JNum n); redacted = f raw
      in if redacted \<noteq> raw then JStr redacted else JNum n)"
| "redact_tree to_str f (JArr vs) = JArr (map (redact_tree to_str f) vs)"
| "redact_tree to_str f (JObj kvs) = JObj (map (\<lambda>(k, v). (k, redact_tree to_str f v)) kvs)"
| "redact_tree to_str f JNull = JNull"
| "redact_tree to_str f (JBool b) = JBool b"

definition suppressed_result :: json where
  "suppressed_result = JObj [(''content'', JArr [JObj
     [(''text'', JStr SUPPRESSED_BY_DLP), (''type'', JStr ''text'')]])]"

definition sanitized_result ::
  "dlp_ext \<Rightarrow> norm_ext \<Rightarrow> (json \<Rightarrow> string) \<Rightarrow> dlp_engine \<Rightarrow> json \<Rightarrow> json" where
  "sanitized_result X N to_str engine result =
     (let redacted = redact_tree to_str (redact_permanent X engine) result
      in if check_violations X engine (normalize_for_matching N (to_str redacted)) \<noteq> None
         then suppressed_result else redacted)"

definition sanitize_rpc_line ::
  "dlp_ext \<Rightarrow> norm_ext \<Rightarrow> (json \<Rightarrow> string) \<Rightarrow> (string \<Rightarrow> string + json) \<Rightarrow> dlp_engine \<Rightarrow> string \<Rightarrow> string"
  where
  "sanitize_rpc_line X N to_str from_str engine line =
     (case from_str line of
        Inl e \<Rightarrow> line
      | Inr message \<Rightarrow>
          if \<not> is_tool_result message then line
          else (case obj_get message ''result'' of
              None \<Rightarrow> line
            | Some result \<Rightarrow> to_str (set_child message ''result''
                (sanitized_result X N to_str engine result))))"

definition trim_end_crlf :: "string \<Rightarrow> string" where
  "trim_end_crlf s = rev (dropWhile (\<lambda>c. c = CR \<or> c = LF) (rev s))"

function pump_downstream :: "(string \<Rightarrow> string) \<Rightarrow> string \<Rightarrow> string" where
  "pump_downstream sanitize input =
     (if input = [] then []
      else (case read_until LF input of (raw, rest) \<Rightarrow>
        (let trimmed = trim_end_crlf (utf8_lossy raw)
         in (if trimmed = [] then [LF] else sanitize trimmed @ [LF]) @
            pump_downstream sanitize rest)))"
  by pat_completeness auto
termination
  by (relation "measure (\<lambda>(f, s). length s)") (auto simp: read_until_shorter)

function pump_upstream :: "string \<Rightarrow> string" where
  "pump_upstream input =
     (if input = [] then []
      else (case read_until LF input of (buffer, rest) \<Rightarrow> buffer @ pump_upstream rest))"
  by pat_completeness auto
termination
  by (relation "measure length") (auto simp: read_until_shorter)

declare pump_downstream.simps [simp del] pump_upstream.simps [simp del]

text \<open>
  The wrapped server as a whole: started or not, and if so what it prints and exits with
  for what it reads.  The result is what the harness reads, and the exit code.
\<close>

definition run_gateway ::
  "dlp_ext \<Rightarrow> norm_ext \<Rightarrow> (json \<Rightarrow> string) \<Rightarrow> (string \<Rightarrow> string + json) \<Rightarrow> dlp_engine \<Rightarrow>
   (string list \<Rightarrow> string + (string \<Rightarrow> string \<times> int option)) \<Rightarrow> string list \<Rightarrow> string \<Rightarrow>
   string + string \<times> int" where
  "run_gateway X N to_str from_str engine spawn command harness_input =
     (case spawn command of
        Inl e \<Rightarrow> Inl (''failed to start '' @ hd command @ '': '' @ e)
      | Inr server \<Rightarrow>
          (case server (pump_upstream harness_input) of (output, code) \<Rightarrow>
             Inr (pump_downstream (sanitize_rpc_line X N to_str from_str engine) output,
                  case code of Some c \<Rightarrow> c | None \<Rightarrow> 0)))"

subsection \<open>Pumps\<close>

lemma pump_upstream_id: "pump_upstream s = s"
proof (induction s rule: pump_upstream.induct)
  case (1 s)
  then show ?case
    by (auto simp: pump_upstream.simps [of s] read_until_append split: prod.splits)
qed

definition downstream_line :: "(string \<Rightarrow> string) \<Rightarrow> string \<Rightarrow> string" where
  "downstream_line sanitize raw =
     (let trimmed = trim_end_crlf (utf8_lossy raw)
      in if trimmed = [] then [] else sanitize trimmed)"

lemma pump_downstream_lines:
  "pump_downstream f s = concat (map (\<lambda>l. downstream_line f l @ [LF]) (raw_lines LF s))"
proof (induction f s rule: pump_downstream.induct)
  case (1 f s)
  show ?case
  proof (cases "s = []")
    case True
    then show ?thesis by (simp add: pump_downstream.simps raw_lines_def)
  next
    case False
    obtain l r where lr: "read_until LF s = (l, r)" by (cases "read_until LF s")
    with 1 [OF False lr [symmetric] refl] False raw_lines_read_until [OF False, of LF] show ?thesis
      by (simp add: pump_downstream.simps [of f s] downstream_line_def Let_def)
  qed
qed

subsection \<open>Trees\<close>

text \<open>Redaction works leaf by leaf, and keeps the shape of the tree.\<close>

lemma map_of_map_snd: "map_of (map (\<lambda>(k, v). (k, g v)) m) k = map_option g (map_of m k)"
  by (induction m) auto

lemma child_redact_tree:
  "child (redact_tree to_str f v) t = map_option (redact_tree to_str f) (child v t)"
  by (cases v) (auto simp: child_def map_of_map_snd Let_def split: option.splits)

lemma nav_redact_tree:
  "nav (redact_tree to_str f v) p = map_option (redact_tree to_str f) (nav v p)"
  by (induction v p rule: nav.induct) (auto simp: child_redact_tree split: option.splits)

lemma redact_tree_str:
  "redact_tree to_str f v = JStr s \<longleftrightarrow>
     (\<exists>t. v = JStr t \<and> s = f t) \<or> (\<exists>n. v = JNum n \<and> s = f (to_str v) \<and> s \<noteq> to_str v)"
  by (cases v) (auto simp: Let_def)

subsection \<open>Properties\<close>

text \<open>
  Sanitized text is safe to show: it is the fixed notice, or a text in which detection
  finds nothing, not even in its matching form, so an encoded or disguised secret never
  passes as text.
\<close>

theorem sanitize_text_safe:
  assumes "sanitize_text X N engine s \<noteq> SUPPRESSED_BY_DLP"
  shows "sanitize_text X N engine s = redact_permanent X engine s \<and>
    check_violations X engine (normalize_for_matching N (sanitize_text X N engine s)) = None"
  using assms by (auto simp: sanitize_text_def Let_def split: if_splits)


lemma rpc_line_verbatim:
  "\<nexists>message. from_str line = Inr message \<and> is_tool_result message \<Longrightarrow>
   sanitize_rpc_line X N to_str from_str engine line = line"
  by (auto simp: sanitize_rpc_line_def split: sum.splits)

text \<open>
  C34 The gateway forwards requests byte for byte, and answers line for line: the wrapped
  server reads exactly what the harness wrote, and the harness reads one line for each line
  the server printed, in order, each the sanitized form of that line.
\<close>

theorem gateway_line_by_line:
  assumes "spawn command = Inr server"
  shows "run_gateway X N to_str from_str engine spawn command harness_input =
    Inr (concat (map (\<lambda>l. downstream_line (sanitize_rpc_line X N to_str from_str engine) l @ [LF])
           (raw_lines LF (fst (server harness_input)))),
         case snd (server harness_input) of Some c \<Rightarrow> c | None \<Rightarrow> 0)"
  using assms by (simp add: run_gateway_def pump_upstream_id pump_downstream_lines split: prod.splits)

subsection \<open>Witnesses\<close>

definition sample_engine :: dlp_engine where
  "sample_engine = \<lparr>eng_config = default_dlp_config\<lparr>email_redaction := False,
       credit_card_redaction := False, ssn_redaction := False, ip_redaction := False,
       phone_redaction := False\<rparr>,
     eng_rules = [\<lparr>rule_id = ''stripe'', rule_description = None, rule_regex = needle ''sk_live'',
       rule_group = None, rule_entropy = None, rule_keywords = []\<rparr>]\<rparr>"

definition sample_ext :: dlp_ext where
  "sample_ext = needle_ext (\<lambda>p. ''@'')"

definition sample_message :: json where
  "sample_message = JObj [(''id'', JNum (PosInt 7)),
     (''result'', JObj [(''content'', JArr [JObj [(''text'', JStr ''key sk_live'')]])])]"

lemma sanitize_text_safe_witness:
  "sanitize_text sample_ext sample_norm sample_engine ''key sk_live'' = ''key <stripe>'' \<and>
   check_violations sample_ext sample_engine (normalize_for_matching sample_norm
     (sanitize_text sample_ext sample_norm sample_engine ''key sk_live'')) = None"
proof -
  have red: "redact_permanent sample_ext sample_engine ''key sk_live'' = ''key <stripe>''"
    by (simp add: redact_permanent_def sample_engine_def default_dlp_config_def sample_ext_def
        needle_ext_def keyword_prefilter_ok_def replace_all_def replace_all_with_def cap_get_def
        Dlp.slice_def enabled_defs)
  have norm: "normalize_for_matching sample_norm ''key <stripe>'' = ''key <stripe>''"
    by (simp add: normalize_for_matching_def sample_norm_def fold_chars_ascii MAX_DECODE_BYTES_def
        decode_plain contains_html_entity_def)
  have clean: "check_violations sample_ext sample_engine ''key <stripe>'' = None"
    by (simp add: check_violations_None_parts sample_engine_def default_dlp_config_def
        rule_triggers_def)
  have eq: "sanitize_text sample_ext sample_norm sample_engine ''key sk_live'' = ''key <stripe>''"
    by (simp add: sanitize_text_def red norm clean)
  then have "sanitize_text sample_ext sample_norm sample_engine ''key sk_live'' \<noteq> SUPPRESSED_BY_DLP"
    by (simp add: SUPPRESSED_BY_DLP_def)
  from sanitize_text_safe [OF this] show ?thesis by (blast intro: eq)
qed


lemma gateway_line_by_line_witness:
  "run_gateway sample_ext sample_norm wire_print (\<lambda>l. Inl ''not JSON'') sample_engine
     (\<lambda>c. Inr (\<lambda>input. (input @ ''b'', Some 3))) [''cat''] (''a'' @ [CR, LF]) =
   Inr (''a'' @ [LF] @ ''b'' @ [LF], 3)"
  by (simp add: gateway_line_by_line raw_lines_def Let_def downstream_line_def utf8_lossy_ascii_Cons
      trim_end_crlf_def sanitize_rpc_line_def del: utf8_lossy.simps(2))

end
