(* ===== verification/Broker_Policy.thy ===== *)
theory Broker_Policy
  imports Secret_Ref Json_Codec Utf8
begin

section \<open>Signed action policies (src/broker/policy.rs)\<close>

text \<open>
  The allowlist of commands: its checks, its detached signature, and the sudoers rules
  written for it.  The TOML parser, the ed25519, SHA-256 and hex crates, and the path
  functions of the platform are parameters (\<open>policy_env\<close>); \<open>policy_env_ok\<close> states what the
  crates document.  Files are a map from paths to bytes, passed explicitly; loading takes
  one map for each time it opens the policy.  On Unix a path is absolute when it starts with
  a slash.  Errors are constructors that carry what the messages print.
\<close>

subsection \<open>Data\<close>

definition POLICY_VERSION :: nat where "POLICY_VERSION = 1"
definition DEFAULT_TIMEOUT_SECS :: nat where "DEFAULT_TIMEOUT_SECS = 30"

datatype output_policy = RedactOutput | SuppressOutput

record raw_env =
  re_name :: string
  re_reference :: secret_ref

record raw_action =
  ra_id :: string
  ra_description :: string
  ra_exec :: "string list"
  ra_user :: "string option"
  ra_timeout_secs :: nat
  ra_output :: output_policy
  ra_env :: "raw_env list"

record raw_policy =
  rp_version :: nat
  rp_actions :: "raw_action list"

record env_binding =
  eb_name :: string
  eb_reference :: secret_ref

record action_def =
  act_id :: string
  act_description :: string
  act_exec :: "string list"
  act_user :: "string option"
  act_timeout_secs :: nat
  act_output :: output_policy
  act_env :: "env_binding list"

record policy =
  pol_actions :: "action_def list"
  pol_fingerprint :: string

definition policy_action :: "policy \<Rightarrow> string \<Rightarrow> action_def option" where
  "policy_action p k = find (\<lambda>a. act_id a = k) (pol_actions p)"

datatype policy_error =
    InvalidToml string
  | UnsupportedVersion nat
  | BadId string
  | DuplicateId string
  | NoDescription string
  | BadExec string
  | RelativeProgram string string
  | BadUser string string
  | BadTimeout string
  | BadEnvName string string
  | KeyExists string
  | CannotCreate string
  | CannotWrite string
  | ReadFailed string
  | NoExtension
  | CannotRead string string
  | NotHex string
  | BadLength string nat
  | InvalidKey
  | MissingSignature string
  | NoSignatureLine
  | VerificationFailed

subsection \<open>Checking a policy\<close>

definition is_valid_env_name :: "string \<Rightarrow> bool" where
  "is_valid_env_name name =
     (case name of
        [] \<Rightarrow> False
      | c # cs \<Rightarrow> (c = CHR ''_'' \<or> is_ascii_uppercase c \<or> is_ascii_lowercase c) \<and>
          list_all (\<lambda>x. x = CHR ''_'' \<or> is_ascii_uppercase x \<or> is_ascii_lowercase x \<or>
            is_ascii_digit x) cs)"

definition id_ok :: "string \<Rightarrow> bool" where
  "id_ok s \<longleftrightarrow> s \<noteq> [] \<and>
     list_all (\<lambda>c. is_ascii_lowercase c \<or> is_ascii_digit c \<or> c = CHR ''-'') s"

definition user_ok :: "string \<Rightarrow> bool" where
  "user_ok s \<longleftrightarrow> s \<noteq> [] \<and>
     list_all (\<lambda>c. is_ascii_lowercase c \<or> is_ascii_digit c \<or> c = CHR ''_'' \<or> c = CHR ''-'') s"

text \<open>The checks of one action, in order; \<open>seen\<close> are the ids before it.\<close>

definition action_fault :: "string list \<Rightarrow> raw_action \<Rightarrow> policy_error option" where
  "action_fault seen a =
     (if \<not> id_ok (ra_id a) then Some (BadId (ra_id a))
      else if ra_id a \<in> set seen then Some (DuplicateId (ra_id a))
      else if trim (ra_description a) = [] then Some (NoDescription (ra_id a))
      else if ra_exec a = [] \<or> list_ex (\<lambda>w. w = []) (ra_exec a) then Some (BadExec (ra_id a))
      else if \<not> starts_with ''/'' (hd (ra_exec a))
      then Some (RelativeProgram (ra_id a) (hd (ra_exec a)))
      else (case ra_user a of
          Some user \<Rightarrow> if \<not> user_ok user then Some (BadUser (ra_id a) user) else None
        | None \<Rightarrow> None))"

definition limits_fault :: "raw_action \<Rightarrow> policy_error option" where
  "limits_fault a =
     (if ra_timeout_secs a = 0 \<or> 600 < ra_timeout_secs a then Some (BadTimeout (ra_id a))
      else (case find (\<lambda>b. \<not> is_valid_env_name (re_name b)) (ra_env a) of
          Some b \<Rightarrow> Some (BadEnvName (ra_id a) (re_name b))
        | None \<Rightarrow> None))"

fun check_actions :: "string list \<Rightarrow> raw_action list \<Rightarrow> policy_error option" where
  "check_actions seen [] = None"
| "check_actions seen (a # as) =
     (case action_fault seen a of
        Some e \<Rightarrow> Some e
      | None \<Rightarrow> (case limits_fault a of
            Some e \<Rightarrow> Some e
          | None \<Rightarrow> check_actions (ra_id a # seen) as))"

definition action_of_raw :: "raw_action \<Rightarrow> action_def" where
  "action_of_raw a =
     \<lparr>act_id = ra_id a, act_description = ra_description a, act_exec = ra_exec a,
      act_user = ra_user a, act_timeout_secs = ra_timeout_secs a, act_output = ra_output a,
      act_env = map (\<lambda>b. \<lparr>eb_name = re_name b, eb_reference = re_reference b\<rparr>) (ra_env a)\<rparr>"

definition parse_and_validate ::
  "(string \<Rightarrow> string + raw_policy) \<Rightarrow> string \<Rightarrow> policy_error + action_def list" where
  "parse_and_validate toml bytes =
     (case toml bytes of
        Inl e \<Rightarrow> Inl (InvalidToml e)
      | Inr raw \<Rightarrow>
          if rp_version raw \<noteq> POLICY_VERSION then Inl (UnsupportedVersion (rp_version raw))
          else (case check_actions [] (rp_actions raw) of
              Some e \<Rightarrow> Inl e
            | None \<Rightarrow> Inr (map action_of_raw (rp_actions raw))))"

subsection \<open>Keys and signatures\<close>

type_synonym files = "string \<Rightarrow> string option"

record policy_env =
  pe_file_name :: "string \<Rightarrow> string option"
  pe_with_file_name :: "string \<Rightarrow> string \<Rightarrow> string"
  pe_with_extension :: "string \<Rightarrow> string \<Rightarrow> string"
  ed_point_ok :: "string \<Rightarrow> bool"
  ed_public :: "string \<Rightarrow> string"
  ed_sign :: "string \<Rightarrow> string \<Rightarrow> string"
  ed_verify :: "string \<Rightarrow> string \<Rightarrow> string \<Rightarrow> bool"
  sha256 :: "string \<Rightarrow> string"
  hex_encode :: "string \<Rightarrow> string"
  hex_decode :: "string \<Rightarrow> string option"
  pe_writable :: "string \<Rightarrow> bool"

definition write_private :: "policy_env \<Rightarrow> string \<Rightarrow> string \<Rightarrow> files \<Rightarrow> (policy_error + unit) \<times> files" where
  "write_private E path bytes fs =
     (if fs path \<noteq> None then (Inl (KeyExists path), fs)
      else if \<not> pe_writable E path then (Inl (CannotCreate path), fs)
      else (Inr (), fs(path \<mapsto> bytes)))"

definition key_id :: "policy_env \<Rightarrow> string \<Rightarrow> string" where
  "key_id E key = hex_encode E (take 8 (sha256 E key))"

text \<open>\<open>seed\<close> is what the random source returns; the result is the public key.\<close>

definition keygen :: "policy_env \<Rightarrow> string \<Rightarrow> string \<Rightarrow> files \<Rightarrow> (policy_error + string) \<times> files" where
  "keygen E seed secret_path fs =
     (case write_private E secret_path (hex_encode E seed @ [LF]) fs of
        (Inl e, fs') \<Rightarrow> (Inl e, fs')
      | (Inr u, fs') \<Rightarrow>
          (let public_path = pe_with_extension E secret_path ''pub'' in
           if public_path = secret_path then (Inl NoExtension, fs')
           else if \<not> pe_writable E public_path then (Inl (CannotCreate public_path), fs')
           else (Inr (ed_public E seed),
                 fs'(public_path \<mapsto> hex_encode E (ed_public E seed) @ [LF]))))"

definition read_hex_file :: "policy_env \<Rightarrow> files \<Rightarrow> string \<Rightarrow> string \<Rightarrow> policy_error + string" where
  "read_hex_file E fs path what =
     (case fs path of
        None \<Rightarrow> Inl (CannotRead what path)
      | Some content \<Rightarrow>
          if \<not> utf8_valid content then Inl (CannotRead what path)
          else (case hex_decode E (trim content) of
              None \<Rightarrow> Inl (NotHex what)
            | Some bytes \<Rightarrow> Inr bytes))"

definition load_verifying_key :: "policy_env \<Rightarrow> files \<Rightarrow> string \<Rightarrow> policy_error + string" where
  "load_verifying_key E fs path =
     (case read_hex_file E fs path ''public key'' of
        Inl e \<Rightarrow> Inl e
      | Inr bytes \<Rightarrow>
          if length bytes \<noteq> 32 then Inl (BadLength ''public key'' (length bytes))
          else if \<not> ed_point_ok E bytes then Inl InvalidKey
          else Inr bytes)"

definition load_signing_key :: "policy_env \<Rightarrow> files \<Rightarrow> string \<Rightarrow> policy_error + string" where
  "load_signing_key E fs path =
     (case read_hex_file E fs path ''secret key'' of
        Inl e \<Rightarrow> Inl e
      | Inr bytes \<Rightarrow>
          if length bytes \<noteq> 32 then Inl (BadLength ''secret key'' (length bytes)) else Inr bytes)"

definition signature_path :: "policy_env \<Rightarrow> string \<Rightarrow> string" where
  "signature_path E path =
     pe_with_file_name E path
       ((case pe_file_name E path of Some n \<Rightarrow> n | None \<Rightarrow> []) @ ''.sig'')"

definition SIG_COMMENT :: string where
  "SIG_COMMENT = ''untrusted comment:''"

definition sign_policy ::
  "policy_env \<Rightarrow> string \<Rightarrow> string \<Rightarrow> files \<Rightarrow> (policy_error + string) \<times> files" where
  "sign_policy E policy_path secret_key_path fs =
     (case fs policy_path of
        None \<Rightarrow> (Inl (CannotRead ''policy'' policy_path), fs)
      | Some policy_bytes \<Rightarrow>
          (case load_signing_key E fs secret_key_path of
             Inl e \<Rightarrow> (Inl e, fs)
           | Inr key \<Rightarrow>
               (let sig_path = signature_path E policy_path;
                    content = SIG_COMMENT @ '' open-guardian policy signature key='' @
                      key_id E (ed_public E key) @ [LF] @ hex_encode E (ed_sign E key policy_bytes) @ [LF]
                in if \<not> pe_writable E sig_path then (Inl (CannotWrite sig_path), fs)
                   else (Inr (key_id E (ed_public E key)), fs(sig_path \<mapsto> content)))))"

text \<open>The last line that is neither blank nor the comment.\<close>

definition signature_line :: "string \<Rightarrow> string option" where
  "signature_line content =
     find (\<lambda>l. trim l \<noteq> [] \<and> \<not> starts_with SIG_COMMENT l) (rev (str_lines content))"

definition verify_signature ::
  "policy_env \<Rightarrow> files \<Rightarrow> string \<Rightarrow> string \<Rightarrow> policy_error + string" where
  "verify_signature E fs policy_path public_key_path =
     (case fs policy_path of
        None \<Rightarrow> Inl (CannotRead ''policy'' policy_path)
      | Some policy_bytes \<Rightarrow>
          (case load_verifying_key E fs public_key_path of
             Inl e \<Rightarrow> Inl e
           | Inr key \<Rightarrow>
               (case fs (signature_path E policy_path) of
                  None \<Rightarrow> Inl (MissingSignature (signature_path E policy_path))
                | Some sig_content \<Rightarrow>
                    if \<not> utf8_valid sig_content
                    then Inl (MissingSignature (signature_path E policy_path))
                    else (case signature_line sig_content of
                        None \<Rightarrow> Inl NoSignatureLine
                      | Some sig_hex \<Rightarrow>
                          (case hex_decode E (trim sig_hex) of
                             None \<Rightarrow> Inl (NotHex ''signature'')
                           | Some sig_bytes \<Rightarrow>
                               if length sig_bytes \<noteq> 64
                               then Inl (BadLength ''signature'' (length sig_bytes))
                               else if \<not> ed_verify E key policy_bytes sig_bytes
                               then Inl VerificationFailed
                               else Inr (key_id E key))))))"

text \<open>
  The daemon's entry point opens the policy file three times: to verify it, to take its
  fingerprint, and to parse it.  \<open>fs1\<close>, \<open>fs2\<close> and \<open>fs3\<close> are the files at these moments.
\<close>

definition load_signed_policy ::
  "policy_env \<Rightarrow> (string \<Rightarrow> string + raw_policy) \<Rightarrow> files \<Rightarrow> files \<Rightarrow> files \<Rightarrow> string \<Rightarrow> string \<Rightarrow>
   policy_error + policy" where
  "load_signed_policy E toml fs1 fs2 fs3 policy_path public_key_path =
     (case verify_signature E fs1 policy_path public_key_path of
        Inl e \<Rightarrow> Inl e
      | Inr kid \<Rightarrow>
          (case fs2 policy_path of
             None \<Rightarrow> Inl (ReadFailed policy_path)
           | Some policy_bytes \<Rightarrow>
               (case fs3 policy_path of
                  None \<Rightarrow> Inl (ReadFailed policy_path)
                | Some content \<Rightarrow>
                    if \<not> utf8_valid content then Inl (ReadFailed policy_path)
                    else (case parse_and_validate toml content of
                        Inl e \<Rightarrow> Inl e
                      | Inr actions \<Rightarrow> Inr \<lparr>pol_actions = actions,
                          pol_fingerprint = hex_encode E (sha256 E policy_bytes)\<rparr>))))"

subsection \<open>Sudoers rules\<close>

definition SUDOERS_META :: string where
  "SUDOERS_META = ''*?[]'' @ [CHR 0x5C, CHR 0x22, CHR 0x27] @ '',#!=:()''"

definition sudoers_safe :: "string \<Rightarrow> bool" where
  "sudoers_safe word \<longleftrightarrow>
     \<not> list_ex (\<lambda>c. char_is_whitespace c \<or> (\<exists>x \<in> set SUDOERS_META. c = [x])) (utf8_chars word)"

definition sudoers_lines :: "policy \<Rightarrow> string \<Rightarrow> string list" where
  "sudoers_lines p invoking_user =
     concat (map (\<lambda>a. case act_user a of
         None \<Rightarrow> []
       | Some target \<Rightarrow>
           if \<not> list_all sudoers_safe (act_exec a) then []
           else [invoking_user @ '' ALL=('' @ target @ '') NOPASSWD: '' @ join_with '' '' (act_exec a)])
       (pol_actions p))"

subsection \<open>What checking guarantees\<close>

definition action_safe :: "action_def \<Rightarrow> bool" where
  "action_safe a \<longleftrightarrow> id_ok (act_id a) \<and> trim (act_description a) \<noteq> [] \<and>
     act_exec a \<noteq> [] \<and> [] \<notin> set (act_exec a) \<and> starts_with ''/'' (hd (act_exec a)) \<and>
     (case act_user a of Some user \<Rightarrow> user_ok user | None \<Rightarrow> True) \<and>
     1 \<le> act_timeout_secs a \<and> act_timeout_secs a \<le> 600 \<and>
     list_all (\<lambda>b. is_valid_env_name (eb_name b)) (act_env a)"

lemma action_fault_None:
  "action_fault seen a = None \<Longrightarrow> limits_fault a = None \<Longrightarrow>
   action_safe (action_of_raw a) \<and> ra_id a \<notin> set seen"
  by (auto simp: action_fault_def limits_fault_def action_safe_def action_of_raw_def list_all_iff
      list_ex_iff find_None_iff comp_def split: if_splits option.splits)

lemma check_actions_None:
  "check_actions seen as = None \<Longrightarrow>
   list_all action_safe (map action_of_raw as) \<and> distinct (map ra_id as) \<and>
   set (map ra_id as) \<inter> set seen = {}"
proof (induction seen as rule: check_actions.induct)
  case (2 seen a as)
  from "2.prems" have fault: "action_fault seen a = None" "limits_fault a = None"
    and rest: "check_actions (ra_id a # seen) as = None"
    by (auto split: option.splits)
  from "2.IH" [OF fault rest] action_fault_None [OF fault] show ?case by auto
qed simp

lemma act_ids: "map act_id (map action_of_raw as) = map ra_id as"
  by (simp add: action_of_raw_def comp_def)

lemma parse_and_validate_Inr:
  assumes "parse_and_validate toml bytes = Inr actions"
  shows "list_all action_safe actions" and "distinct (map act_id actions)"
proof -
  from assms obtain as where "check_actions [] as = None" "actions = map action_of_raw as"
    by (auto simp: parse_and_validate_def split: sum.splits if_splits option.splits)
  with check_actions_None [of "[]" as] show "list_all action_safe actions"
    and "distinct (map act_id actions)"
    by (simp_all add: act_ids del: map_map)
qed

lemma find_distinct:
  "distinct (map f xs) \<Longrightarrow> x \<in> set xs \<Longrightarrow> find (\<lambda>y. f y = f x) xs = Some x"
  by (induction xs) (auto simp: image_iff)

lemma policy_action_unique:
  "distinct (map act_id (pol_actions p)) \<Longrightarrow> a \<in> set (pol_actions p) \<Longrightarrow>
   policy_action p (act_id a) = Some a"
  by (simp add: policy_action_def find_distinct)

lemma verify_signature_Inr:
  assumes "verify_signature E fs pp pk = Inr kid"
  obtains bytes key sig where "fs pp = Some bytes" "load_verifying_key E fs pk = Inr key"
    "ed_verify E key bytes sig" "kid = key_id E key"
  using assms by (auto simp: verify_signature_def split: option.splits sum.splits if_splits)


text \<open>
  The three reads are not of one moment: a file that changes after its verification takes
  effect although nobody signed it.
\<close>

lemma policy_changed_between_reads:
  assumes "verify_signature E fs1 pp pk = Inr kid" and "fs2 pp = Some other"
    and "utf8_valid other" and "parse_and_validate toml other = Inr actions"
  shows "load_signed_policy E toml fs1 fs2 fs2 pp pk =
    Inr \<lparr>pol_actions = actions, pol_fingerprint = hex_encode E (sha256 E other)\<rparr>"
  using assms by (simp add: load_signed_policy_def)

subsection \<open>Sudoers rules match one argument vector\<close>

lemma split_join:
  "ws \<noteq> [] \<Longrightarrow> \<forall>w \<in> set ws. c \<notin> set w \<Longrightarrow> split_on c (join_with [c] ws) = ws"
proof (induction ws rule: induct_list012)
  case (3 x y ws)
  then have "split_on c (x @ c # join_with [c] (y # ws)) = [x] @ (y # ws)"
    by (simp add: split_on_append_sep split_on_single)
  then show ?case by simp
qed (simp_all add: split_on_single)

lemma set_join: "set (join_with sep ws) \<subseteq> set sep \<union> \<Union> (set ` set ws)"
  by (induction ws rule: induct_list012) auto

lemma sudoers_safe_no_space:
  assumes "sudoers_safe w" and "utf8_valid w"
  shows "CHR '' '' \<notin> set w" and "LF \<notin> set w"
proof -
  have "char_is_whitespace [CHR '' '']" "char_is_whitespace [LF]"
    by (simp_all add: char_is_whitespace_def)
  with assms(1) have "[CHR '' ''] \<notin> set (utf8_chars w)" "[LF] \<notin> set (utf8_chars w)"
    unfolding sudoers_safe_def list_ex_iff by blast+
  then show "CHR '' '' \<notin> set w" and "LF \<notin> set w"
    using valid_ascii_char [OF assms(2)] by auto
qed


text \<open>
  The metacharacters of regular expressions in sudoers (a word from \<open>^\<close> to \<open>$\<close>) are
  not among the refused ones.
\<close>

lemma sudoers_regex_word_passes: "sudoers_safe ''^.+$''"
  by code_simp

subsection \<open>Key generation, signing and loading\<close>

text \<open>What the ed25519 and hex crates document.\<close>

definition policy_env_ok :: "policy_env \<Rightarrow> bool" where
  "policy_env_ok E \<longleftrightarrow>
     (\<forall>s. hex_decode E (hex_encode E s) = Some s \<and> list_all is_ascii_hexdigit (hex_encode E s) \<and>
        length (hex_encode E s) = 2 * length s) \<and>
     (\<forall>k. length k = 32 \<longrightarrow> ed_point_ok E (ed_public E k) \<and> length (ed_public E k) = 32) \<and>
     (\<forall>k m. length k = 32 \<longrightarrow> length (ed_sign E k m) = 64 \<and>
        ed_verify E (ed_public E k) m (ed_sign E k m))"

lemma hexdigit_facts:
  assumes "list_all is_ascii_hexdigit s"
  shows "is_ascii s" and "list_all (\<lambda>c. \<not> char_is_whitespace [c]) s"
    and "LF \<notin> set s" and "CR \<notin> set s" and "CHR ''u'' \<notin> set s"
  using assms
  by (auto simp: is_ascii_def list_all_iff ascii_defs char_is_whitespace_def)

lemma read_hex_written:
  assumes "policy_env_ok E" and "fs path = Some (hex_encode E s @ [LF])"
  shows "read_hex_file E fs path what = Inr s"
proof -
  have hex: "list_all is_ascii_hexdigit (hex_encode E s)" and dec: "hex_decode E (hex_encode E s) = Some s"
    using assms(1) by (auto simp: policy_env_ok_def)
  have "is_ascii (hex_encode E s @ [LF])" using hexdigit_facts(1) [OF hex] by (simp add: is_ascii_def)
  moreover have "trim (hex_encode E s @ [LF]) = hex_encode E s"
    using hexdigit_facts(1,2) [OF hex] by (rule trim_solid)
  ultimately show ?thesis by (simp add: read_hex_file_def assms(2) utf8_valid_ascii dec)
qed

lemma keygen_Inr:
  assumes "keygen E seed sk fs = (Inr key, fs')"
  shows "key = ed_public E seed" and "fs' sk = Some (hex_encode E seed @ [LF])"
    and "fs' (pe_with_extension E sk ''pub'') = Some (hex_encode E (ed_public E seed) @ [LF])"
  using assms
  by (auto simp: keygen_def write_private_def Let_def split: prod.splits sum.splits if_splits)

definition sig_content :: "policy_env \<Rightarrow> string \<Rightarrow> string \<Rightarrow> string" where
  "sig_content E key sig = SIG_COMMENT @ '' open-guardian policy signature key='' @
     key_id E key @ [LF] @ hex_encode E sig @ [LF]"

lemma sig_content_line:
  assumes "policy_env_ok E" and "length sig = 64"
  shows "signature_line (sig_content E key sig) = Some (hex_encode E sig)"
    and "utf8_valid (sig_content E key sig)"
proof -
  define l1 where "l1 = SIG_COMMENT @ '' open-guardian policy signature key='' @ key_id E key"
  define l2 where "l2 = hex_encode E sig"
  have content: "sig_content E key sig = l1 @ LF # l2 @ LF # []"
    by (simp add: sig_content_def l1_def l2_def)
  have hex: "list_all is_ascii_hexdigit (hex_encode E s)" for s
    using assms(1) by (simp add: policy_env_ok_def)
  have l1: "is_ascii l1" "LF \<notin> set l1" "CR \<notin> set l1"
    using hexdigit_facts [OF hex]
    by (simp_all add: l1_def SIG_COMMENT_def key_id_def is_ascii_def)
  have l2: "is_ascii l2" "LF \<notin> set l2" "CR \<notin> set l2" "CHR ''u'' \<notin> set l2"
    using hexdigit_facts [OF hex] by (simp_all add: l2_def)
  have "str_lines (l1 @ LF # l2 @ LF # []) = [l1, l2]"
    using l1 l2 by (simp add: str_lines_append)
  moreover have "trim l2 = l2"
    unfolding l2_def using hexdigit_facts(1,2) [OF hex] by (rule trim_solid)
  moreover have "length l2 = 128" using assms by (simp add: l2_def policy_env_ok_def)
  moreover have "\<not> starts_with SIG_COMMENT l2"
    using l2(4) by (auto simp: starts_with_iff SIG_COMMENT_def)
  ultimately show "signature_line (sig_content E key sig) = Some (hex_encode E sig)"
    unfolding signature_line_def content l2_def [symmetric] by auto
  show "utf8_valid (sig_content E key sig)"
    unfolding content using l1(1) l2(1) by (intro utf8_valid_ascii) (simp add: is_ascii_def)
qed

lemma sign_policy_Inr:
  assumes "sign_policy E pp sk fs = (Inr kid, fs')" and "fs pp = Some bytes"
    and "load_signing_key E fs sk = Inr key"
  shows "fs' = fs(signature_path E pp \<mapsto> sig_content E (ed_public E key) (ed_sign E key bytes))"
  using assms by (auto simp: sign_policy_def sig_content_def Let_def split: if_splits)

text \<open>
  C27 A policy that was signed with a generated key loads under its public half: after
  \<open>keygen\<close> and \<open>sign_policy\<close>, loading the file gives exactly its parsed actions and the
  fingerprint of its bytes, whenever the file itself is well formed.
\<close>

theorem signed_policy_loads:
  assumes ok: "policy_env_ok E" and seed: "length seed = 32"
    and keygen: "keygen E seed sk fs0 = (Inr key, fs1)"
    and sign: "sign_policy E pp sk fs1 = (Inr kid, fs2)"
    and paths: "signature_path E pp \<notin> {pp, pe_with_extension E sk ''pub''}"
    and bytes: "fs1 pp = Some bytes" "utf8_valid bytes"
    and parsed: "parse_and_validate toml bytes = Inr actions"
  shows "load_signed_policy E toml fs2 fs2 fs2 pp (pe_with_extension E sk ''pub'') =
    Inr \<lparr>pol_actions = actions, pol_fingerprint = hex_encode E (sha256 E bytes)\<rparr>"
proof -
  let ?pub = "pe_with_extension E sk ''pub''" and ?sig = "ed_sign E seed bytes"
  note gen = keygen_Inr [OF keygen]
  have sk: "load_signing_key E fs1 sk = Inr seed"
    by (simp add: load_signing_key_def read_hex_written [where fs = fs1 and path = sk, OF ok gen(2)] seed)
  note fs2 = sign_policy_Inr [OF sign bytes(1) sk]
  have at: "fs2 pp = Some bytes" "fs2 ?pub = Some (hex_encode E (ed_public E seed) @ [LF])"
    "fs2 (signature_path E pp) = Some (sig_content E (ed_public E seed) ?sig)"
    using paths bytes(1) gen(3) by (auto simp: fs2)
  have key: "load_verifying_key E fs2 ?pub = Inr (ed_public E seed)"
    using ok seed by (simp add: load_verifying_key_def read_hex_written [where fs = fs2 and path = ?pub, OF ok at(2)] policy_env_ok_def)
  have sig: "length ?sig = 64" "ed_verify E (ed_public E seed) bytes ?sig"
    using ok seed by (simp_all add: policy_env_ok_def)
  have hex: "list_all is_ascii_hexdigit (hex_encode E ?sig)" "hex_decode E (hex_encode E ?sig) = Some ?sig"
    using ok by (simp_all add: policy_env_ok_def)
  have trim: "trim (hex_encode E ?sig) = hex_encode E ?sig"
    using hexdigit_facts(1,2) [OF hex(1)] by (rule trim_solid)
  have "verify_signature E fs2 pp ?pub = Inr (key_id E (ed_public E seed))"
    by (simp add: verify_signature_def at key sig_content_line [OF ok sig(1)] trim hex(2) sig)
  then show ?thesis by (simp add: load_signed_policy_def at(1) bytes(2) parsed)
qed

subsection \<open>Witnesses\<close>

text \<open>
  A toy signature scheme with the laws: keys are their own public halves, a signature is
  fixed.  It stands for the crate in concrete runs only.
\<close>

definition hexd :: "nat \<Rightarrow> char" where
  "hexd n = (if n < 10 then char_of (48 + n) else char_of (87 + n))"

definition unhexd :: "char \<Rightarrow> nat" where
  "unhexd c = (if byte_of c < 58 then byte_of c - 48 else byte_of c - 87)"

definition hex_of :: "string \<Rightarrow> string" where
  "hex_of s = concat (map (\<lambda>c. [hexd (byte_of c div 16), hexd (byte_of c mod 16)]) s)"

fun of_hex :: "string \<Rightarrow> string" where
  "of_hex (a # b # s) = char_of (unhexd a * 16 + unhexd b) # of_hex s"
| "of_hex _ = []"

definition toy_env :: policy_env where
  "toy_env = \<lparr>pe_file_name = (\<lambda>p. Some p), pe_with_file_name = (\<lambda>p n. n),
     pe_with_extension = (\<lambda>p e. p @ ''.'' @ e), ed_point_ok = (\<lambda>k. True), ed_public = (\<lambda>k. k),
     ed_sign = (\<lambda>k m. replicate 64 (CHR ''s'')),
     ed_verify = (\<lambda>k m s. s = replicate 64 (CHR ''s'')),
     sha256 = (\<lambda>s. s), hex_encode = hex_of, hex_decode = (\<lambda>s. Some (of_hex s)),
     pe_writable = (\<lambda>p. True)\<rparr>"

lemma byte_nibbles: "byte_of (c :: char) div 16 < 16" "byte_of (c :: char) mod 16 < 16"
  using nat_of_char_less_256 [of c] by (simp_all add: less_mult_imp_div_less)

lemma hexd_facts:
  assumes "n < 16"
  shows "unhexd (hexd n) = n" and "is_ascii_hexdigit (hexd n)"
  using assms by (auto simp: hexd_def unhexd_def ascii_defs)

lemma toy_env_ok: "policy_env_ok toy_env"
proof -
  have "of_hex (hex_of s) = s \<and> list_all is_ascii_hexdigit (hex_of s) \<and>
      length (hex_of s) = 2 * length s" for s
    by (induction s) (simp_all add: hex_of_def hexd_facts byte_nibbles)
  then show ?thesis by (simp add: policy_env_ok_def toy_env_def)
qed

definition sample_raw :: raw_policy where
  "sample_raw = \<lparr>rp_version = 1, rp_actions = [\<lparr>ra_id = ''restart-nginx'',
     ra_description = ''Restart nginx'', ra_exec = [''/usr/bin/systemctl'', ''restart'', ''nginx''],
     ra_user = Some ''root'', ra_timeout_secs = 30, ra_output = RedactOutput, ra_env = []\<rparr>]\<rparr>"

definition sample_actions :: "action_def list" where
  "sample_actions = map action_of_raw (rp_actions sample_raw)"

lemma sample_parse: "parse_and_validate (\<lambda>s. Inr sample_raw) bytes = Inr sample_actions"
proof -
  have "trim ''Restart nginx'' \<noteq> []" by code_simp
  then show ?thesis
    by (simp add: parse_and_validate_def sample_actions_def sample_raw_def POLICY_VERSION_def
        action_fault_def limits_fault_def id_ok_def user_ok_def ascii_defs)
qed

lemma signed_policy_loads_witness:
  "\<exists>fs. load_signed_policy toy_env (\<lambda>s. Inr sample_raw) fs fs fs ''policy.toml'' ''key.pub'' =
     Inr \<lparr>pol_actions = sample_actions, pol_fingerprint = hex_of ''doc''\<rparr>"
proof -
  define seed where "seed = replicate 32 (CHR ''k'')"
  have seed: "length seed = 32" by (simp add: seed_def)
  obtain fs1 where gen: "keygen toy_env seed ''key'' [''policy.toml'' \<mapsto> ''doc''] = (Inr seed, fs1)"
    and doc: "fs1 ''policy.toml'' = Some ''doc''"
    by (simp add: keygen_def write_private_def toy_env_def)
  have "load_signing_key toy_env fs1 ''key'' = Inr seed"
    using read_hex_written [OF toy_env_ok, of fs1 "''key''" seed ] keygen_Inr(2) [OF gen] seed
    by (simp add: load_signing_key_def)
  then obtain kid fs2 where sign: "sign_policy toy_env ''policy.toml'' ''key'' fs1 = (Inr kid, fs2)"
    by (auto simp: sign_policy_def doc toy_env_def Let_def)
  have "utf8_valid ''doc''" by (rule utf8_valid_ascii) (simp add: is_ascii_def)
  with signed_policy_loads [OF toy_env_ok seed gen sign _ doc _ sample_parse] show ?thesis
    by (auto simp: toy_env_def signature_path_def)
qed



end
