(* ===== verification/Broker_Exec.thy ===== *)
theory Broker_Exec
  imports Broker_Policy Broker_State Context_Dlp
begin

section \<open>Running an approved action (src/broker/execute.rs)\<close>

text \<open>
  \<open>execute_action\<close> on Unix: secrets resolve into the environment of the child, the child
  runs with the exact argument vector of the policy, and its output is cut, then sanitized.
  The operating system is the parameter \<open>os\<close>: what happens to a command, given its
  timeout.  The process is only observed through its outcome.  Elapsed times are arguments.
\<close>

definition MAX_OUTPUT_BYTES :: nat where "MAX_OUTPUT_BYTES = 64 * 1024"

definition SUPPRESSED_BY_POLICY :: string where
  "SUPPRESSED_BY_POLICY = ''[output suppressed by policy]''"

record command =
  cmd_argv :: "string list"
  cmd_env :: "(string \<times> string) list"

datatype outcome =
    Exited "int option" string string
  | StartFailed string
  | TimedOut

definition build_command :: "action_def \<Rightarrow> command" where
  "build_command a =
     \<lparr>cmd_argv = (case act_user a of
          Some user \<Rightarrow> [''sudo'', ''-n'', ''-u'', user, ''--''] @ act_exec a
        | None \<Rightarrow> act_exec a),
      cmd_env = []\<rparr>"

text \<open>\<open>is_char_boundary\<close>, and the loop that steps back to one.\<close>

definition is_char_boundary :: "string \<Rightarrow> nat \<Rightarrow> bool" where
  "is_char_boundary s i \<longleftrightarrow> i = 0 \<or> i = length s \<or> (i < length s \<and> \<not> is_utf8_cont (s ! i))"

fun back_to_boundary :: "string \<Rightarrow> nat \<Rightarrow> nat" where
  "back_to_boundary s 0 = 0"
| "back_to_boundary s (Suc k) =
     (if \<not> is_char_boundary s (Suc k) then back_to_boundary s k else Suc k)"

definition truncate :: "string \<Rightarrow> string \<times> bool" where
  "truncate s =
     (if length s \<le> MAX_OUTPUT_BYTES then (s, False)
      else (take (back_to_boundary s MAX_OUTPUT_BYTES) s, True))"

definition sanitize :: "dlp_ext \<Rightarrow> norm_ext \<Rightarrow> output_policy \<Rightarrow> dlp_engine \<Rightarrow> string \<Rightarrow> string" where
  "sanitize X N policy dlp s =
     (if policy = SuppressOutput then SUPPRESSED_BY_POLICY else sanitize_text X N dlp s)"

definition failed_result :: "nat \<Rightarrow> string \<Rightarrow> action_result" where
  "failed_result elapsed e =
     \<lparr>exit_code = None, duration_ms = elapsed, res_stdout = [], res_stderr = [],
      res_truncated = False, res_suppressed = False, res_error = Some e\<rparr>"

text \<open>Secrets into the child's environment, in order; the first failure ends it.\<close>

fun bind_env :: "secret_broker \<Rightarrow> env_binding list \<Rightarrow> command \<Rightarrow> string + command" where
  "bind_env broker [] c = Inr c"
| "bind_env broker (b # bs) c =
     (case resolve broker (eb_reference b) of
        Inr v \<Rightarrow> bind_env broker bs (c\<lparr>cmd_env := AList.update (eb_name b) v (cmd_env c)\<rparr>)
      | Inl e \<Rightarrow> Inl (''secret '' @ eb_name b @ '' could not be resolved: '' @
          secret_error_text e @ '' (action refused, nothing executed)''))"

definition execute_action ::
  "dlp_ext \<Rightarrow> norm_ext \<Rightarrow> (nat \<Rightarrow> command \<Rightarrow> outcome) \<Rightarrow> nat \<Rightarrow> action_def \<Rightarrow> secret_broker \<Rightarrow>
   dlp_engine \<Rightarrow> action_result" where
  "execute_action X N os elapsed a broker dlp =
     (case bind_env broker (act_env a) (build_command a) of
        Inl e \<Rightarrow> failed_result elapsed e
      | Inr c \<Rightarrow>
          (case os (act_timeout_secs a) c of
             StartFailed e \<Rightarrow> failed_result elapsed (''failed to start '' @ hd (act_exec a) @ '': '' @ e)
           | TimedOut \<Rightarrow> failed_result elapsed
               (''timed out after '' @ nat_dec (act_timeout_secs a) @ ''s (process killed)'')
           | Exited code out err \<Rightarrow>
               (let (stdout, cut1) = truncate (utf8_lossy out);
                    (stderr, cut2) = truncate (utf8_lossy err)
                in \<lparr>exit_code = code, duration_ms = elapsed,
                    res_stdout = sanitize X N (act_output a) dlp stdout,
                    res_stderr = sanitize X N (act_output a) dlp stderr,
                    res_truncated = cut1 \<or> cut2,
                    res_suppressed = (act_output a = SuppressOutput), res_error = None\<rparr>)))"

subsection \<open>Cutting keeps well-formed text\<close>

lemma byte_at_take: "byte_at (take k s) i lo hi \<longleftrightarrow> i < k \<and> byte_at s i lo hi"
  by (auto simp: byte_at_def)

lemma lossy_step_take:
  assumes "snd (lossy_step c s) \<le> k" and "fst (lossy_step c s) \<noteq> REPLACEMENT"
  shows "lossy_step c (take k s) = lossy_step c s"
proof -
  consider "byte_of c < 128" | "194 \<le> byte_of c" "byte_of c \<le> 223"
    | "224 \<le> byte_of c" "byte_of c \<le> 239" | "240 \<le> byte_of c" "byte_of c \<le> 244"
    | "128 \<le> byte_of c" "byte_of c < 194 \<or> 244 < byte_of c" by linarith
  then show ?thesis
  proof cases
    case 1
    then show ?thesis by (simp add: lossy_step_def)
  next
    case 2
    with assms show ?thesis
      by (simp add: lossy_step_def byte_at_take min_absorb1 Let_def split: if_splits)
  next
    case 3
    with assms show ?thesis
      by (cases "2 \<le> k") (simp_all add: lossy_step_def byte_at_take min_absorb1 Let_def split: if_splits)
  next
    case 4
    with assms show ?thesis
      by (cases "3 \<le> k") (simp_all add: lossy_step_def byte_at_take min_absorb1 Let_def split: if_splits)
  next
    case 5
    have "lossy_step c t = (REPLACEMENT, 0)" for t
      using 5 unfolding lossy_step_def Let_def by (cases "byte_of c < 194") simp_all
    then show ?thesis by simp
  qed
qed

lemma lossy_step_count: "snd (lossy_step c s) \<le> 3"
  by (simp add: lossy_step_def Let_def)

text \<open>The replacement character is well formed itself.\<close>

lemma replacement_step:
  assumes "fst (lossy_step c s) = c # take (snd (lossy_step c s)) s" and "fst (lossy_step c s) = REPLACEMENT"
    and "snd (lossy_step c s) \<le> k"
  shows "lossy_step c (take k s) = lossy_step c s"
proof -
  let ?n = "snd (lossy_step c s)"
  from assms(1,2) have "c = CHR 0xEF" and t: "take ?n s = [CHR 0xBF, CHR 0xBD]"
    unfolding REPLACEMENT_def by (metis list.inject)+
  moreover from t have "2 \<le> ?n" by (metis length_Cons length_take list.size(3) min.cobounded2 numeral_2_eq_2)
  moreover obtain r where "s = CHR 0xBF # CHR 0xBD # r"
    using t by (metis append_Cons append_Nil append_take_drop_id)
  ultimately show ?thesis using assms(3)
    by (cases k; cases "k - 1") (simp_all add: lossy_step_def byte_at_def)
qed

lemma valid_prefix:
  "utf8_valid s \<Longrightarrow> is_char_boundary s p \<Longrightarrow> utf8_valid (take p s)"
proof (induction s arbitrary: p rule: utf8_lossy.induct)
  case (2 x s)
  let ?n = "snd (lossy_step x s)"
  note step = valid_step [OF "2.prems"(1)]
  show ?case
  proof (cases p)
    case (Suc k)
    have "?n \<le> k \<or> length s \<le> k"
    proof (rule ccontr)
      assume "\<not> ?thesis"
      then have "k < length s" and "k < length (take ?n s)" and "take ?n s ! k = s ! k" by simp_all
      then have "s ! k \<in> set (take ?n s)" by (metis nth_mem)
      with step_cont(2) [OF step(1)] have "is_utf8_cont (s ! k)" by (simp add: list_all_iff)
      with "2.prems"(2) Suc \<open>k < length s\<close> show False by (simp add: is_char_boundary_def)
    qed
    then show ?thesis
    proof
      assume "length s \<le> k"
      with "2.prems"(1) Suc show ?thesis by simp
    next
      assume k: "?n \<le> k"
      then have same: "lossy_step x (take k s) = lossy_step x s"
        using step(1) lossy_step_take replacement_step by blast
      have "is_char_boundary (drop ?n s) (k - ?n)"
        using "2.prems"(2) Suc k by (auto simp: is_char_boundary_def)
      from "2.IH" [OF step(2) this] have rest: "utf8_valid (take (k - ?n) (drop ?n s))" .
      have "utf8_lossy (x # take k s) = (x # take ?n s) @ utf8_lossy (drop ?n (take k s))"
        using same step(1) by simp
      also have "\<dots> = (x # take ?n s) @ take (k - ?n) (drop ?n s)"
        using rest by (simp add: drop_take utf8_valid_def)
      also have "\<dots> = x # take k s"
        using k by (simp add: take_add [symmetric])
      finally show ?thesis using Suc by (simp add: utf8_valid_def)
    qed
  qed simp
qed simp

lemma boundary_near:
  "utf8_valid s \<Longrightarrow> i \<le> length s \<Longrightarrow> \<exists>j \<le> i. i - j \<le> 3 \<and> is_char_boundary s j"
proof (induction s arbitrary: i rule: utf8_lossy.induct)
  case (2 x s)
  let ?n = "snd (lossy_step x s)"
  note step = valid_step [OF "2.prems"(1)]
  show ?case
  proof (cases "i \<le> 3")
    case True
    then show ?thesis by (intro exI [of _ 0]) (simp add: is_char_boundary_def)
  next
    case False
    with lossy_step_count [of x s] have i: "Suc ?n \<le> i" by simp
    have "i - Suc ?n \<le> length (drop ?n s)" using "2.prems"(2) by simp
    from "2.IH" [OF step(2) this] obtain j where j: "j \<le> i - Suc ?n" "i - Suc ?n - j \<le> 3"
      "is_char_boundary (drop ?n s) j" by blast
    then have "is_char_boundary (x # s) (Suc ?n + j)"
    proof (cases "j = 0")
      case True
      have "drop ?n s = [] \<or> \<not> is_utf8_cont (drop ?n s ! 0)"
        using step(2) valid_lead by (cases "drop ?n s") auto
      with True i "2.prems"(2) show ?thesis
        by (cases "?n < length s") (auto simp: is_char_boundary_def)
    qed (auto simp: is_char_boundary_def)
    with j i show ?thesis by (intro exI [of _ "Suc ?n + j"]) simp
  qed
qed (simp add: is_char_boundary_def)

lemma back_to_boundary:
  "is_char_boundary s (back_to_boundary s k)" "back_to_boundary s k \<le> k"
  "j \<le> k \<Longrightarrow> is_char_boundary s j \<Longrightarrow> j \<le> back_to_boundary s k"
  by (induction s k rule: back_to_boundary.induct)
    (auto simp: is_char_boundary_def le_Suc_eq)

text \<open>
  Cutting a captured stream keeps it readable: the result is a well-formed prefix of the
  text of at most 64 KiB, cut exactly when the text is longer, and never more than three
  bytes earlier than the cap.
\<close>

theorem truncate_exact:
  assumes "utf8_valid s"
  shows "prefix (fst (truncate s)) s \<and> utf8_valid (fst (truncate s)) \<and>
    length (fst (truncate s)) \<le> MAX_OUTPUT_BYTES \<and>
    snd (truncate s) = (MAX_OUTPUT_BYTES < length s) \<and>
    min (length s) MAX_OUTPUT_BYTES \<le> length (fst (truncate s)) + 3"
proof (cases "length s \<le> MAX_OUTPUT_BYTES")
  case True
  then show ?thesis using assms by (simp add: truncate_def)
next
  case False
  let ?cut = "back_to_boundary s MAX_OUTPUT_BYTES"
  note stop = back_to_boundary(1,2) [of s MAX_OUTPUT_BYTES]
  obtain j where "j \<le> MAX_OUTPUT_BYTES" "MAX_OUTPUT_BYTES - j \<le> 3" "is_char_boundary s j"
    using boundary_near [OF assms, of MAX_OUTPUT_BYTES] False by auto
  then have "MAX_OUTPUT_BYTES \<le> ?cut + 3" using back_to_boundary(3) [of j MAX_OUTPUT_BYTES s] by simp
  with False stop valid_prefix [OF assms stop(1)] show ?thesis
    by (simp add: truncate_def take_is_prefix)
qed

subsection \<open>What an action receives and what comes back\<close>

lemma build_command_simps [simp]:
  "cmd_env (build_command a) = []"
  "cmd_argv (build_command a) = (case act_user a of None \<Rightarrow> act_exec a
     | Some user \<Rightarrow> ''sudo'' # ''-n'' # ''-u'' # user # ''--'' # act_exec a)"
  by (cases "act_user a"; simp add: build_command_def)+

lemma bind_env_Inr:
  "bind_env broker bs c = Inr c' \<Longrightarrow>
   cmd_argv c' = cmd_argv c \<and>
   (\<forall>n. map_of (cmd_env c') n =
      (case find (\<lambda>b. eb_name b = n) (rev bs) of
         Some b \<Rightarrow> (case resolve broker (eb_reference b) of Inr v \<Rightarrow> Some v | Inl e \<Rightarrow> None)
       | None \<Rightarrow> map_of (cmd_env c) n)) \<and>
   (\<forall>b \<in> set bs. \<exists>v. resolve broker (eb_reference b) = Inr v)"
proof (induction bs arbitrary: c)
  case (Cons b bs)
  then obtain v where v: "resolve broker (eb_reference b) = Inr v"
    and rest: "bind_env broker bs (c\<lparr>cmd_env := AList.update (eb_name b) v (cmd_env c)\<rparr>) = Inr c'"
    by (auto split: sum.splits)
  have find_snoc: "find P (xs @ [x]) = (case find P xs of Some y \<Rightarrow> Some y | None \<Rightarrow> if P x then Some x else None)"
    for P and xs and x :: env_binding
    by (induction xs) auto
  from Cons.IH [OF rest] v show ?case
    by (auto simp: find_snoc update_conv' split: option.splits)
qed simp

lemma bind_env_Inl:
  "bind_env broker bs c = Inl e \<Longrightarrow>
   \<exists>b \<in> set bs. \<exists>e'. resolve broker (eb_reference b) = Inl e'"
  by (induction bs arbitrary: c) (auto split: sum.splits)

lemma sanitize_text_cases:
  "sanitize_text X N dlp s = SUPPRESSED_BY_DLP \<or>
   check_violations X dlp (normalize_for_matching N (sanitize_text X N dlp s)) = None"
  by (auto simp: sanitize_text_def Let_def)

definition stream_safe :: "dlp_ext \<Rightarrow> norm_ext \<Rightarrow> dlp_engine \<Rightarrow> output_policy \<Rightarrow> string \<Rightarrow> bool" where
  "stream_safe X N dlp policy s \<longleftrightarrow>
     s = [] \<or>
     (case policy of
        SuppressOutput \<Rightarrow> s = SUPPRESSED_BY_POLICY
      | RedactOutput \<Rightarrow> s = SUPPRESSED_BY_DLP \<or>
          check_violations X dlp (normalize_for_matching N s) = None)"

lemma sanitize_safe: "stream_safe X N dlp policy (sanitize X N policy dlp s)"
  using sanitize_text_cases [of X N dlp s]
  by (cases policy) (auto simp: stream_safe_def sanitize_def)

lemma execute_streams_safe:
  "stream_safe X N dlp (act_output a) (res_stdout (execute_action X N os t a broker dlp)) \<and>
   stream_safe X N dlp (act_output a) (res_stderr (execute_action X N os t a broker dlp))"
proof -
  have "stream_safe X N dlp (act_output a) []" by (simp add: stream_safe_def)
  then show ?thesis
    by (auto simp: execute_action_def failed_result_def sanitize_safe Let_def
        split: sum.splits outcome.splits prod.splits)
qed


subsection \<open>Witness\<close>

lemma truncate_exact_witness:
  "fst (truncate ''ok'') = ''ok'' \<and> prefix (fst (truncate ''ok'')) ''ok''"
proof -
  have "utf8_valid ''ok''" by (rule utf8_valid_ascii) (simp add: is_ascii_def)
  from truncate_exact [OF this] show ?thesis by (simp add: truncate_def MAX_OUTPUT_BYTES_def)
qed

end
