(* ===== verification/Broker_Ipc.thy ===== *)
theory Broker_Ipc
  imports Broker_Exec Smuggling
begin

section \<open>The broker daemon (src/broker/ipc.rs)\<close>

text \<open>
  The handlers of the loopback HTTP interface, the task an approval spawns, the sweeper, and
  the discovery files.  A handler gets the decoded request and gives the status and the JSON
  value of the response, or \<open>Panicked\<close> where the code would panic.  The shared state is
  explicit: the request store, the audit queue (events in the order they are logged), the
  lines printed for the operator, and the spawned executions.  Clocks, random draws and the
  time stamp of an event are arguments; where a handler reads the store twice, the first
  read is of a store \<open>seen\<close> that may be older than the one it then changes.
\<close>

subsection \<open>State, roles and responses\<close>

record daemon =
  dm_policy :: policy
  dm_secrets :: secret_broker
  dm_dlp :: dlp_engine
  dm_audit :: "json list"
  dm_store :: request_store
  dm_agent_token :: string
  dm_admin_token :: string
  dm_notices :: "string list"
  dm_tasks :: "(string \<times> action_def) list"

datatype role = Agent | Admin

datatype reply = Reply nat json | Panicked

definition audit_event :: "string \<Rightarrow> string \<Rightarrow> json \<Rightarrow> json" where
  "audit_event ts name event =
     (case event of
        JObj object \<Rightarrow> JObj (map_insert ''event'' (JStr name) (map_insert ''timestamp'' (JStr ts) object))
      | _ \<Rightarrow> event)"

definition log_event :: "string \<Rightarrow> string \<Rightarrow> (string \<times> json) list \<Rightarrow> daemon \<Rightarrow> daemon" where
  "log_event ts name kvs D = D\<lparr>dm_audit := dm_audit D @ [audit_event ts name (json_obj kvs)]\<rparr>"

definition role_of :: "header_map \<Rightarrow> daemon \<Rightarrow> role option" where
  "role_of h D =
     (case Option.bind (get_header h ''authorization'') header_to_str of
        None \<Rightarrow> None
      | Some v \<Rightarrow>
          (case strip_prefix ''Bearer '' v of
             None \<Rightarrow> None
           | Some token \<Rightarrow>
               if constant_time_eq token (dm_admin_token D) then Some Admin
               else if constant_time_eq token (dm_agent_token D) then Some Agent
               else None))"

definition unauthorized :: reply where
  "unauthorized = Reply 401 (json_obj [(''error'', JStr ''unauthorized'')])"

definition forbidden_agent :: reply where
  "forbidden_agent = Reply 403 (json_obj [(''error'', JStr ''admin_channel_required'')])"

definition error_reply :: "nat \<Rightarrow> string \<Rightarrow> reply" where
  "error_reply status e = Reply status (json_obj [(''error'', JStr e)])"

definition message_reply :: "nat \<Rightarrow> string \<Rightarrow> string \<Rightarrow> reply" where
  "message_reply status e m = Reply status (json_obj [(''error'', JStr e), (''message'', JStr m)])"

definition json_nat :: "nat \<Rightarrow> json" where
  "json_nat n = JNum (PosInt (word_of_nat n))"

definition json_int :: "int \<Rightarrow> json" where
  "json_int i = JNum (if 0 \<le> i then PosInt (word_of_int i) else NegInt (word_of_int i))"

definition json_opt :: "('a \<Rightarrow> json) \<Rightarrow> 'a option \<Rightarrow> json" where
  "json_opt f v = (case v of Some x \<Rightarrow> f x | None \<Rightarrow> JNull)"

definition result_to_json :: "action_result \<Rightarrow> json" where
  "result_to_json r = json_obj
     [(''exit_code'', json_opt json_int (exit_code r)), (''duration_ms'', json_nat (duration_ms r)),
      (''stdout'', JStr (res_stdout r)), (''stderr'', JStr (res_stderr r)),
      (''truncated'', JBool (res_truncated r)), (''suppressed'', JBool (res_suppressed r)),
      (''error'', json_opt JStr (res_error r))]"

subsection \<open>Handlers of the agent channel\<close>

text \<open>The surroundings of one call.\<close>

record call =
  c_headers :: header_map
  c_now1 :: nat
  c_now2 :: nat
  c_wall :: int
  c_rid :: string
  c_draws :: "nat list"
  c_ts :: string
  c_seen :: request_store

definition list_actions :: "call \<Rightarrow> daemon \<Rightarrow> reply" where
  "list_actions c D =
     (if role_of (c_headers c) D = None then unauthorized
      else Reply 200 (json_obj [(''actions'', JArr (map (\<lambda>a. json_obj
        [(''id'', JStr (act_id a)), (''description'', JStr (act_description a)),
         (''requires_elevation'', JBool (act_user a \<noteq> None))]) (pol_actions (dm_policy D))))]))"

definition pending_notice :: "string \<Rightarrow> string \<Rightarrow> string \<Rightarrow> string \<Rightarrow> string" where
  "pending_notice action_id request_id code reason =
     ''BROKER pending: '' @ SQ @ action_id @ SQ @ '' ('' @
     (if reason = [] then ''no reason given'' else reason) @ '') '' @
     [CHR 0xE2, CHR 0x80, CHR 0x94] @ '' approve: open-guardian approve '' @ request_id @
     '' --code '' @ code"

definition create_request ::
  "dlp_ext \<Rightarrow> (nat \<Rightarrow> nat) \<Rightarrow> call \<Rightarrow> string \<Rightarrow> string \<Rightarrow> daemon \<Rightarrow> reply \<times> daemon" where
  "create_request X as_secs c action_id reason_in D =
     (if role_of (c_headers c) D = None then (unauthorized, D)
      else (case policy_action (dm_policy D) action_id of
          None \<Rightarrow> (Reply 404 (json_obj [(''error'', JStr ''unknown_action''),
                     (''action_id'', JStr action_id)]), D)
        | Some action \<Rightarrow>
            if act_id action \<noteq> action_id then (error_reply 404 ''unknown_action'', D)
            else
              (let reason = take_chars 500 (redact_permanent X (dm_dlp D) reason_in);
                   (created, st') = create (c_now1 c) (c_now2 c) (c_wall c) (c_rid c) (c_draws c)
                     (act_id action) reason (dm_store D);
                   rid = req_id (cr_record created);
                   D' = log_event (c_ts c) ''action_requested''
                     [(''request_id'', JStr rid), (''action_id'', JStr (act_id action)),
                      (''reason'', JStr reason)] (D\<lparr>dm_store := st'\<rparr>)
               in (Reply 200 (json_obj
                     [(''request_id'', JStr rid), (''status'', JStr ''pending''),
                      (''expires_in_secs'', json_nat (as_secs (cr_pending_ttl created))),
                      (''message'', JStr ''awaiting operator approval (out-of-band)'')]),
                   D'\<lparr>dm_notices := dm_notices D' @
                     [pending_notice (act_id action) rid (cr_code created) reason]\<rparr>))))"

definition request_status ::
  "(int \<Rightarrow> string) \<Rightarrow> call \<Rightarrow> string \<Rightarrow> daemon \<Rightarrow> reply \<times> daemon" where
  "request_status show_time c rid D =
     (case role_of (c_headers c) D of
        None \<Rightarrow> (unauthorized, D)
      | Some role \<Rightarrow>
          (case snapshot rid (c_seen c) of
             None \<Rightarrow> (Reply 404 (json_obj [(''error'', JStr ''unknown_request''),
                       (''status'', JStr ''unknown'')]), D)
           | Some record \<Rightarrow>
               (let status = state_name (req_state record);
                    body = [(''request_id'', JStr (req_id record)),
                      (''action_id'', JStr (req_action_id record)),
                      (''reason'', JStr (req_reason record)), (''status'', JStr status),
                      (''created_at'', JStr (show_time (req_created_at record)))];
                    (delivered, st') = deliver rid (dm_store D); D' = D\<lparr>dm_store := st'\<rparr>
                in case delivered of
                     Some result \<Rightarrow>
                       (Reply 200 (json_obj (body @ [(''result'', result_to_json result)])),
                        log_event (c_ts c) ''result_delivered''
                          [(''request_id'', JStr (req_id record)),
                           (''action_id'', JStr (req_action_id record)),
                           (''channel'', JStr (if role = Admin then ''admin'' else ''agent''))] D')
                   | None \<Rightarrow>
                       (Reply 200 (json_obj (body @ (if status = ''completed''
                          then [(''note'', JStr ''result already delivered once'')] else []))), D'))))"

subsection \<open>Handlers of the admin channel\<close>

text \<open>The guard of the admin handlers: \<open>None\<close> lets the call through.\<close>

definition admin_guard :: "header_map \<Rightarrow> daemon \<Rightarrow> reply option" where
  "admin_guard h D =
     (if role_of h D \<noteq> Some Admin
      then Some (if role_of h D \<noteq> None then forbidden_agent else unauthorized) else None)"

definition do_approve ::
  "call \<Rightarrow> string \<Rightarrow> bool \<Rightarrow> string \<Rightarrow> daemon \<Rightarrow> reply \<times> daemon" where
  "do_approve c rid yes code D =
     (case approve (c_now1 c) rid code (dm_store D) of
        (Inr action_id, st') \<Rightarrow>
          (let D' = log_event (c_ts c) ''action_approved''
                 [(''request_id'', JStr rid), (''action_id'', JStr action_id),
                  (''code_bypassed'', JBool yes)] (D\<lparr>dm_store := st'\<rparr>)
           in case policy_action (dm_policy D) action_id of
                None \<Rightarrow> (Panicked, D')
              | Some action \<Rightarrow>
                  (Reply 200 (json_obj [(''request_id'', JStr rid), (''status'', JStr ''executing''),
                     (''message'', JStr ''approved; execution started. Poll /v1/status for the one-time result.'')]),
                   D'\<lparr>dm_tasks := dm_tasks D' @ [(rid, action)]\<rparr>))
      | (Inl Unknown, st') \<Rightarrow> (error_reply 404 ''unknown_request'', D\<lparr>dm_store := st'\<rparr>)
      | (Inl (NotPending why), st') \<Rightarrow> (message_reply 409 ''not_pending'' why, D\<lparr>dm_store := st'\<rparr>)
      | (Inl WrongCode, st') \<Rightarrow> (error_reply 403 ''wrong_code'', D\<lparr>dm_store := st'\<rparr>))"

definition approve_request ::
  "call \<Rightarrow> string \<Rightarrow> string option \<Rightarrow> bool \<Rightarrow> daemon \<Rightarrow> reply \<times> daemon" where
  "approve_request c rid code yes D =
     (case admin_guard (c_headers c) D of
        Some r \<Rightarrow> (r, D)
      | None \<Rightarrow>
          (let expected_code = code_of rid (c_seen c);
               provided = (case code of Some t \<Rightarrow> t | None \<Rightarrow> []);
               expected = (case expected_code of Some t \<Rightarrow> t | None \<Rightarrow> [])
           in if \<not> yes \<and> expected_code = None
              then (message_reply 409 ''not_pending'' ''request is not awaiting approval'', D)
              else if \<not> yes \<and> \<not> constant_time_eq provided expected
              then (message_reply 403 ''wrong_code'' ''run `open-guardian requests` to see the code'',
                    log_event (c_ts c) ''action_approve_rejected''
                      [(''request_id'', JStr rid), (''reason'', JStr ''wrong_code'')] D)
              else do_approve c rid yes expected D))"

definition deny_request :: "call \<Rightarrow> string \<Rightarrow> daemon \<Rightarrow> reply \<times> daemon" where
  "deny_request c rid D =
     (case admin_guard (c_headers c) D of
        Some r \<Rightarrow> (r, D)
      | None \<Rightarrow>
          (case deny (c_now1 c) rid (dm_store D) of
             (Inr u, st') \<Rightarrow>
               (Reply 200 (json_obj [(''status'', JStr ''denied'')]),
                log_event (c_ts c) ''action_denied'' [(''request_id'', JStr rid)] (D\<lparr>dm_store := st'\<rparr>))
           | (Inl Unknown, st') \<Rightarrow> (error_reply 404 ''unknown_request'', D\<lparr>dm_store := st'\<rparr>)
           | (Inl (NotPending why), st') \<Rightarrow> (message_reply 409 ''not_pending'' why, D\<lparr>dm_store := st'\<rparr>)
           | (Inl WrongCode, st') \<Rightarrow> (Panicked, D\<lparr>dm_store := st'\<rparr>)))"

definition request_entry :: "(int \<Rightarrow> string) \<Rightarrow> request_record \<Rightarrow> json" where
  "request_entry show_time record = json_obj
     ([(''id'', JStr (req_id record)), (''action_id'', JStr (req_action_id record)),
       (''reason'', JStr (req_reason record)), (''status'', JStr (state_name (req_state record))),
       (''created_at'', JStr (show_time (req_created_at record)))] @
      (case req_state record of Pending code e \<Rightarrow> [(''code'', JStr code)] | _ \<Rightarrow> []))"

definition list_requests_handler :: "(int \<Rightarrow> string) \<Rightarrow> call \<Rightarrow> daemon \<Rightarrow> reply" where
  "list_requests_handler show_time c D =
     (case admin_guard (c_headers c) D of
        Some r \<Rightarrow> r
      | None \<Rightarrow> Reply 200 (json_obj
          [(''requests'', JArr (map (request_entry show_time) (list_requests (dm_store D))))]))"

subsection \<open>Routing, execution and sweeping\<close>

datatype request =
    ListActions
  | CreateRequest string string
  | Status string
  | Approve string "string option" bool
  | Deny string
  | ListRequests

record ipc_env =
  ie_dlp :: dlp_ext
  ie_norm :: norm_ext
  ie_secs :: "nat \<Rightarrow> nat"
  ie_time :: "int \<Rightarrow> string"
  ie_os :: "nat \<Rightarrow> command \<Rightarrow> outcome"

text \<open>\<open>build_router\<close>: one handler for each route.\<close>

fun handle :: "ipc_env \<Rightarrow> call \<Rightarrow> request \<Rightarrow> daemon \<Rightarrow> reply \<times> daemon" where
  "handle I c ListActions D = (list_actions c D, D)"
| "handle I c (CreateRequest a reason) D = create_request (ie_dlp I) (ie_secs I) c a reason D"
| "handle I c (Status rid) D = request_status (ie_time I) c rid D"
| "handle I c (Approve rid code yes) D = approve_request c rid code yes D"
| "handle I c (Deny rid) D = deny_request c rid D"
| "handle I c ListRequests D = (list_requests_handler (ie_time I) c D, D)"

text \<open>The task spawned by an approval, when its action has run.\<close>

definition finish_task ::
  "ipc_env \<Rightarrow> nat \<Rightarrow> nat \<Rightarrow> string \<Rightarrow> string \<times> action_def \<Rightarrow> daemon \<Rightarrow> daemon" where
  "finish_task I elapsed now ts task D =
     (case task of (rid, action) \<Rightarrow>
        (let result = execute_action (ie_dlp I) (ie_norm I) (ie_os I) elapsed action (dm_secrets D) (dm_dlp D);
             D' = log_event ts ''action_executed''
               [(''request_id'', JStr rid), (''action_id'', JStr (act_id action)),
                (''exit_code'', json_opt json_int (exit_code result)),
                (''duration_ms'', json_nat (duration_ms result)),
                (''truncated'', JBool (res_truncated result)),
                (''suppressed'', JBool (res_suppressed result)),
                (''error'', json_opt JStr (res_error result))] D
         in D'\<lparr>dm_store := Broker_State.complete now rid result (dm_store D'), dm_tasks := remove1 task (dm_tasks D')\<rparr>))"

definition sweep_tick :: "nat \<Rightarrow> string \<Rightarrow> daemon \<Rightarrow> daemon" where
  "sweep_tick now ts D =
     (case sweep now (dm_store D) of (expired, st') \<Rightarrow>
        fold (\<lambda>rid. log_event ts ''action_expired'' [(''request_id'', JStr rid)]) expired
          (D\<lparr>dm_store := st'\<rparr>))"

subsection \<open>Starting, and the discovery files\<close>

definition daemon_start ::
  "policy \<Rightarrow> secret_broker \<Rightarrow> dlp_engine \<Rightarrow> nat \<Rightarrow> nat \<Rightarrow> string \<Rightarrow> string \<Rightarrow> string \<Rightarrow> string \<Rightarrow> daemon" where
  "daemon_start p secrets dlp pending result agent admin ts addr =
     (let D = \<lparr>dm_policy = p, dm_secrets = secrets, dm_dlp = dlp, dm_audit = [],
            dm_store = new_store pending result, dm_agent_token = agent, dm_admin_token = admin,
            dm_notices = [], dm_tasks = []\<rparr>
      in log_event ts ''broker_started''
           [(''addr'', JStr addr), (''actions'', json_nat (length (pol_actions p)))]
           (log_event ts ''policy_loaded''
              [(''fingerprint'', JStr (pol_fingerprint p)), (''actions'', json_nat (length (pol_actions p)))] D))"

definition discovery_body :: "string \<Rightarrow> string \<Rightarrow> json" where
  "discovery_body addr token = json_obj [(''addr'', JStr addr), (''token'', JStr token)]"

definition write_discovery ::
  "(json \<Rightarrow> string) \<Rightarrow> (string \<Rightarrow> bool) \<Rightarrow> string \<Rightarrow> string \<Rightarrow> string \<Rightarrow> files \<Rightarrow> (string + unit) \<times> files" where
  "write_discovery to_pretty writable path addr token fs =
     (if \<not> writable path then (Inl (''cannot write '' @ path), fs)
      else (Inr (), fs(path \<mapsto> to_pretty (discovery_body addr token) @ [LF])))"

definition read_discovery ::
  "(string \<Rightarrow> string + json) \<Rightarrow> string \<Rightarrow> files \<Rightarrow> string + string \<times> string" where
  "read_discovery from_str path fs =
     (case fs path of
        None \<Rightarrow> Inl (''cannot read '' @ path @ '' (is the broker running?)'')
      | Some content \<Rightarrow>
          (case from_str content of
             Inl e \<Rightarrow> Inl (''malformed discovery file '' @ path @ '': '' @ e)
           | Inr v \<Rightarrow>
               (case Option.bind (obj_get v ''addr'') as_str of
                  None \<Rightarrow> Inl ''discovery file missing addr''
                | Some addr \<Rightarrow>
                    (case Option.bind (obj_get v ''token'') as_str of
                       None \<Rightarrow> Inl ''discovery file missing token''
                     | Some token \<Rightarrow> Inr (addr, token)))))"

end
