(* ===== verification/Broker_Channels.thy ===== *)
theory Broker_Channels
  imports Broker_Ipc
begin

section \<open>The two channels of the broker daemon\<close>

text \<open>
  What the bearer roles of src/broker/ipc.rs promise.  An agent, or anybody without the
  admin token, neither approves nor denies, nor starts an execution; and what an agent sees
  does not depend on the approval codes (a noninterference property: erasing every code from
  the daemon changes no reply on the agent channel).
\<close>

subsection \<open>Erasing the codes\<close>

fun erase_state :: "request_state \<Rightarrow> request_state" where
  "erase_state (Pending code e) = Pending [] e"
| "erase_state s = s"

definition erase_record :: "request_record \<Rightarrow> request_record" where
  "erase_record r = r\<lparr>req_state := erase_state (req_state r)\<rparr>"

definition erase_store :: "request_store \<Rightarrow> request_store" where
  "erase_store st = st\<lparr>requests := map (\<lambda>(k, r). (k, erase_record r)) (requests st)\<rparr>"

definition erase_daemon :: "daemon \<Rightarrow> daemon" where
  "erase_daemon D = D\<lparr>dm_store := erase_store (dm_store D), dm_notices := []\<rparr>"

text \<open>Two calls that differ in random draws, and in the codes of the store read first.\<close>

definition same_call :: "call \<Rightarrow> call \<Rightarrow> bool" where
  "same_call c c' \<longleftrightarrow>
     c\<lparr>c_draws := [], c_seen := erase_store (c_seen c)\<rparr> =
     c'\<lparr>c_draws := [], c_seen := erase_store (c_seen c')\<rparr>"

lemma erase_record_simps [simp]:
  "req_id (erase_record r) = req_id r" "req_action_id (erase_record r) = req_action_id r"
  "req_reason (erase_record r) = req_reason r" "req_created_at (erase_record r) = req_created_at r"
  "req_purge_at (erase_record r) = req_purge_at r"
  "req_state (erase_record r) = erase_state (req_state r)"
  by (simp_all add: erase_record_def)

lemma erase_daemon_simps [simp]:
  "dm_policy (erase_daemon D) = dm_policy D" "dm_secrets (erase_daemon D) = dm_secrets D"
  "dm_dlp (erase_daemon D) = dm_dlp D" "dm_audit (erase_daemon D) = dm_audit D"
  "dm_store (erase_daemon D) = erase_store (dm_store D)"
  "dm_agent_token (erase_daemon D) = dm_agent_token D"
  "dm_admin_token (erase_daemon D) = dm_admin_token D" "dm_tasks (erase_daemon D) = dm_tasks D"
  by (simp_all add: erase_daemon_def)

lemma erase_store_simps [simp]:
  "pending_ttl (erase_store st) = pending_ttl st" "result_ttl (erase_store st) = result_ttl st"
  by (simp_all add: erase_store_def)

lemma erase_daemon_iff:
  "erase_daemon D = erase_daemon D' \<longleftrightarrow>
     dm_policy D = dm_policy D' \<and> dm_secrets D = dm_secrets D' \<and> dm_dlp D = dm_dlp D' \<and>
     dm_audit D = dm_audit D' \<and> erase_store (dm_store D) = erase_store (dm_store D') \<and>
     dm_agent_token D = dm_agent_token D' \<and> dm_admin_token D = dm_admin_token D' \<and>
     dm_tasks D = dm_tasks D'"
  unfolding erase_daemon_def by (cases D; cases D') auto

lemma erase_update: "map (\<lambda>(k, r). (k, f r)) (AList.update k v xs) =
   AList.update k (f v) (map (\<lambda>(k, r). (k, f r)) xs)"
  by (induction xs) auto

lemma map_of_erase: "map_of (map (\<lambda>(k, r). (k, f r)) xs) k = map_option f (map_of xs k)"
  by (induction xs) auto

lemma snapshot_erase: "snapshot k (erase_store st) = map_option erase_record (snapshot k st)"
  by (simp add: snapshot_def erase_store_def map_of_erase)

lemma state_name_erase [simp]: "state_name (erase_state s) = state_name s"
  by (cases s) simp_all

lemma erase_set_state:
  "erase_store (set_state k r s st) = set_state k (erase_record r) (erase_state s) (erase_store st)"
  by (simp add: erase_store_def set_state_def erase_update erase_record_def)

lemma deliver_erase:
  "fst (deliver k (erase_store st)) = fst (deliver k st) \<and>
   snd (deliver k (erase_store st)) = erase_store (snd (deliver k st))"
proof (cases "snapshot k st")
  case None
  then show ?thesis
    using snapshot_erase [of k st] by (simp add: deliver_def snapshot_def)
next
  case (Some r)
  then show ?thesis
    using snapshot_erase [of k st]
    by (cases "req_state r") (simp_all add: deliver_def snapshot_def erase_set_state)
qed

lemma create_erase:
  assumes "create n1 n2 w rid ds a reason st = (c, st1)"
    and "create n1 n2 w rid ds' a reason st' = (c', st1')"
    and "erase_store st = erase_store st'"
  shows "erase_store st1 = erase_store st1' \<and> req_id (cr_record c) = req_id (cr_record c') \<and>
    cr_pending_ttl c = cr_pending_ttl c'"
proof -
  have ttl: "pending_ttl st = pending_ttl st'" "result_ttl st = result_ttl st'"
    using assms(3) erase_store_simps by metis+
  moreover have "map (\<lambda>(k, r). (k, erase_record r)) (requests st) =
      map (\<lambda>(k, r). (k, erase_record r)) (requests st')"
    using arg_cong [OF assms(3), of requests] by (simp add: erase_store_def)
  ultimately show ?thesis
    using assms(1,2) assms(3)
    by (auto simp: create_def Let_def erase_store_def erase_update erase_record_def)
qed

subsection \<open>The agent channel\<close>

lemma role_of_tokens:
  "dm_agent_token D = dm_agent_token D' \<Longrightarrow> dm_admin_token D = dm_admin_token D' \<Longrightarrow>
   role_of h D = role_of h D'"
  by (auto simp: role_of_def split: option.splits)

lemma role_of_erase: "erase_daemon D = erase_daemon D' \<Longrightarrow> role_of h D = role_of h D'"
  by (rule role_of_tokens) (simp_all add: erase_daemon_iff)

lemma log_event_simps [simp]:
  "dm_policy (log_event ts n kvs D) = dm_policy D" "dm_secrets (log_event ts n kvs D) = dm_secrets D"
  "dm_dlp (log_event ts n kvs D) = dm_dlp D" "dm_store (log_event ts n kvs D) = dm_store D"
  "dm_agent_token (log_event ts n kvs D) = dm_agent_token D"
  "dm_admin_token (log_event ts n kvs D) = dm_admin_token D"
  "dm_notices (log_event ts n kvs D) = dm_notices D" "dm_tasks (log_event ts n kvs D) = dm_tasks D"
  "dm_audit (log_event ts n kvs D) = dm_audit D @ [audit_event ts n (json_obj kvs)]"
  by (simp_all add: log_event_def)

lemma same_call_simps:
  assumes "same_call c c'"
  shows "c_headers c = c_headers c'" "c_now1 c = c_now1 c'" "c_now2 c = c_now2 c'"
    "c_wall c = c_wall c'" "c_rid c = c_rid c'" "c_ts c = c_ts c'"
    "erase_store (c_seen c) = erase_store (c_seen c')"
  using assms unfolding same_call_def by (cases c; cases c'; simp)+

lemma create_request_erase:
  assumes "erase_daemon D = erase_daemon D'" and "same_call c c'"
  shows "fst (create_request X secs c a reason D) = fst (create_request X secs c' a reason D') \<and>
    erase_daemon (snd (create_request X secs c a reason D)) =
    erase_daemon (snd (create_request X secs c' a reason D'))"
proof -
  note c = same_call_simps [OF assms(2)] and D = assms(1) [unfolded erase_daemon_iff]
  let ?reason = "take_chars 500 (redact_permanent X (dm_dlp D) reason)"
  obtain cr st1 where cr: "create (c_now1 c) (c_now2 c) (c_wall c) (c_rid c) (c_draws c) a ?reason
      (dm_store D) = (cr, st1)" by (meson surj_pair)
  obtain cr' st1' where cr': "create (c_now1 c) (c_now2 c) (c_wall c) (c_rid c) (c_draws c') a ?reason
      (dm_store D') = (cr', st1')" by (meson surj_pair)
  have same: "erase_store st1 = erase_store st1'" "req_id (cr_record cr) = req_id (cr_record cr')"
    "cr_pending_ttl cr = cr_pending_ttl cr'"
    using create_erase [OF cr cr'] D by auto
  have role: "role_of (c_headers c) D = role_of (c_headers c) D'" using role_of_erase [OF assms(1)] .
  show ?thesis
  proof (cases "policy_action (dm_policy D) a")
    case None
    with D role c assms(1) show ?thesis by (simp add: create_request_def)
  next
    case (Some act)
    with D role c assms(1) cr cr' same show ?thesis
      by (cases "act_id act = a")
        (simp_all add: create_request_def Let_def erase_daemon_iff)
  qed
qed

lemma request_status_erase:
  assumes "erase_daemon D = erase_daemon D'" and "same_call c c'"
  shows "fst (request_status tm c rid D) = fst (request_status tm c' rid D') \<and>
    erase_daemon (snd (request_status tm c rid D)) = erase_daemon (snd (request_status tm c' rid D'))"
proof -
  note c = same_call_simps [OF assms(2)] and D = assms(1) [unfolded erase_daemon_iff]
  have role: "role_of (c_headers c) D = role_of (c_headers c) D'" using role_of_erase [OF assms(1)] .
  have seen: "map_option erase_record (snapshot rid (c_seen c)) =
      map_option erase_record (snapshot rid (c_seen c'))"
    using c(7) snapshot_erase by metis
  obtain res st1 where d: "deliver rid (dm_store D) = (res, st1)" by (meson surj_pair)
  obtain res' st1' where d': "deliver rid (dm_store D') = (res', st1')" by (meson surj_pair)
  have same: "res = res'" "erase_store st1 = erase_store st1'"
    using deliver_erase [of rid "dm_store D"] deliver_erase [of rid "dm_store D'"] D d d' by auto
  show ?thesis
  proof (cases "snapshot rid (c_seen c)")
    case None
    with seen role c assms(1) show ?thesis by (simp add: request_status_def split: option.splits)
  next
    case (Some r)
    with seen obtain r' where r': "snapshot rid (c_seen c') = Some r'" "erase_record r = erase_record r'"
      by (cases "snapshot rid (c_seen c')") auto
    from r'(2) have "req_id r = req_id r'" "req_action_id r = req_action_id r'"
      "req_reason r = req_reason r'" "req_created_at r = req_created_at r'"
      "state_name (req_state r) = state_name (req_state r')"
      by (metis erase_record_simps state_name_erase)+
    with Some r'(1) role c D d d' same assms(1) show ?thesis
      by (simp add: request_status_def Let_def erase_daemon_iff split: option.splits)
  qed
qed

lemma handle_erase:
  assumes "erase_daemon D = erase_daemon D'" and "same_call c c'"
    and "role_of (c_headers c) D \<noteq> Some Admin"
  shows "fst (handle I c q D) = fst (handle I c' q D') \<and>
    erase_daemon (snd (handle I c q D)) = erase_daemon (snd (handle I c' q D'))"
proof -
  note c = same_call_simps [OF assms(2)] and D = assms(1) [unfolded erase_daemon_iff]
  have role: "role_of (c_headers c) D = role_of (c_headers c) D'" using role_of_erase [OF assms(1)] .
  then have guard: "admin_guard (c_headers c) D = admin_guard (c_headers c) D'"
    "admin_guard (c_headers c) D \<noteq> None"
    using assms(3) by (simp_all add: admin_guard_def)
  show ?thesis
  proof (cases q)
    case ListActions
    with role c D assms(1) show ?thesis by (simp add: list_actions_def)
  next
    case (CreateRequest a reason)
    with create_request_erase [OF assms(1,2)] show ?thesis by simp
  next
    case (Status rid)
    with request_status_erase [OF assms(1,2)] show ?thesis by simp
  next
    case (Approve rid code yes)
    with guard c assms(1) show ?thesis by (auto simp: approve_request_def)
  next
    case (Deny rid)
    with guard c assms(1) show ?thesis by (auto simp: deny_request_def)
  next
    case ListRequests
    with guard c assms(1) show ?thesis by (auto simp: list_requests_handler_def)
  qed
qed

text \<open>A session: calls one after the other, and all the replies.\<close>

fun session :: "ipc_env \<Rightarrow> (call \<times> request) list \<Rightarrow> daemon \<Rightarrow> reply list \<times> daemon" where
  "session I [] D = ([], D)"
| "session I ((c, q) # calls) D =
     (let (rep, D') = handle I c q D; (reps, D'') = session I calls D' in (rep # reps, D''))"

lemma handle_tokens:
  "dm_agent_token (snd (handle I c q D)) = dm_agent_token D \<and>
   dm_admin_token (snd (handle I c q D)) = dm_admin_token D"
  by (cases q) (auto simp: create_request_def request_status_def approve_request_def do_approve_def
      deny_request_def Let_def split: option.splits prod.splits sum.splits approve_error.splits)

lemma handle_role: "role_of h (snd (handle I c q D)) = role_of h D"
  using handle_tokens [of I c q D] by (intro role_of_tokens) simp_all

lemma session_Cons:
  "fst (session I ((c, q) # calls) D) =
     fst (handle I c q D) # fst (session I calls (snd (handle I c q D)))"
  by (simp add: case_prod_beta Let_def)

lemma session_erase:
  assumes "list_all2 (\<lambda>(c, q) (c', q'). q = q' \<and> same_call c c') calls calls'"
    and "erase_daemon D = erase_daemon D'"
    and "list_all (\<lambda>(c, q). role_of (c_headers c) D \<noteq> Some Admin) calls"
  shows "fst (session I calls D) = fst (session I calls' D')"
  using assms
proof (induction calls calls' arbitrary: D D' rule: list_all2_induct)
  case (Cons x xs y ys)
  obtain c q c' q' where xy: "x = (c, q)" "y = (c', q')" by (cases x; cases y)
  with Cons have q: "q' = q" and c: "same_call c c'" by simp_all
  from Cons.prems(2) xy have "role_of (c_headers c) D \<noteq> Some Admin" by simp
  from handle_erase [OF Cons.prems(1) c this, of I q] have one:
    "fst (handle I c q D) = fst (handle I c' q D')"
    "erase_daemon (snd (handle I c q D)) = erase_daemon (snd (handle I c' q D'))" by simp_all
  have "list_all (\<lambda>(c, q). role_of (c_headers c) (snd (handle I c0 q0 D)) \<noteq> Some Admin) xs" for c0 q0
    using Cons.prems(2) by (simp add: handle_role)
  from Cons.IH [OF one(2) this] one(1) show ?case
    by (simp add: xy q session_Cons del: session.simps)
qed simp

text \<open>
  C6 The agent channel carries no approval code: run any session of calls that do not hold
  the admin token against two daemons that differ only in the codes of their pending
  requests (and in the random draws of the codes made meanwhile), and every reply is the
  same.
\<close>

theorem agent_channel_hides_codes:
  assumes "list_all2 (\<lambda>(c, q) (c', q'). q = q' \<and> same_call c c') calls calls'"
    and "erase_daemon D = erase_daemon D'"
    and "list_all (\<lambda>(c, q). role_of (c_headers c) D \<noteq> Some Admin) calls"
  shows "fst (session I calls D) = fst (session I calls' D')"
  using assms by (rule session_erase)

subsection \<open>Authority\<close>

lemma snapshot_deliver:
  assumes "deliver rid st = (res, st')" and "snapshot k st = Some r"
  shows "\<exists>r'. snapshot k st' = Some r' \<and>
    (r' = r \<or> (\<exists>x e. req_state r = Completed x False e \<and> r' = r\<lparr>req_state := Completed x True e\<rparr>))"
  using assms(1)
proof (cases rule: deliver_cases)
  case (delivered r0 result exp)
  with assms(2) show ?thesis by (cases "k = rid") auto
qed (use assms(2) in simp)

text \<open>
  C8 Only the admin token decides: a call without it, whatever it asks, starts no
  execution, and every request on file stays as it is, except that a result may be marked
  as delivered; in particular nothing is approved, denied or completed.
\<close>

theorem agent_cannot_decide:
  assumes "role_of (c_headers c) D \<noteq> Some Admin" and "handle I c q D = (rep, D')"
    and "snapshot k (dm_store D) = Some r" and "k \<noteq> c_rid c"
  shows "dm_tasks D' = dm_tasks D \<and>
    (\<exists>r'. snapshot k (dm_store D') = Some r' \<and>
      (r' = r \<or> (\<exists>x e. req_state r = Completed x False e \<and> r' = r\<lparr>req_state := Completed x True e\<rparr>)))"
proof (cases q)
  case (CreateRequest a reason)
  obtain cr st1 where cr: "create (c_now1 c) (c_now2 c) (c_wall c) (c_rid c) (c_draws c) a
      (take_chars 500 (redact_permanent (ie_dlp I) (dm_dlp D) reason)) (dm_store D) = (cr, st1)"
    by (meson surj_pair)
  have "snapshot k st1 = Some r" using create_store(1) [OF cr] assms(3,4) by simp
  with assms CreateRequest cr show ?thesis
    by (auto simp: create_request_def Let_def split: option.splits if_splits)
next
  case (Status rid)
  obtain res st1 where d: "deliver rid (dm_store D) = (res, st1)" by (meson surj_pair)
  with snapshot_deliver [OF d assms(3)] assms Status show ?thesis
    by (auto simp: request_status_def Let_def split: option.splits)
qed (use assms in \<open>auto simp: list_actions_def approve_request_def deny_request_def
    list_requests_handler_def admin_guard_def\<close>)

subsection \<open>Witnesses\<close>

definition sample_policy :: policy where
  "sample_policy = \<lparr>pol_actions = sample_actions, pol_fingerprint = ''f0''\<rparr>"

definition sample_daemon :: daemon where
  "sample_daemon = \<lparr>dm_policy = sample_policy, dm_secrets = new_broker, dm_dlp = sample_engine,
     dm_audit = [], dm_store = sample_store, dm_agent_token = ''a1'', dm_admin_token = ''b2'',
     dm_notices = [], dm_tasks = []\<rparr>"

definition other_store :: request_store where
  "other_store = set_state ''ab'' (snd (hd (requests sample_store))) (Pending ''zzzzzz'' 120) sample_store"

definition agent_call :: "request_store \<Rightarrow> call" where
  "agent_call seen = \<lparr>c_headers = [(''authorization'', ''Bearer a1'')], c_now1 = 1, c_now2 = 1,
     c_wall = 0, c_rid = ''cd'', c_draws = [], c_ts = ''t'', c_seen = seen\<rparr>"

definition sample_ipc :: ipc_env where
  "sample_ipc = \<lparr>ie_dlp = sample_ext, ie_norm = sample_norm, ie_secs = (\<lambda>n. n), ie_time = (\<lambda>i. ''now''),
     ie_os = (\<lambda>t c. Exited (Some 0) ''ok'' [])\<rparr>"

lemma agent_call_role: "role_of (c_headers (agent_call st)) sample_daemon = Some Agent"
  by code_simp

lemma agent_channel_hides_codes_witness:
  "fst (session sample_ipc [(agent_call sample_store, Status ''ab'')] sample_daemon) =
   fst (session sample_ipc [(agent_call other_store, Status ''ab'')]
     (sample_daemon\<lparr>dm_store := other_store\<rparr>))"
proof (rule agent_channel_hides_codes)
  have st: "erase_store sample_store = erase_store other_store"
    by (simp add: other_store_def sample_store_def erase_store_def set_state_def erase_record_def)
  then show "list_all2 (\<lambda>(c, q) (c', q'). q = q' \<and> same_call c c')
      [(agent_call sample_store, Status ''ab'')] [(agent_call other_store, Status ''ab'')]"
    by (simp add: same_call_def agent_call_def)
  from st show "erase_daemon sample_daemon = erase_daemon (sample_daemon\<lparr>dm_store := other_store\<rparr>)"
    by (simp add: erase_daemon_iff sample_daemon_def)
qed (simp add: agent_call_role)

lemma agent_cannot_decide_witness:
  "\<exists>r'. snapshot ''ab'' (dm_store (snd (handle sample_ipc (agent_call sample_store)
     (Approve ''ab'' (Some ''222222'') True) sample_daemon))) = Some r' \<and>
     req_state r' = Pending ''222222'' 120"
proof -
  let ?c = "agent_call sample_store" and ?q = "Approve ''ab'' (Some ''222222'') True"
  obtain rep D' where h: "handle sample_ipc ?c ?q sample_daemon = (rep, D')" by (meson surj_pair)
  obtain r where r: "snapshot ''ab'' (dm_store sample_daemon) = Some r" "req_state r = Pending ''222222'' 120"
    by (simp add: snapshot_def sample_daemon_def sample_store_def)
  have "role_of (c_headers ?c) sample_daemon \<noteq> Some Admin" "''ab'' \<noteq> c_rid ?c"
    by (simp_all add: agent_call_role) (simp add: agent_call_def)
  from agent_cannot_decide [OF this(1) h r(1) this(2)] r(2) show ?thesis
    unfolding h snd_conv by auto
qed

end
