(* ===== verification/Broker_Runs.thy ===== *)
theory Broker_Runs
  imports Broker_Channels
begin

section \<open>Runs of the whole daemon\<close>

text \<open>
  The daemon of src/broker/ipc.rs as a machine: calls with any headers in any order, spawned
  executions finishing at any time, and sweeps.  The request store machine of
  \<open>Broker_State\<close> is its abstract specification: every run of the daemon is a run of that
  machine, no handler panics, and the audit queue is the image of the abstract trace.  The
  ids drawn so far are kept beside the daemon; a fresh id is assumed for every call, as in
  \<open>Broker_State\<close>.
\<close>

datatype io = Called call request reply | Finished string | Swept

inductive ipc_step :: "ipc_env \<Rightarrow> daemon \<times> string set \<Rightarrow> io \<Rightarrow> daemon \<times> string set \<Rightarrow> bool" for I where
  ipc_call:
    "handle I c q D = (rep, D') \<Longrightarrow> c_rid c \<notin> U \<Longrightarrow> draws_ok (c_draws c) \<Longrightarrow>
     store_wf (c_seen c) \<Longrightarrow>
     ipc_step I (D, U) (Called c q rep) (D', U \<union> dom (\<lambda>k. snapshot k (dm_store D')))"
| ipc_finish:
    "task \<in> set (dm_tasks D) \<Longrightarrow>
     ipc_step I (D, U) (Finished (fst task)) (finish_task I elapsed now ts task D, U)"
| ipc_sweep:
    "ipc_step I (D, U) Swept (sweep_tick now ts D, U)"

inductive_cases ipc_stepE: "ipc_step I S l S'"

subsection \<open>The audit queue, seen as a trace\<close>

definition audit_key :: "json \<Rightarrow> (string \<times> string) option" where
  "audit_key e =
     (case (obj_get e ''event'', obj_get e ''request_id'') of
        (Some (JStr n), Some (JStr rid)) \<Rightarrow>
          if n = ''action_approve_rejected'' then None else Some (n, rid)
      | _ \<Rightarrow> None)"

definition audit_view :: "json list \<Rightarrow> (string \<times> string) list" where
  "audit_view es = List.map_filter audit_key es"

fun audit_of :: "label \<Rightarrow> (string \<times> string) list" where
  "audit_of (LCreated rid code e) = [(''action_requested'', rid)]"
| "audit_of (LApproved rid code t) = [(''action_approved'', rid)]"
| "audit_of (LDenied rid) = [(''action_denied'', rid)]"
| "audit_of (LCompleted rid r) = [(''action_executed'', rid)]"
| "audit_of (LDelivered rid r) = [(''result_delivered'', rid)]"
| "audit_of (LSwept rids) = map (Pair ''action_expired'') rids"
| "audit_of (LRejected rid e) = []"
| "audit_of (LNothing rid) = []"

lemma obj_get_event:
  "obj_get (audit_event ts n (json_obj kvs)) ''event'' = Some (JStr n)"
  "obj_get (audit_event ts n (json_obj kvs)) ''request_id'' = map_of (rev kvs) ''request_id''"
  by (simp_all add: audit_event_def json_obj_def obj_get_def foldl_insert)

lemma audit_view_append [simp]: "audit_view (xs @ ys) = audit_view xs @ audit_view ys"
  by (simp add: audit_view_def List.map_filter_def)

lemma audit_view_event [simp]:
  "audit_view [audit_event ts n (json_obj kvs)] =
     (case map_of (rev kvs) ''request_id'' of
        Some (JStr rid) \<Rightarrow> if n = ''action_approve_rejected'' then [] else [(n, rid)]
      | _ \<Rightarrow> [])"
  by (auto simp: audit_view_def List.map_filter_def audit_key_def obj_get_event
      split: option.splits json.splits)

subsection \<open>The simulation\<close>

definition daemon_ok :: "daemon \<Rightarrow> bool" where
  "daemon_ok D \<longleftrightarrow> (\<forall>k r. snapshot k (dm_store D) = Some r \<longrightarrow>
     policy_action (dm_policy D) (req_action_id r) \<noteq> None)"

definition sim :: "nat \<Rightarrow> nat \<Rightarrow> label list \<Rightarrow> broker_sys \<Rightarrow> daemon \<times> string set \<Rightarrow> bool" where
  "sim p t tr s S \<longleftrightarrow> run broker_step (broker_init p t) tr s \<and>
     sys_store s = dm_store (fst S) \<and> sys_running s = fst ` set (dm_tasks (fst S)) \<and>
     sys_used s = snd S \<and> distinct (map fst (dm_tasks (fst S))) \<and>
     audit_view (dm_audit (fst S)) = concat (map audit_of tr) \<and> daemon_ok (fst S)"

text \<open>One abstract step, or none, for a concrete one.\<close>

lemma sim_stutter:
  assumes "sim p t tr s (D, U)" and "dm_store D' = dm_store D" and "dm_tasks D' = dm_tasks D"
    and "dm_policy D' = dm_policy D" and "audit_view (dm_audit D') = audit_view (dm_audit D)"
  shows "sim p t tr s (D', U)"
  using assms by (simp add: sim_def daemon_ok_def)

lemma sim_snoc:
  assumes "sim p t tr s (D, U)" and "broker_step s l s'"
    and "sys_store s' = dm_store D'" and "sys_running s' = fst ` set (dm_tasks D')"
    and "sys_used s' = U'" and "distinct (map fst (dm_tasks D'))" and "daemon_ok D'"
    and "audit_view (dm_audit D') = audit_view (dm_audit D) @ audit_of l"
  shows "sim p t (tr @ [l]) s' (D', U')"
  using assms run_step [of broker_step "broker_init p t" tr s l s'] by (simp add: sim_def)

lemma sim_used:
  assumes "sim p t tr s (D, U)"
  shows "dom (\<lambda>k. snapshot k (dm_store D)) \<subseteq> U"
  using broker.run_inv [of p t tr s] assms by (auto simp: sim_def broker_inv_def)

lemma sim_running:
  assumes "sim p t tr s (D, U)" and "k \<in> fst ` set (dm_tasks D)" and "snapshot k (dm_store D) = Some r"
  shows "req_state r = Executing"
  using broker.run_inv [of p t tr s] assms by (force simp: sim_def broker_inv_def)

text \<open>A step that keeps the keys needs no new ids.\<close>

lemma daemon_ok_states:
  assumes "daemon_ok D" and "dm_policy D' = dm_policy D"
    and "\<And>k r'. snapshot k (dm_store D') = Some r' \<Longrightarrow>
      \<exists>r. snapshot k (dm_store D) = Some r \<and> req_action_id r = req_action_id r'"
  shows "daemon_ok D'"
  using assms unfolding daemon_ok_def by metis

definition keeps :: "request_store \<Rightarrow> request_store \<Rightarrow> bool" where
  "keeps st st' \<longleftrightarrow> (\<forall>k r'. snapshot k st' = Some r' \<longrightarrow>
     (\<exists>r. snapshot k st = Some r \<and> req_action_id r = req_action_id r'))"

lemma keeps_refl: "keeps st st"
  by (simp add: keeps_def)

lemma keeps_set_state: "snapshot rid st = Some r \<Longrightarrow> keeps st (set_state rid r s st)"
  by (auto simp: keeps_def)

lemma keeps_ok: "daemon_ok D \<Longrightarrow> dm_policy D' = dm_policy D \<Longrightarrow> keeps (dm_store D) (dm_store D') \<Longrightarrow> daemon_ok D'"
  by (rule daemon_ok_states) (auto simp: keeps_def)

lemma keeps_dom: "keeps st st' \<Longrightarrow> dom (\<lambda>k. snapshot k st') \<subseteq> dom (\<lambda>k. snapshot k st)"
  by (auto simp: keeps_def dom_def)

lemma keeps_ops:
  "approve now rid code st = (res, st') \<Longrightarrow> keeps st st'"
  "deny now rid st = (res2, st') \<Longrightarrow> keeps st st'"
  "deliver rid st = (res3, st') \<Longrightarrow> keeps st st'"
  by (erule approve_cases deny_cases deliver_cases; simp add: keeps_refl keeps_set_state)+

lemma keeps_complete: "keeps st (Broker_State.complete now rid result st)"
  by (cases rule: complete_cases [of rid st now result])
    (simp_all add: keeps_refl keeps_set_state)

lemma keeps_sweep: "store_wf st \<Longrightarrow> keeps st (snd (sweep now st))"
  by (auto simp: keeps_def snapshot_sweep sweep_record_def split: option.splits if_splits)

subsection \<open>Every step is simulated\<close>

definition simulated :: "nat \<Rightarrow> nat \<Rightarrow> daemon \<Rightarrow> string set \<Rightarrow> bool" where
  "simulated p t D U \<longleftrightarrow> (\<exists>tr s. sim p t tr s (D, U \<union> dom (\<lambda>k. snapshot k (dm_store D))))"

lemma simulated_stutter:
  assumes "sim p t tr s (D, U)" and "dm_store D' = dm_store D" and "dm_tasks D' = dm_tasks D"
    and "dm_policy D' = dm_policy D" and "audit_view (dm_audit D') = audit_view (dm_audit D)"
  shows "simulated p t D' U"
proof -
  from sim_used [OF assms(1)] assms(2) have "U \<union> dom (\<lambda>k. snapshot k (dm_store D')) = U" by auto
  with sim_stutter [OF assms] show ?thesis unfolding simulated_def by metis
qed

lemma simulated_snoc:
  assumes "sim p t tr s (D, U)" and "broker_step s l (s\<lparr>sys_store := dm_store D', sys_running := R\<rparr>)"
    and "R = fst ` set (dm_tasks D')" and "distinct (map fst (dm_tasks D'))"
    and "dm_policy D' = dm_policy D" and "keeps (dm_store D) (dm_store D')"
    and "audit_view (dm_audit D') = audit_view (dm_audit D) @ audit_of l"
  shows "simulated p t D' U"
proof -
  from sim_used [OF assms(1)] keeps_dom [OF assms(6)]
  have U: "U \<union> dom (\<lambda>k. snapshot k (dm_store D')) = U" by blast
  have "daemon_ok D'" using assms(1,5,6) by (auto simp: sim_def intro: keeps_ok)
  then have "sim p t (tr @ [l]) (s\<lparr>sys_store := dm_store D', sys_running := R\<rparr>) (D', U)"
    using assms(1,3,4) by (intro sim_snoc [OF assms(1,2)] assms(7)) (simp_all add: sim_def)
  then show ?thesis unfolding simulated_def U by blast
qed

lemma sim_facts:
  assumes "sim p t tr s (D, U)"
  shows "sys_store s = dm_store D" and "sys_running s = fst ` set (dm_tasks D)"
    and "sys_used s = U" and "distinct (map fst (dm_tasks D))" and "daemon_ok D"
    and "store_wf (dm_store D)"
  using assms broker.run_inv [of p t tr s] by (auto simp: sim_def broker_inv_def)

text \<open>A store operation that runs no task.\<close>

lemma simulated_store:
  assumes sim: "sim p t tr s (D, U)" and step: "broker_step s l (s\<lparr>sys_store := st'\<rparr>)"
    and "keeps (dm_store D) st'" and "dm_store D' = st'" and "dm_tasks D' = dm_tasks D"
    and "dm_policy D' = dm_policy D" and "audit_view (dm_audit D') = audit_view (dm_audit D) @ audit_of l"
  shows "simulated p t D' U"
proof (rule simulated_snoc [OF sim])
  have "s\<lparr>sys_store := dm_store D', sys_running := sys_running s\<rparr> = s\<lparr>sys_store := st'\<rparr>"
    using assms(4) by simp
  with step show "broker_step s l (s\<lparr>sys_store := dm_store D', sys_running := sys_running s\<rparr>)" by simp
qed (use assms sim_facts [OF sim] in simp_all)

lemma create_simulated:
  assumes sim: "sim p t tr s (D, U)" and new: "c_rid c \<notin> U" "draws_ok (c_draws c)"
    and h: "create_request X secs c a reason D = (rep, D')"
  shows "simulated p t D' U \<and> rep \<noteq> Panicked"
proof (cases "role_of (c_headers c) D = None \<or> policy_action (dm_policy D) a = None \<or>
    act_id (the (policy_action (dm_policy D) a)) \<noteq> a")
  case True
  with h have "D' = D" "rep \<noteq> Panicked"
    by (auto simp: create_request_def unauthorized_def error_reply_def split: option.splits if_splits)
  with simulated_stutter [OF sim, of D] show ?thesis by simp
next
  case False
  then obtain act where act: "policy_action (dm_policy D) a = Some act" "act_id act = a" by auto
  let ?reason = "take_chars 500 (redact_permanent X (dm_dlp D) reason)"
  obtain cr st1 where cr: "create (c_now1 c) (c_now2 c) (c_wall c) (c_rid c) (c_draws c) a ?reason
      (dm_store D) = (cr, st1)" by (meson surj_pair)
  have rid: "req_id (cr_record cr) = c_rid c" "req_action_id (cr_record cr) = a"
    using cr by (auto simp: create_def Let_def)
  note made = create_store [OF cr]
  have D': "dm_store D' = st1" "dm_tasks D' = dm_tasks D" "dm_policy D' = dm_policy D"
    "audit_view (dm_audit D') = audit_view (dm_audit D) @ [(''action_requested'', c_rid c)]"
    and rep: "rep \<noteq> Panicked"
    using h False act cr by (auto simp: create_request_def Let_def rid)
  have U': "U \<union> dom (\<lambda>k. snapshot k (dm_store D')) = insert (c_rid c) U"
    using sim_used [OF sim] made(1) by (auto simp: D'(1) dom_def)
  note f = sim_facts [OF sim]
  have "broker_step s (LCreated (c_rid c) (cr_code cr) (c_now2 c + pending_ttl (sys_store s)))
      (s\<lparr>sys_store := st1, sys_used := insert (c_rid c) (sys_used s)\<rparr>)"
    by (rule step_create [OF _ new(2) cr [folded f(1)]]) (simp add: f new(1))
  moreover have "daemon_ok D'"
    using f(5) made(1) act rid by (auto simp: daemon_ok_def D')
  ultimately have "sim p t (tr @ [LCreated (c_rid c) (cr_code cr) (c_now2 c + pending_ttl (sys_store s))])
      (s\<lparr>sys_store := st1, sys_used := insert (c_rid c) (sys_used s)\<rparr>) (D', insert (c_rid c) U)"
    by (intro sim_snoc [OF sim]) (simp_all add: D' f)
  with rep show ?thesis unfolding simulated_def U' by blast
qed

lemma status_simulated:
  assumes sim: "sim p t tr s (D, U)" and h: "request_status tm c rid D = (rep, D')"
    and seen: "\<And>r. snapshot rid (c_seen c) = Some r \<Longrightarrow> req_id r = rid"
  shows "simulated p t D' U \<and> rep \<noteq> Panicked"
proof (cases "role_of (c_headers c) D = None \<or> snapshot rid (c_seen c) = None")
  case True
  with h have "D' = D" "rep \<noteq> Panicked"
    by (auto simp: request_status_def unauthorized_def split: option.splits)
  with simulated_stutter [OF sim, of D] show ?thesis by simp
next
  case False
  then obtain role r where r: "role_of (c_headers c) D = Some role" "snapshot rid (c_seen c) = Some r"
    by auto
  obtain res st1 where d: "deliver rid (dm_store D) = (res, st1)" by (meson surj_pair)
  note f = sim_facts [OF sim]
  show ?thesis
  proof (cases res)
    case None
    have "broker_step s (LNothing rid) (s\<lparr>sys_store := st1\<rparr>)"
      by (rule step_deliver_nothing) (use d None f(1) in simp)
    from simulated_store [OF sim this keeps_ops(3) [OF d], of D'] h r d None show ?thesis
      by (auto simp: request_status_def Let_def)
  next
    case (Some result)
    have "broker_step s (LDelivered rid result) (s\<lparr>sys_store := st1\<rparr>)"
      by (rule step_deliver) (use d Some f(1) in simp)
    from simulated_store [OF sim this keeps_ops(3) [OF d], of D'] h r d Some seen [OF r(2)] show ?thesis
      by (auto simp: request_status_def Let_def)
  qed
qed

lemma do_approve_simulated:
  assumes sim: "sim p t tr s (D, U)" and h: "do_approve c rid yes code D = (rep, D')"
  shows "simulated p t D' U \<and> rep \<noteq> Panicked"
proof -
  note f = sim_facts [OF sim]
  obtain res st1 where a: "approve (c_now1 c) rid code (dm_store D) = (res, st1)" by (meson surj_pair)
  note a' = a [folded f(1)]
  show ?thesis
  proof (cases res)
    case (Inl e)
    have "broker_step s (LRejected rid e) (s\<lparr>sys_store := st1\<rparr>)"
      by (rule step_approve_rejected) (use a' Inl in simp)
    from simulated_store [OF sim this keeps_ops(1) [OF a], of D'] h a Inl show ?thesis
      by (auto simp: do_approve_def error_reply_def message_reply_def split: approve_error.splits)
  next
    case (Inr action)
    from a Inr obtain r exp where r: "snapshot rid (dm_store D) = Some r" "req_state r = Pending code exp"
      "req_action_id r = action"
      by (cases rule: approve_cases) auto
    with f(5) obtain act where act: "policy_action (dm_policy D) action = Some act"
      by (auto simp: daemon_ok_def)
    have idle: "rid \<notin> fst ` set (dm_tasks D)"
      using sim_running [OF sim _ r(1)] r(2) by auto
    have D': "dm_store D' = st1" "dm_tasks D' = dm_tasks D @ [(rid, act)]" "dm_policy D' = dm_policy D"
      "audit_view (dm_audit D') = audit_view (dm_audit D) @ [(''action_approved'', rid)]"
      and rep: "rep \<noteq> Panicked"
      using h a Inr act by (auto simp: do_approve_def Let_def)
    have "broker_step s (LApproved rid code (c_now1 c))
        (s\<lparr>sys_store := dm_store D', sys_running := insert rid (sys_running s)\<rparr>)"
      unfolding D'(1) by (rule step_approve) (use a' Inr in simp)
    then have "simulated p t D' U"
      by (rule simulated_snoc [OF sim]) (use D' f idle keeps_ops(1) [OF a] in auto)
    with rep show ?thesis by simp
  qed
qed

lemma admin_guard_reply: "admin_guard h D = Some r \<Longrightarrow> r \<noteq> Panicked"
  by (auto simp: admin_guard_def forbidden_agent_def unauthorized_def split: if_splits)

lemma approve_simulated:
  assumes sim: "sim p t tr s (D, U)" and h: "approve_request c rid code yes D = (rep, D')"
  shows "simulated p t D' U \<and> rep \<noteq> Panicked"
proof -
  have view: "audit_view (dm_audit (log_event (c_ts c) ''action_approve_rejected''
      [(''request_id'', JStr rid), (''reason'', JStr ''wrong_code'')] D)) = audit_view (dm_audit D)"
    by simp
  from h consider "D' = D \<and> rep \<noteq> Panicked"
    | "D' = log_event (c_ts c) ''action_approve_rejected''
         [(''request_id'', JStr rid), (''reason'', JStr ''wrong_code'')] D \<and> rep \<noteq> Panicked"
    | expected where "do_approve c rid yes expected D = (rep, D')"
    by (auto simp: approve_request_def message_reply_def Let_def dest: admin_guard_reply
        split: option.splits if_splits)
  then show ?thesis
  proof cases
    case 1
    with simulated_stutter [OF sim, of D] show ?thesis by simp
  next
    case 2
    with simulated_stutter [OF sim, of D'] view show ?thesis by simp
  next
    case 3
    with do_approve_simulated [OF sim] show ?thesis by blast
  qed
qed

lemma deny_simulated:
  assumes sim: "sim p t tr s (D, U)" and h: "deny_request c rid D = (rep, D')"
  shows "simulated p t D' U \<and> rep \<noteq> Panicked"
proof (cases "admin_guard (c_headers c) D")
  case (Some r)
  with h admin_guard_reply [OF Some] have "D' = D" "rep \<noteq> Panicked" by (auto simp: deny_request_def)
  with simulated_stutter [OF sim, of D] show ?thesis by simp
next
  case None
  note f = sim_facts [OF sim]
  obtain res st1 where d: "deny (c_now1 c) rid (dm_store D) = (res, st1)" by (meson surj_pair)
  note d' = d [folded f(1)]
  show ?thesis
  proof (cases res)
    case (Inl e)
    have "broker_step s (LRejected rid e) (s\<lparr>sys_store := st1\<rparr>)"
      by (rule step_deny_rejected) (use d' Inl in simp)
    moreover have "e \<noteq> WrongCode"
      using d Inl by (auto simp: deny_def split: option.splits request_state.splits if_splits)
    ultimately show ?thesis
      using simulated_store [OF sim _ keeps_ops(2) [OF d], of "LRejected rid e" D'] h d Inl None
      by (auto simp: deny_request_def error_reply_def message_reply_def split: approve_error.splits)
  next
    case (Inr u)
    have "broker_step s (LDenied rid) (s\<lparr>sys_store := st1\<rparr>)"
      by (rule step_deny) (use d' Inr in simp)
    from simulated_store [OF sim this keeps_ops(2) [OF d], of D'] h d Inr None show ?thesis
      by (auto simp: deny_request_def)
  qed
qed

lemma handle_simulated:
  assumes sim: "sim p t tr s (D, U)" and h: "handle I c q D = (rep, D')"
    and "c_rid c \<notin> U" and "draws_ok (c_draws c)" and "store_wf (c_seen c)"
  shows "simulated p t D' U \<and> rep \<noteq> Panicked"
proof (cases q)
  case ListActions
  with h simulated_stutter [OF sim, of D] show ?thesis
    by (auto simp: list_actions_def unauthorized_def split: if_splits)
next
  case (CreateRequest a reason)
  with h create_simulated [OF sim assms(3,4)] show ?thesis by simp
next
  case (Status rid)
  with h status_simulated [OF sim, of _ c rid] snapshot_id [OF assms(5)] show ?thesis by simp
next
  case (Approve rid code yes)
  with h approve_simulated [OF sim] show ?thesis by simp
next
  case (Deny rid)
  with h deny_simulated [OF sim] show ?thesis by simp
next
  case ListRequests
  with h simulated_stutter [OF sim, of D] show ?thesis
    by (auto simp: list_requests_handler_def dest: admin_guard_reply split: option.splits)
qed

lemma remove1_task:
  assumes "distinct (map fst xs)" and "(k, v) \<in> set xs"
  shows "distinct (map fst (remove1 (k, v) xs))"
    and "fst ` set (remove1 (k, v) xs) = fst ` set xs - {k}"
proof -
  from assms(1) have d: "distinct xs" and inj: "inj_on fst (set xs)" by (simp_all add: distinct_map)
  then have s: "set (remove1 (k, v) xs) = set xs - {(k, v)}" by simp
  show "distinct (map fst (remove1 (k, v) xs))"
    using d inj by (auto simp: distinct_map s intro: inj_on_subset)
  have "fst ` (set xs - {(k, v)}) = fst ` set xs - fst ` {(k, v)}"
    using assms(2) by (intro inj_on_image_set_diff [OF inj]) auto
  then show "fst ` set (remove1 (k, v) xs) = fst ` set xs - {k}" by (simp add: s)
qed

lemma finish_simulated:
  assumes sim: "sim p t tr s (D, U)" and task: "task \<in> set (dm_tasks D)"
  shows "simulated p t (finish_task I elapsed now ts task D) U"
proof -
  obtain rid act where ra: "task = (rid, act)" by (cases task)
  note f = sim_facts [OF sim]
  let ?r = "execute_action (ie_dlp I) (ie_norm I) (ie_os I) elapsed act (dm_secrets D) (dm_dlp D)"
  let ?D' = "finish_task I elapsed now ts task D"
  have D': "dm_store ?D' = Broker_State.complete now rid ?r (dm_store D)"
    "dm_tasks ?D' = remove1 (rid, act) (dm_tasks D)" "dm_policy ?D' = dm_policy D"
    "audit_view (dm_audit ?D') = audit_view (dm_audit D) @ [(''action_executed'', rid)]"
    by (simp_all add: finish_task_def ra Let_def)
  note left = remove1_task [OF f(4) task [unfolded ra]]
  have "broker_step s (LCompleted rid ?r)
      (s\<lparr>sys_store := Broker_State.complete now rid ?r (sys_store s), sys_running := sys_running s - {rid}\<rparr>)"
    by (rule step_complete) (use task ra f(2) in force)
  then show ?thesis
    by (intro simulated_snoc [OF sim, where l = "LCompleted rid ?r" and R = "sys_running s - {rid}"])
      (use D' f left keeps_complete in simp_all)
qed

lemma sweep_tick_facts:
  assumes "sweep now (dm_store D) = (expired, st')"
  shows "dm_store (sweep_tick now ts D) = st'" "dm_tasks (sweep_tick now ts D) = dm_tasks D"
    "dm_policy (sweep_tick now ts D) = dm_policy D"
    "audit_view (dm_audit (sweep_tick now ts D)) =
       audit_view (dm_audit D) @ map (Pair ''action_expired'') expired"
proof -
  let ?log = "\<lambda>rid. log_event ts ''action_expired'' [(''request_id'', JStr rid)]"
  have "dm_store (fold ?log ids D) = dm_store D \<and> dm_tasks (fold ?log ids D) = dm_tasks D \<and>
      dm_policy (fold ?log ids D) = dm_policy D \<and> audit_view (dm_audit (fold ?log ids D)) =
        audit_view (dm_audit D) @ map (Pair ''action_expired'') ids" for ids and D :: daemon
    by (induction ids arbitrary: D) simp_all
  from this [of expired "D\<lparr>dm_store := st'\<rparr>"] assms
  show "dm_store (sweep_tick now ts D) = st'" "dm_tasks (sweep_tick now ts D) = dm_tasks D"
    "dm_policy (sweep_tick now ts D) = dm_policy D"
    "audit_view (dm_audit (sweep_tick now ts D)) =
       audit_view (dm_audit D) @ map (Pair ''action_expired'') expired"
    by (simp_all add: sweep_tick_def)
qed

lemma sweep_simulated:
  assumes sim: "sim p t tr s (D, U)"
  shows "simulated p t (sweep_tick now ts D) U"
proof -
  note f = sim_facts [OF sim]
  obtain ex st1 where sw: "sweep now (dm_store D) = (ex, st1)" by (meson surj_pair)
  have "broker_step s (LSwept ex) (s\<lparr>sys_store := st1\<rparr>)"
    by (rule step_sweep) (use sw f(1) in simp)
  moreover have "keeps (dm_store D) st1"
    using keeps_sweep [OF f(6), of now] sw by simp
  ultimately show ?thesis
    by (rule simulated_store [OF sim]) (simp_all add: sweep_tick_facts [OF sw])
qed

definition ipc_inv :: "nat \<Rightarrow> nat \<Rightarrow> io list \<Rightarrow> daemon \<times> string set \<Rightarrow> bool" where
  "ipc_inv p t ios S \<longleftrightarrow> (\<exists>tr s. sim p t tr s S) \<and> (\<forall>c q. Called c q Panicked \<notin> set ios)"

lemma simulated_same_used:
  assumes "sim p t tr s (D, U)" and "simulated p t D' U" and "keeps (dm_store D) (dm_store D')"
  shows "\<exists>tr s. sim p t tr s (D', U)"
proof -
  have "U \<union> dom (\<lambda>k. snapshot k (dm_store D')) = U"
    using sim_used [OF assms(1)] keeps_dom [OF assms(3)] by blast
  with assms(2) show ?thesis by (simp add: simulated_def)
qed

lemma ipc_inv_step:
  assumes "ipc_inv p t ios S" and "ipc_step I S l S'"
  shows "ipc_inv p t (ios @ [l]) S'"
proof -
  from assms(1) obtain tr s where sim: "sim p t tr s S" and ok: "\<forall>c q. Called c q Panicked \<notin> set ios"
    by (auto simp: ipc_inv_def)
  from assms(2) show ?thesis
  proof cases
    case (ipc_call c q D rep D' U)
    from handle_simulated [OF sim [unfolded ipc_call(1)] ipc_call(4-7)] ok ipc_call(2,3)
    show ?thesis by (auto simp: ipc_inv_def simulated_def)
  next
    case (ipc_finish task D U elapsed now ts)
    note sim' = sim [unfolded ipc_finish(1)]
    have "keeps (dm_store D) (dm_store (finish_task I elapsed now ts task D))"
      by (cases task) (simp add: finish_task_def Let_def keeps_complete)
    from simulated_same_used [OF sim' finish_simulated [OF sim' ipc_finish(4)] this] ok ipc_finish(2,3)
    show ?thesis by (auto simp: ipc_inv_def)
  next
    case (ipc_sweep D U now ts)
    note sim' = sim [unfolded ipc_sweep(1)]
    have "keeps (dm_store D) (dm_store (sweep_tick now ts D))"
      using keeps_sweep [OF sim_facts(6) [OF sim'], of now]
        sweep_tick_facts(1) [of now D "fst (sweep now (dm_store D))" "snd (sweep now (dm_store D))" ts] by simp
    from simulated_same_used [OF sim' sweep_simulated [OF sim'] this] ok ipc_sweep(2,3)
    show ?thesis by (auto simp: ipc_inv_def)
  qed
qed

definition ipc_start ::
  "policy \<Rightarrow> secret_broker \<Rightarrow> dlp_engine \<Rightarrow> nat \<Rightarrow> nat \<Rightarrow> string \<Rightarrow> string \<Rightarrow> string \<Rightarrow> string \<Rightarrow>
   daemon \<times> string set" where
  "ipc_start pol secrets dlp p t agent admin ts addr =
     (daemon_start pol secrets dlp p t agent admin ts addr, {})"

lemma ipc_inv_start: "ipc_inv p t [] (ipc_start pol secrets dlp p t agent admin ts addr)"
proof -
  have "sim p t [] (broker_init p t) (ipc_start pol secrets dlp p t agent admin ts addr)"
    by (simp add: sim_def ipc_start_def daemon_start_def broker_init_def run_start daemon_ok_def
        audit_view_def Let_def List.map_filter_def audit_key_def obj_get_event)
  then show ?thesis by (auto simp: ipc_inv_def)
qed

interpretation daemon: safe_machine "ipc_step I" "ipc_start pol secrets dlp p t agent admin ts addr"
    "ipc_inv p t" for I pol secrets dlp p t agent admin ts addr
  by unfold_locales (auto intro: ipc_inv_start ipc_inv_step)

subsection \<open>What runs of the daemon satisfy\<close>

lemma daemon_sim:
  assumes "run (ipc_step I) (ipc_start pol secrets dlp p t agent admin ts addr) ios (D, U)"
  shows "\<exists>tr s. sim p t tr s (D, U)" and "Called c q Panicked \<notin> set ios"
  using daemon.run_inv [OF assms] by (simp_all add: ipc_inv_def)


lemma count_approvals:
  "length (filter ((=) (''action_approved'', k)) (concat (map audit_of tr))) =
   length (filter (is_approval k) tr)"
proof (induction tr)
  case (Cons l tr)
  have "filter ((=) (''action_approved'', k)) (map (Pair ''action_expired'') ids) = []" for ids
    by (induction ids) simp_all
  with Cons show ?case by (cases l) (auto simp: is_approval_def)
qed simp

lemma count_deliveries:
  "length (filter ((=) (''result_delivered'', k)) (concat (map audit_of tr))) =
   length (filter (is_delivery k) tr)"
proof (induction tr)
  case (Cons l tr)
  have "filter ((=) (''result_delivered'', k)) (map (Pair ''action_expired'') ids) = []" for ids
    by (induction ids) simp_all
  with Cons show ?case by (cases l) (auto simp: is_delivery_def)
qed simp

lemma subseq_concat_map: "subseq xs ys \<Longrightarrow> subseq (concat (map f xs)) (concat (map f ys))"
proof (induction rule: list_emb.induct)
  case (list_emb_Cons xs ys y)
  then show ?case by (simp add: list_emb_append2)
next
  case (list_emb_Cons2 x y xs ys)
  then show ?case by (simp add: list_emb_append_mono)
qed simp

lemma delivered_event:
  assumes "(''result_delivered'', k) \<in> set (concat (map audit_of tr))"
  shows "\<exists>r. LDelivered k r \<in> set tr"
proof -
  from assms obtain l where "l \<in> set tr" "(''result_delivered'', k) \<in> set (audit_of l)" by auto
  then show ?thesis by - (cases l; auto)
qed


subsection \<open>The life of one request\<close>

lemma policy_action_id: "policy_action p a = Some act \<Longrightarrow> act_id act = a"
  by (auto simp: policy_action_def find_Some_iff)

definition same_setup :: "daemon \<Rightarrow> daemon \<Rightarrow> bool" where
  "same_setup D D' \<longleftrightarrow> dm_policy D' = dm_policy D \<and> dm_secrets D' = dm_secrets D \<and> dm_dlp D' = dm_dlp D"

lemma do_approve_setup: "same_setup D (snd (do_approve c rid yes code D))"
  by (simp add: same_setup_def do_approve_def Let_def
      split: prod.split sum.split approve_error.split option.split)

lemma handle_setup: "same_setup D (snd (handle I c q D))"
proof (cases q)
  case (CreateRequest a reason)
  show ?thesis
    by (simp add: CreateRequest same_setup_def create_request_def Let_def split: option.split prod.split)
next
  case (Status rid)
  show ?thesis
    by (simp add: Status same_setup_def request_status_def Let_def split: option.split prod.split)
next
  case (Approve rid code yes)
  have "same_setup D D" "same_setup D (log_event ts n kvs D)" for ts n kvs by (simp_all add: same_setup_def)
  then show ?thesis
    by (simp add: Approve approve_request_def Let_def do_approve_setup split: option.split)
next
  case (Deny rid)
  show ?thesis
    by (simp add: Deny same_setup_def deny_request_def
        split: option.split prod.split sum.split approve_error.split)
qed (simp_all add: same_setup_def)

lemma handle_policy:
  "dm_policy (snd (handle I c q D)) = dm_policy D" "dm_secrets (snd (handle I c q D)) = dm_secrets D"
  "dm_dlp (snd (handle I c q D)) = dm_dlp D"
  using handle_setup [of D I c q] by (simp_all add: same_setup_def)

lemma life_create:
  assumes "policy_action (dm_policy D) a = Some act" and "role_of (c_headers c) D \<noteq> None"
    and "D1 = snd (handle I c (CreateRequest a reason) D)"
  obtains r code where "snapshot (c_rid c) (dm_store D1) = Some r"
    "req_state r = Pending code (c_now2 c + pending_ttl (dm_store D))" "req_action_id r = a"
    "req_id r = c_rid c"
proof -
  let ?reason = "take_chars 500 (redact_permanent (ie_dlp I) (dm_dlp D) reason)"
  obtain cr st1 where cr: "create (c_now1 c) (c_now2 c) (c_wall c) (c_rid c) (c_draws c) a ?reason
      (dm_store D) = (cr, st1)" by (meson surj_pair)
  have "dm_store D1 = st1"
    using assms policy_action_id [OF assms(1)] cr by (auto simp: create_request_def Let_def)
  moreover have "req_action_id (cr_record cr) = a" "req_id (cr_record cr) = c_rid c"
    using cr by (auto simp: create_def Let_def)
  ultimately show ?thesis using that create_store(1,3) [OF cr] by simp
qed

lemma life_approve:
  assumes "snapshot rid (dm_store D1) = Some r" and "req_state r = Pending code e"
    and "req_action_id r = a" and "policy_action (dm_policy D1) a = Some act"
    and "role_of (c_headers c) D1 = Some Admin" and "c_now1 c < e" and "c_seen c = dm_store D1"
    and "D2 = snd (handle I c (Approve rid (Some code) False) D1)"
  shows "dm_store D2 = set_state rid r Executing (dm_store D1)" and "(rid, act) \<in> set (dm_tasks D2)"
proof -
  have code: "code_of rid (c_seen c) = Some code" using assms by (simp add: code_of_def)
  have ok: "approve (c_now1 c) rid code (dm_store D1) = (Inr a, set_state rid r Executing (dm_store D1))"
    using assms by (simp add: approve_def snapshot_def ct_eq_iff)
  have "D2 = snd (do_approve c rid False code D1)"
    using assms code by (simp add: approve_request_def admin_guard_def ct_eq_iff)
  with ok assms(4) show "dm_store D2 = set_state rid r Executing (dm_store D1)"
    and "(rid, act) \<in> set (dm_tasks D2)"
    by (simp_all add: do_approve_def Let_def)
qed

lemma life_status:
  assumes "snapshot rid (dm_store D3) = Some r" and "req_state r = Completed result False e"
    and "role_of (c_headers c) D3 = Some ro" and "c_seen c = dm_store D3"
  shows "\<exists>body. fst (handle I c (Status rid) D3) = Reply 200 body \<and>
      obj_get body ''result'' = Some (result_to_json result)"
    and "\<exists>r'. snapshot rid (dm_store (snd (handle I c (Status rid) D3))) = Some r' \<and>
      req_state r' = Completed result True e"
proof -
  have "deliver rid (dm_store D3) = (Some result, set_state rid r (Completed result True e) (dm_store D3))"
    using assms(1,2) by (simp add: deliver_def snapshot_def)
  then show "\<exists>body. fst (handle I c (Status rid) D3) = Reply 200 body \<and>
      obj_get body ''result'' = Some (result_to_json result)"
    and "\<exists>r'. snapshot rid (dm_store (snd (handle I c (Status rid) D3))) = Some r' \<and>
      req_state r' = Completed result True e"
    using assms by (simp_all add: request_status_def Let_def obj_get_json_obj)
qed

lemma life_again:
  assumes "snapshot rid (dm_store D) = Some r" and "req_state r = Completed result True e"
    and "role_of (c_headers c) D = Some ro" and "c_seen c = dm_store D"
  shows "\<exists>body. fst (handle I c (Status rid) D) = Reply 200 body \<and> obj_get body ''result'' = None"
proof -
  have "deliver rid (dm_store D) = (None, dm_store D)"
    using assms(1,2) by (simp add: deliver_def snapshot_def)
  then show ?thesis using assms by (simp add: request_status_def Let_def obj_get_json_obj)
qed


subsection \<open>Witnesses\<close>

definition sample_start :: "daemon \<times> string set" where
  "sample_start = ipc_start sample_policy new_broker sample_engine 120 300 ''a1'' ''b2'' ''t'' ''addr''"

definition sample_call :: "string \<Rightarrow> string \<Rightarrow> request_store \<Rightarrow> call" where
  "sample_call token rid seen = \<lparr>c_headers = [(''authorization'', ''Bearer '' @ token)], c_now1 = 1,
     c_now2 = 1, c_wall = 0, c_rid = rid, c_draws = replicate 6 0, c_ts = ''t'', c_seen = seen\<rparr>"

definition sample_D1 :: daemon where
  "sample_D1 = snd (handle sample_ipc (sample_call ''a1'' ''cd'' (new_store 120 300))
     (CreateRequest ''restart-nginx'' ''go'') (fst sample_start))"

definition sample_cb :: call where
  "sample_cb = sample_call ''b2'' ''x1'' (dm_store sample_D1)"

definition sample_D2 :: daemon where
  "sample_D2 = snd (handle sample_ipc sample_cb
     (Approve ''cd'' (code_of ''cd'' (dm_store sample_D1)) False) sample_D1)"

definition sample_D3 :: daemon where
  "sample_D3 = finish_task sample_ipc 5 9 ''t'' (''cd'', hd sample_actions) sample_D2"

definition sample_cs :: call where
  "sample_cs = sample_call ''a1'' ''x2'' (dm_store sample_D3)"

definition sample_D4 :: daemon where
  "sample_D4 = snd (handle sample_ipc sample_cs (Status ''cd'') sample_D3)"

lemma sample_roles:
  "role_of (c_headers (sample_call ''a1'' k st)) (fst sample_start) = Some Agent"
  "role_of (c_headers (sample_call ''b2'' k st)) (fst sample_start) = Some Admin"
  by (simp_all add: sample_call_def sample_start_def ipc_start_def daemon_start_def Let_def role_of_def
      get_header_def header_to_str_def ct_eq_iff)

lemma sample_known: "policy_action (dm_policy (fst sample_start)) ''restart-nginx'' = Some (hd sample_actions)"
  by (simp add: sample_start_def ipc_start_def daemon_start_def Let_def sample_policy_def
      policy_action_def sample_actions_def sample_raw_def action_of_raw_def)


lemma ipc_run_snoc:
  "run (ipc_step I) S0 ios S \<Longrightarrow> ipc_step I S l S' \<Longrightarrow> run (ipc_step I) S0 (ios @ [l]) S'"
  by (rule run_step)

lemma status_logged:
  assumes "snapshot rid (dm_store D3) = Some r" and "req_state r = Completed result False e"
    and "role_of (c_headers c) D3 = Some ro" and "c_seen c = dm_store D3" and "req_id r = rid"
  shows "(''result_delivered'', rid) \<in> set (audit_view (dm_audit (snd (handle I c (Status rid) D3))))"
proof -
  have "deliver rid (dm_store D3) = (Some result, set_state rid r (Completed result True e) (dm_store D3))"
    using assms(1,2) by (simp add: deliver_def snapshot_def)
  then show ?thesis using assms by (simp add: request_status_def Let_def)
qed

lemma sample_draws: "draws_ok (c_draws (sample_call token k st))"
  by (simp add: sample_call_def draws_ok_def CODE_ALPHABET_def numeral_eq_Suc)

lemma call_step:
  assumes "run (ipc_step I) S0 ios (D, U)" and "c_rid c \<notin> U" and "draws_ok (c_draws c)"
    and "store_wf (c_seen c)" and "D' = snd (handle I c q D)"
  shows "\<exists>ios'. run (ipc_step I) S0 ios' (D', U \<union> dom (\<lambda>k. snapshot k (dm_store D')))"
  using ipc_run_snoc [OF assms(1) ipc_call [of I c q D "fst (handle I c q D)" D']] assms by auto

lemma sample_run_daemon:
  "\<exists>ios U. run (ipc_step sample_ipc) sample_start ios (sample_D4, U) \<and>
     (''result_delivered'', ''cd'') \<in> set (audit_view (dm_audit sample_D4))"
proof -
  let ?c1 = "sample_call ''a1'' ''cd'' (new_store 120 300)"
  have rid: "c_rid ?c1 = ''cd''" "c_rid sample_cb = ''x1''" "c_rid sample_cs = ''x2''"
    and seen: "c_seen ?c1 = new_store 120 300" "c_seen sample_cb = dm_store sample_D1"
      "c_seen sample_cs = dm_store sample_D3"
    by (simp_all add: sample_call_def sample_cb_def sample_cs_def)
  have draws: "draws_ok (c_draws sample_cb)" "draws_ok (c_draws sample_cs)"
    by (simp_all add: sample_cb_def sample_cs_def sample_draws)
  obtain D0 where D0: "sample_start = (D0, {})" by (simp add: sample_start_def ipc_start_def)
  have D1: "sample_D1 = snd (handle sample_ipc ?c1 (CreateRequest ''restart-nginx'' ''go'') D0)"
    by (simp add: sample_D1_def D0 del: handle.simps)
  have "run (ipc_step sample_ipc) sample_start [] (D0, {})" unfolding D0 by (rule run_start)
  from call_step [OF this _ sample_draws _ D1] obtain ios1 where
    run1: "run (ipc_step sample_ipc) sample_start ios1 (sample_D1, dom (\<lambda>k. snapshot k (dm_store sample_D1)))"
    by (auto simp: seen store_wf_new)
  have start: "\<And>ios D U. run (ipc_step sample_ipc) sample_start ios (D, U) \<Longrightarrow> store_wf (dm_store D)"
    using daemon_sim(1) sim_facts(6) unfolding sample_start_def by metis
  have role: "role_of (c_headers ?c1) D0 \<noteq> None" "role_of (c_headers sample_cb) D0 = Some Admin"
    "role_of (c_headers sample_cs) D0 = Some Agent"
    using sample_roles by (simp_all add: D0 sample_cb_def sample_cs_def)
  have times: "c_now2 ?c1 = 1" by (simp add: sample_call_def)
  from life_create [OF sample_known [unfolded D0 fst_conv] role(1) D1, unfolded rid times] obtain r code
    where r: "snapshot ''cd'' (dm_store sample_D1) = Some r"
      "req_state r = Pending code (1 + pending_ttl (dm_store D0))" "req_action_id r = ''restart-nginx''"
    by blast
  have only: "k \<noteq> ''cd'' \<Longrightarrow> snapshot k (dm_store sample_D1) = None" for k
  proof -
    assume "k \<noteq> ''cd''"
    obtain cr st1 where cr: "create 1 1 0 ''cd'' (replicate 6 0) ''restart-nginx''
        (take_chars 500 (redact_permanent (ie_dlp sample_ipc) (dm_dlp D0) ''go'')) (dm_store D0) = (cr, st1)"
      by (meson surj_pair)
    have "dm_store sample_D1 = st1"
      using role(1) sample_known [unfolded D0 fst_conv] policy_action_id [OF sample_known [unfolded D0 fst_conv]] cr
      by (auto simp: D1 create_request_def sample_call_def Let_def)
    moreover have "dm_store D0 = new_store 120 300"
      using D0 by (auto simp: sample_start_def ipc_start_def daemon_start_def Let_def)
    ultimately show ?thesis using create_store(1) [OF cr] \<open>k \<noteq> ''cd''\<close> by simp
  qed
  have known1: "policy_action (dm_policy sample_D1) ''restart-nginx'' = Some (hd sample_actions)"
    and role1: "role_of (c_headers sample_cb) sample_D1 = Some Admin"
    using sample_known role(2) by (simp_all add: D1 D0 handle_policy handle_role del: handle.simps)
  have code: "code_of ''cd'' (dm_store sample_D1) = Some code" using r by (simp add: code_of_def)
  have time: "c_now1 sample_cb < 1 + pending_ttl (dm_store D0)"
    using D0 by (auto simp: sample_cb_def sample_call_def sample_start_def ipc_start_def daemon_start_def
        Let_def new_store_def)
  note D2 = life_approve [OF r known1 role1 time seen(2) sample_D2_def [unfolded code]]
  have "''x1'' \<notin> dom (\<lambda>k. snapshot k (dm_store sample_D1))" by (simp add: only dom_def)
  from call_step [OF run1 _ draws(1) _ sample_D2_def] this start [OF run1] obtain ios2 where
    "run (ipc_step sample_ipc) sample_start ios2 (sample_D2, dom (\<lambda>k. snapshot k (dm_store sample_D1)) \<union>
      dom (\<lambda>k. snapshot k (dm_store sample_D2)))"
    by (auto simp: rid seen)
  moreover have "dom (\<lambda>k. snapshot k (dm_store sample_D1)) \<union> dom (\<lambda>k. snapshot k (dm_store sample_D2)) = {''cd''}"
  proof -
    have one: "dom (\<lambda>k. snapshot k (dm_store sample_D1)) = {''cd''}"
    proof (rule set_eqI)
      fix k show "k \<in> dom (\<lambda>k. snapshot k (dm_store sample_D1)) \<longleftrightarrow> k \<in> {''cd''}"
        using r(1) only [of k] by (cases "k = ''cd''") (simp_all add: domIff)
    qed
    have "(\<lambda>k. snapshot k (dm_store sample_D2)) =
        (\<lambda>k. snapshot k (dm_store sample_D1))(''cd'' \<mapsto> r\<lparr>req_state := Executing\<rparr>)"
      unfolding D2(1) by (rule ext) simp
    then have "dom (\<lambda>k. snapshot k (dm_store sample_D2)) = insert ''cd'' {''cd''}"
      unfolding one [symmetric] by simp
    with one show ?thesis by simp
  qed
  ultimately have run2: "run (ipc_step sample_ipc) sample_start ios2 (sample_D2, {''cd''})" by simp
  from ipc_run_snoc [OF run2 ipc_finish [OF D2(2), of sample_ipc "{''cd''}" 5 9 "''t''"]]
  obtain ios3 where run3: "run (ipc_step sample_ipc) sample_start ios3 (sample_D3, {''cd''})"
    by (auto simp: sample_D3_def)
  from call_step [OF run3 _ draws(2) _ sample_D4_def] start [OF run3] obtain ios4 U where
    run4: "run (ipc_step sample_ipc) sample_start ios4 (sample_D4, U)"
    by (auto simp: rid seen)
  let ?result = "execute_action (ie_dlp sample_ipc) (ie_norm sample_ipc) (ie_os sample_ipc) 5
    (hd sample_actions) (dm_secrets sample_D2) (dm_dlp sample_D2)"
  have "dm_store sample_D3 = Broker_State.complete 9 ''cd'' ?result (dm_store sample_D2)"
    by (simp add: sample_D3_def finish_task_def Let_def)
  then obtain r3 e where r3: "snapshot ''cd'' (dm_store sample_D3) = Some r3"
    "req_state r3 = Completed ?result False e"
    using D2(1) by (cases rule: complete_cases [of "''cd''" "dm_store sample_D2" 9 ?result]) auto
  have "req_id r3 = ''cd''" using snapshot_id [OF start [OF run3] r3(1)] .
  moreover have "role_of (c_headers sample_cs) sample_D3 = Some Agent"
  proof -
    have "dm_agent_token sample_D3 = dm_agent_token D0" "dm_admin_token sample_D3 = dm_admin_token D0"
      by (simp_all add: sample_D3_def sample_D2_def D1 finish_task_def Let_def handle_tokens del: handle.simps)
    from role_of_tokens [OF this] role(3) show ?thesis by simp
  qed
  ultimately have "(''result_delivered'', ''cd'') \<in> set (audit_view (dm_audit sample_D4))"
    unfolding sample_D4_def using status_logged [OF r3 _ seen(3)] by blast
  with run4 show ?thesis by blast
qed



end
