(* ===== verification/Proxy.thy ===== *)
theory Proxy
  imports Session Context_Dlp Json_Codec Utf8 Config Smuggling
begin

section \<open>Forwarding and response inspection (src/proxy.rs)\<close>

text \<open>
  What happens to the body of an upstream response before the client sees it, and the
  forwarding of one request.  Third-party code is the record \<open>proxy_ext\<close>: parsing and
  printing of JSON, URL parsing, which byte strings make a header name or value.  The network
  is a function from the request sent to the response or the failure; a body arrives in
  chunks.  Banners and log lines are left out.  The lemmas show at which positions a stored
  secret can come back, what block mode guarantees, and which requests are sent.
\<close>

definition MAX_INSPECTABLE_RESPONSE_BYTES :: nat where
  "MAX_INSPECTABLE_RESPONSE_BYTES = 16 * 1024 * 1024"

record proxy_ext =
  px_dlp :: dlp_ext
  px_parse :: "string \<Rightarrow> string + json"
  px_print :: "json \<Rightarrow> string"
  px_url :: "string \<Rightarrow> url_parts option"
  px_header_name :: "string \<Rightarrow> bool"
  px_header_value :: "string \<Rightarrow> bool"

subsection \<open>Mutations\<close>

record response_mutation =
  mu_redacted :: bool
  mu_restored :: bool
  mu_neutralized :: bool

definition no_mutation :: response_mutation where
  "no_mutation = \<lparr>mu_redacted = False, mu_restored = False, mu_neutralized = False\<rparr>"

definition merge_mutation :: "response_mutation \<Rightarrow> response_mutation \<Rightarrow> response_mutation" where
  "merge_mutation a b = \<lparr>mu_redacted = (mu_redacted a \<or> mu_redacted b),
     mu_restored = (mu_restored a \<or> mu_restored b),
     mu_neutralized = (mu_neutralized a \<or> mu_neutralized b)\<rparr>"

definition changed :: "response_mutation \<Rightarrow> bool" where
  "changed m \<longleftrightarrow> mu_redacted m \<or> mu_restored m \<or> mu_neutralized m"

datatype inspection_error = LeakFound dlp_violation | InvalidJson

subsection \<open>Strings and JSON values\<close>

definition transform_response_string ::
  "dlp_ext \<Rightarrow> dlp_engine \<Rightarrow> dlp_action \<Rightarrow> session \<Rightarrow> string \<Rightarrow> string option \<Rightarrow>
   inspection_error + string \<times> response_mutation" where
  "transform_response_string X engine act redactions input pointer =
     (case (if act = Block then check_violations X engine input else None) of
        Some leak \<Rightarrow> Inl (LeakFound leak)
      | None \<Rightarrow>
          (let redacted = (if act = Redact then redact_permanent X engine input else input);
               (restored, stats) = restore_at redactions redacted pointer
           in Inr (restored, \<lparr>mu_redacted = (redacted \<noteq> input),
                mu_restored = (0 < restored_count stats),
                mu_neutralized = (0 < neutralized_count stats)\<rparr>)))"

text \<open>
  The walk of the source over a JSON value, for a transformation \<open>T\<close> of a string at a
  pointer.  An object is emptied and filled again, entry by entry, in key order.
\<close>

type_synonym string_transform =
  "string \<Rightarrow> string option \<Rightarrow> inspection_error + string \<times> response_mutation"

fun transform_json_strings ::
  "string_transform \<Rightarrow> json \<Rightarrow> string \<Rightarrow> inspection_error + json \<times> response_mutation"
and transform_values ::
  "string_transform \<Rightarrow> nat \<Rightarrow> json list \<Rightarrow> string \<Rightarrow> inspection_error + json list \<times> response_mutation"
and transform_entries ::
  "string_transform \<Rightarrow> (string \<times> json) list \<Rightarrow> (string \<times> json) list \<Rightarrow> string \<Rightarrow>
   inspection_error + (string \<times> json) list \<times> response_mutation"
where
  "transform_json_strings T (JStr txt) pointer =
     (case T txt (Some pointer) of
        Inl e \<Rightarrow> Inl e
      | Inr (transformed, m) \<Rightarrow> Inr (JStr (if changed m then transformed else txt), m))"
| "transform_json_strings T (JArr vs) pointer =
     (case transform_values T 0 vs pointer of
        Inl e \<Rightarrow> Inl e | Inr (vs', m) \<Rightarrow> Inr (JArr vs', m))"
| "transform_json_strings T (JObj kvs) pointer =
     (case transform_entries T kvs [] pointer of
        Inl e \<Rightarrow> Inl e | Inr (kvs', m) \<Rightarrow> Inr (JObj kvs', m))"
| "transform_json_strings T JNull pointer = Inr (JNull, no_mutation)"
| "transform_json_strings T (JBool b) pointer = Inr (JBool b, no_mutation)"
| "transform_json_strings T (JNum n) pointer = Inr (JNum n, no_mutation)"
| "transform_values T i [] pointer = Inr ([], no_mutation)"
| "transform_values T i (v # vs) pointer =
     (case transform_json_strings T v (pointer @ ''/'' @ nat_dec i) of
        Inl e \<Rightarrow> Inl e
      | Inr (v', m) \<Rightarrow>
          (case transform_values T (Suc i) vs pointer of
             Inl e \<Rightarrow> Inl e
           | Inr (vs', m') \<Rightarrow> Inr (v' # vs', merge_mutation m m')))"
| "transform_entries T [] acc pointer = Inr (acc, no_mutation)"
| "transform_entries T ((k, v) # kvs) acc pointer =
     (case T k None of
        Inl e \<Rightarrow> Inl e
      | Inr (k', mk) \<Rightarrow>
          (case transform_json_strings T v (pointer @ ''/'' @ escape_token k') of
             Inl e \<Rightarrow> Inl e
           | Inr (v', mv) \<Rightarrow>
               if map_of acc k' \<noteq> None then Inl InvalidJson
               else (case transform_entries T kvs (map_insert k' v' acc) pointer of
                   Inl e \<Rightarrow> Inl e
                 | Inr (kvs', m) \<Rightarrow> Inr (kvs', merge_mutation (merge_mutation mk mv) m))))"

subsection \<open>Bodies\<close>

definition is_json_content_type :: "string \<Rightarrow> bool" where
  "is_json_content_type content_type \<longleftrightarrow>
     (let media_type = to_ascii_lowercase (trim (hd (split_on (CHR '';'') content_type)))
      in media_type = ''application/json'' \<or> ends_with ''+json'' media_type)"

definition inspect_json_response ::
  "proxy_ext \<Rightarrow> string_transform \<Rightarrow> string \<Rightarrow> inspection_error + string \<times> response_mutation" where
  "inspect_json_response P T body =
     (case px_parse P body of
        Inl e \<Rightarrow> Inl InvalidJson
      | Inr v \<Rightarrow>
          (case transform_json_strings T v [] of
             Inl e \<Rightarrow> Inl e
           | Inr (v', m) \<Rightarrow> Inr (if changed m then px_print P v' else body, m)))"

text \<open>A line and its ending.\<close>

definition line_ending :: "string \<Rightarrow> string \<times> string" where
  "line_ending segment =
     (case strip_suffix [CR, LF] segment of
        Some line \<Rightarrow> (line, [CR, LF])
      | None \<Rightarrow> (case strip_suffix [LF] segment of Some line \<Rightarrow> (line, [LF]) | None \<Rightarrow> (segment, [])))"

definition inspect_sse_segment ::
  "proxy_ext \<Rightarrow> string_transform \<Rightarrow> string \<Rightarrow> inspection_error + string \<times> response_mutation" where
  "inspect_sse_segment P T segment =
     (case line_ending segment of (line, ending) \<Rightarrow>
        (case strip_prefix ''data:'' line of
           None \<Rightarrow> Inr (line @ ending, no_mutation)
         | Some after_field \<Rightarrow>
             (let prefix_len = 5 + (if starts_with '' '' after_field then 1 else 0);
                  payload = drop prefix_len line
              in if payload = ''[DONE]'' \<or> payload = [] then Inr (line @ ending, no_mutation)
                 else (case (case px_parse P payload of
                          Inr v \<Rightarrow>
                            (case transform_json_strings T v [] of
                               Inl e \<Rightarrow> Inl e
                             | Inr (v', m) \<Rightarrow> Inr (if changed m then px_print P v' else payload, m))
                        | Inl e \<Rightarrow> T payload None) of
                     Inl e \<Rightarrow> Inl e
                   | Inr (transformed, m) \<Rightarrow> Inr (take prefix_len line @ transformed @ ending, m)))))"

fun inspect_segments ::
  "proxy_ext \<Rightarrow> string_transform \<Rightarrow> string list \<Rightarrow> inspection_error + string \<times> response_mutation" where
  "inspect_segments P T [] = Inr ([], no_mutation)"
| "inspect_segments P T (segment # segments) =
     (case inspect_sse_segment P T segment of
        Inl e \<Rightarrow> Inl e
      | Inr (out, m) \<Rightarrow>
          (case inspect_segments P T segments of
             Inl e \<Rightarrow> Inl e
           | Inr (out', m') \<Rightarrow> Inr (out @ out', merge_mutation m m')))"

definition inspect_sse_response ::
  "proxy_ext \<Rightarrow> string_transform \<Rightarrow> string \<Rightarrow> inspection_error + string \<times> response_mutation" where
  "inspect_sse_response P T body = inspect_segments P T (raw_lines LF body)"

definition inspect_response_text ::
  "proxy_ext \<Rightarrow> string \<Rightarrow> string \<Rightarrow> dlp_engine \<Rightarrow> dlp_action \<Rightarrow> session \<Rightarrow>
   inspection_error + string \<times> response_mutation" where
  "inspect_response_text P body content_type engine act redactions =
     (let T = transform_response_string (px_dlp P) engine act redactions in
      if body = [] then Inr ([], no_mutation)
      else if contains ''text/event-stream'' content_type then inspect_sse_response P T body
      else if is_json_content_type content_type then inspect_json_response P T body
      else T body None)"

subsection \<open>Reading a response\<close>

definition append_response_chunk :: "string \<Rightarrow> string \<Rightarrow> nat \<Rightarrow> string + string" where
  "append_response_chunk buffer chunk limit =
     (if limit < length buffer + length chunk
      then Inl (''upstream response exceeds the '' @ nat_dec limit @ '' byte inspection limit'')
      else Inr (buffer @ chunk))"

text \<open>The chunks of a stream, a broken one last.\<close>

fun read_response_body :: "(string + string) list \<Rightarrow> string \<Rightarrow> string + string" where
  "read_response_body [] body = Inr body"
| "read_response_body (Inl e # chunks) body = Inl ''Failed to read upstream response body''"
| "read_response_body (Inr chunk # chunks) body =
     (case append_response_chunk body chunk MAX_INSPECTABLE_RESPONSE_BYTES of
        Inl e \<Rightarrow> Inl e | Inr body' \<Rightarrow> read_response_body chunks body')"

subsection \<open>Credential and target\<close>

definition quoted_by :: "string \<Rightarrow> string \<Rightarrow> bool" where
  "quoted_by q s \<longleftrightarrow> starts_with q s \<and> ends_with q s"

definition build_bearer_header :: "proxy_ext \<Rightarrow> string \<Rightarrow> string + string" where
  "build_bearer_header P raw_key =
     (let trimmed = trim raw_key;
          clean_key = (if 2 \<le> length trimmed \<and> (quoted_by [CHR 0x22] trimmed \<or> quoted_by SQ trimmed)
                       then take (length trimmed - 2) (drop 1 trimmed) else trimmed);
          authorization = ''Bearer '' @ clean_key
      in if clean_key = [] then Inl ''configured API key is empty''
         else if \<not> px_header_value P authorization
         then Inl ''configured API key cannot be encoded as an Authorization header''
         else Inr authorization)"

definition trim_end_slashes :: "string \<Rightarrow> string" where
  "trim_end_slashes s = rev (dropWhile (\<lambda>c. c = CHR ''/'') (rev s))"

text \<open>The text of the target URL, once it parses.\<close>

definition build_target_url :: "proxy_ext \<Rightarrow> string \<Rightarrow> string \<Rightarrow> string + string" where
  "build_target_url P base_url path =
     (case px_url P base_url of
        None \<Rightarrow> Inl ''configured upstream URL is invalid''
      | Some base \<Rightarrow>
          if \<not> url_acceptable base then Inl ''configured upstream URL violates the endpoint policy''
          else
            (let normalized_base = trim_end_slashes base_url;
                 target_path = (if ends_with ''/v1'' normalized_base \<and> starts_with ''/v1'' path
                                then drop 3 path else path);
                 target = normalized_base @ target_path
             in if target_path \<noteq> [] \<and> \<not> starts_with ''/'' target_path
                then Inl ''upstream request path must be absolute''
                else if px_url P target = None then Inl ''upstream target URL is invalid''
                else Inr target))"

subsection \<open>Forwarding one request\<close>

record upstream_request =
  up_method :: string
  up_url :: string
  up_headers :: header_map
  up_body :: string

record upstream_response =
  ur_status :: nat
  ur_headers :: header_map
  ur_chunks :: "(string + string) list"

datatype send_error = Timeout | SendFailed

type_synonym upstream = "upstream_request \<Rightarrow> send_error + upstream_response"

record http_response =
  hr_status :: nat
  hr_headers :: header_map
  hr_body :: string

record forward_options =
  fo_upstream_url :: string
  fo_credential :: "secret_ref option"
  fo_method :: string
  fo_path :: string
  fo_headers :: header_map
  fo_body :: string
  fo_engine :: dlp_engine
  fo_action :: dlp_action
  fo_redactions :: session

definition CONTENT_TYPE_JSON :: header_map where
  "CONTENT_TYPE_JSON = [(''content-type'', ''application/json'')]"

definition json_response :: "proxy_ext \<Rightarrow> nat \<Rightarrow> (string \<times> json) list \<Rightarrow> http_response" where
  "json_response P status kvs =
     \<lparr>hr_status = status, hr_headers = CONTENT_TYPE_JSON, hr_body = px_print P (json_obj kvs)\<rparr>"

definition forwardable_header :: "proxy_ext \<Rightarrow> string \<times> string \<Rightarrow> bool" where
  "forwardable_header P = (\<lambda>(name, v).
     name \<notin> {''host'', ''content-length'', ''accept-encoding'', ''authorization''} \<and>
     px_header_name P name \<and> px_header_value P v)"

definition returnable_header :: "string \<times> string \<Rightarrow> bool" where
  "returnable_header = (\<lambda>(name, v).
     name \<notin> {''content-length'', ''transfer-encoding'', ''content-encoding'', ''connection'',
       ''keep-alive''})"

text \<open>The request as it is built, or why it is not.\<close>

definition build_upstream_request ::
  "proxy_ext \<Rightarrow> secret_broker \<Rightarrow> forward_options \<Rightarrow> string + upstream_request" where
  "build_upstream_request P secrets opts =
     (case build_target_url P (fo_upstream_url opts) (fo_path opts) of
        Inl e \<Rightarrow> Inl e
      | Inr url \<Rightarrow>
          (let headers = sanitize_headers (fo_headers opts);
               rest = filter (forwardable_header P) headers @ [(''accept-encoding'', ''gzip, br'')];
               request = (\<lambda>auth. \<lparr>up_method = fo_method opts, up_url = url, up_headers = auth @ rest,
                  up_body = fo_body opts\<rparr>)
           in case fo_credential opts of
                None \<Rightarrow> Inr (request [])
              | Some reference \<Rightarrow>
                  (case resolve secrets reference of
                     Inl e \<Rightarrow> Inl (''failed to resolve provider credential '' @ display_ref reference)
                   | Inr secret \<Rightarrow>
                       (case build_bearer_header P secret of
                          Inl e \<Rightarrow> Inl e
                        | Inr authorization \<Rightarrow> Inr (request [(''authorization'', authorization)])))))"

text \<open>What the client gets for the answer of the upstream.\<close>

definition finish_response ::
  "proxy_ext \<Rightarrow> forward_options \<Rightarrow> upstream_response \<Rightarrow> string + http_response" where
  "finish_response P opts response =
     (let content_type =
            (case Option.bind (get_header (ur_headers response) ''content-type'') header_to_str of
               Some v \<Rightarrow> v | None \<Rightarrow> [])
      in case read_response_body (ur_chunks response) [] of
           Inl e \<Rightarrow> Inl e
         | Inr bytes \<Rightarrow>
             if \<not> utf8_valid bytes
             then Inr (json_response P 502 [(''error'', JStr ''upstream_response_uninspectable''),
                    (''details'', JStr ''response_body_is_not_utf8'')])
             else (case inspect_response_text P bytes content_type (fo_engine opts) (fo_action opts)
                    (fo_redactions opts) of
                 Inl (LeakFound v) \<Rightarrow>
                   Inr (json_response P 403 [(''error'', JStr ''policy_violation''),
                     (''category'', JStr (vio_category v)), (''details'', JStr ''response_dlp_leak''),
                     (''message'', JStr (''Response contains prohibited data: '' @ vio_description v))])
               | Inl InvalidJson \<Rightarrow>
                   Inr (json_response P 502 [(''error'', JStr ''upstream_response_uninspectable''),
                     (''details'', JStr ''response_body_is_invalid_json'')])
               | Inr (body_final, m) \<Rightarrow>
                   Inr \<lparr>hr_status = ur_status response,
                     hr_headers = filter returnable_header (ur_headers response), hr_body = body_final\<rparr>))"

definition forward_request ::
  "proxy_ext \<Rightarrow> secret_broker \<Rightarrow> upstream \<Rightarrow> forward_options \<Rightarrow> string + http_response" where
  "forward_request P secrets send opts =
     (case build_upstream_request P secrets opts of
        Inl e \<Rightarrow> Inl e
      | Inr request \<Rightarrow>
          (case send request of
             Inl failure \<Rightarrow>
               Inr (json_response P (if failure = Timeout then 504 else 502)
                 [(''error'', JStr ''upstream_error''),
                  (''details'', JStr (if failure = Timeout then ''upstream_timeout''
                                      else ''upstream_unavailable''))])
           | Inr response \<Rightarrow> finish_response P opts response))"

subsection \<open>Walking a value\<close>

declare transform_json_strings.simps [simp del] transform_values.simps [simp del]
  transform_entries.simps [simp del]

lemmas transform_simps = transform_json_strings.simps transform_values.simps transform_entries.simps

fun json_texts :: "json \<Rightarrow> string list" where
  "json_texts (JStr s) = [s]"
| "json_texts (JArr vs) = concat (map json_texts vs)"
| "json_texts (JObj kvs) = concat (map (\<lambda>(k, v). k # json_texts v) kvs)"
| "json_texts JNull = []"
| "json_texts (JBool b) = []"
| "json_texts (JNum n) = []"

text \<open>What the walk relies on: an unchanged string is what it was.\<close>

definition transform_ok :: "string_transform \<Rightarrow> bool" where
  "transform_ok T \<longleftrightarrow> (\<forall>x q out m. T x q = Inr (out, m) \<and> \<not> changed m \<longrightarrow> out = x)"

text \<open>
  \<open>sites p v\<close>: the pointers of the string leaves of \<open>v\<close> when \<open>v\<close> stands at pointer \<open>p\<close>.
\<close>

definition sites :: "string \<Rightarrow> json \<Rightarrow> string set" where
  "sites p v = {p @ render_pointer ts | ts str. nav v ts = Some (JStr str)}"

lemma nav_JArr:
  "nav (JArr vs) (nat_dec i # ts) = (if i < length vs then nav (vs ! i) ts else None)"
  by (simp add: child_def)

lemma sites_element: "i < length vs \<Longrightarrow> sites (p @ ''/'' @ nat_dec i) (vs ! i) \<subseteq> sites p (JArr vs)"
proof
  fix q assume i: "i < length vs" and "q \<in> sites (p @ ''/'' @ nat_dec i) (vs ! i)"
  then obtain ts str where "nav (vs ! i) ts = Some (JStr str)"
    "q = p @ render_pointer (nat_dec i # ts)" by (auto simp: sites_def)
  with i show "q \<in> sites p (JArr vs)"
    unfolding sites_def using nav_JArr [of vs i ts] by (metis (mono_tags, lifting) mem_Collect_eq)
qed

lemma sites_entry:
  "map_of kvs k = Some v \<Longrightarrow> sites (p @ ''/'' @ escape_token k) v \<subseteq> sites p (JObj kvs)"
proof
  fix q assume k: "map_of kvs k = Some v" and "q \<in> sites (p @ ''/'' @ escape_token k) v"
  then obtain ts str where "nav v ts = Some (JStr str)" "q = p @ render_pointer (k # ts)"
    by (auto simp: sites_def)
  with k show "q \<in> sites p (JObj kvs)"
    unfolding sites_def by (auto simp: child_def intro!: exI [of _ "k # ts"])
qed

lemma transform_entries_keep:
  "transform_entries T kvs acc p = Inr (kvs', m) \<Longrightarrow> map_of acc k = Some w \<Longrightarrow>
   map_of kvs' k = Some w"
proof (induction kvs arbitrary: acc m)
  case (Cons e kvs)
  obtain k0 v0 where e: "e = (k0, v0)" by (cases e)
  from Cons.prems(1) obtain k' v' m' where "map_of acc k' = None"
    and rest: "transform_entries T kvs (map_insert k' v' acc) p = Inr (kvs', m')"
    by (auto simp: e transform_simps split: sum.splits prod.splits if_splits)
  with Cons.prems(2) have "map_of (map_insert k' v' acc) k = Some w" by auto
  from Cons.IH [OF rest this] show ?case .
qed (simp add: transform_simps)

lemma nav_scalar [simp]:
  "nav (JStr x) ts = Some (JStr str) \<longleftrightarrow> ts = [] \<and> x = str"
  "nav JNull ts \<noteq> Some (JStr str)"
  "nav (JBool b) ts \<noteq> Some (JStr str)"
  "nav (JNum n) ts \<noteq> Some (JStr str)"
  by (cases ts; auto simp: child_def)+

lemma sites_JStr [simp]: "sites p (JStr x) = {p}"
  by (auto simp: sites_def)

text \<open>
  The induction over the three mutual walks: what is assumed of an array from index \<open>i\<close> on
  and of the entries of an object is what holds of their elements.
\<close>

lemma transform_cong:
  "transform_json_strings T v p = Inr (v', m) \<Longrightarrow>
     (\<And>q x. q \<in> sites p v' \<Longrightarrow> T' x (Some q) = T x (Some q)) \<Longrightarrow> (\<And>x. T' x None = T x None) \<Longrightarrow>
     transform_json_strings T' v p = Inr (v', m)"
  "transform_values T i vs p = Inr (vs', m) \<Longrightarrow>
     (\<And>j q x. j < length vs' \<Longrightarrow> q \<in> sites (p @ ''/'' @ nat_dec (i + j)) (vs' ! j) \<Longrightarrow>
        T' x (Some q) = T x (Some q)) \<Longrightarrow> (\<And>x. T' x None = T x None) \<Longrightarrow>
     transform_values T' i vs p = Inr (vs', m)"
  "transform_entries T kvs acc p = Inr (kvs', m) \<Longrightarrow>
     (\<And>k w q x. map_of kvs' k = Some w \<Longrightarrow> q \<in> sites (p @ ''/'' @ escape_token k) w \<Longrightarrow>
        T' x (Some q) = T x (Some q)) \<Longrightarrow> (\<And>x. T' x None = T x None) \<Longrightarrow>
     transform_entries T' kvs acc p = Inr (kvs', m)"
proof (induction T v p and T i vs p and T kvs acc p arbitrary: v' m and vs' m and kvs' m
    rule: transform_json_strings_transform_values_transform_entries.induct)
  case (1 T tx pointer)
  then show ?case by (auto simp: transform_simps split: sum.splits prod.splits)
next
  case (2 T vs pointer)
  from 2(2) obtain vs' where v': "v' = JArr vs'" and w: "transform_values T 0 vs pointer = Inr (vs', m)"
    by (auto simp: transform_simps split: sum.splits)
  have "transform_values T' 0 vs pointer = Inr (vs', m)"
  proof (rule 2(1) [OF w])
    show "T' x (Some q) = T x (Some q)"
      if "j < length vs'" "q \<in> sites (pointer @ ''/'' @ nat_dec (0 + j)) (vs' ! j)" for j q x
      using 2(3) [of q x] that sites_element [of j vs' pointer] v' by auto
  qed (use 2(4) in auto)
  with v' show ?case by (simp add: transform_simps)
next
  case (3 T kvs pointer)
  from 3(2) obtain kvs' where v': "v' = JObj kvs'"
    and w: "transform_entries T kvs [] pointer = Inr (kvs', m)"
    by (auto simp: transform_simps split: sum.splits)
  have "transform_entries T' kvs [] pointer = Inr (kvs', m)"
  proof (rule 3(1) [OF w])
    show "T' x (Some q) = T x (Some q)"
      if "map_of kvs' k = Some w" "q \<in> sites (pointer @ ''/'' @ escape_token k) w" for k w q x
      using 3(3) [of q x] that sites_entry [of kvs' k w pointer] v' by auto
  qed (use 3(4) in auto)
  with v' show ?case by (simp add: transform_simps)
next
  case (8 T i v vs pointer)
  from 8(3) obtain w m1 ws m2 where a: "transform_json_strings T v (pointer @ ''/'' @ nat_dec i) = Inr (w, m1)"
    and b: "transform_values T (Suc i) vs pointer = Inr (ws, m2)"
    and eq: "vs' = w # ws" "m = merge_mutation m1 m2"
    by (auto simp: transform_simps split: sum.splits prod.splits)
  have "transform_json_strings T' v (pointer @ ''/'' @ nat_dec i) = Inr (w, m1)"
    by (rule 8(1) [OF a]) (use 8(4) [of 0] 8(5) eq in auto)
  moreover have "transform_values T' (Suc i) vs pointer = Inr (ws, m2)"
  proof (rule 8(2) [OF a _ b])
    show "T' x (Some q) = T x (Some q)"
      if "j < length ws" "q \<in> sites (pointer @ ''/'' @ nat_dec (Suc i + j)) (ws ! j)" for j q x
      using 8(4) [of "Suc j" q x] that eq by simp
  qed (use 8(5) in auto)
  ultimately show ?case using eq by (simp add: transform_simps)
next
  case (10 T k v kvs acc pointer)
  from 10(3) obtain k' mk w mv m' where a: "T k None = Inr (k', mk)"
    and b: "transform_json_strings T v (pointer @ ''/'' @ escape_token k') = Inr (w, mv)"
    and new: "map_of acc k' = None"
    and c: "transform_entries T kvs (map_insert k' w acc) pointer = Inr (kvs', m')"
    and eq: "m = merge_mutation (merge_mutation mk mv) m'"
    by (auto simp: transform_simps split: sum.splits prod.splits if_splits)
  have "map_of kvs' k' = Some w" by (rule transform_entries_keep [OF c]) simp
  then have "transform_json_strings T' v (pointer @ ''/'' @ escape_token k') = Inr (w, mv)"
    by (intro 10(1) [OF a _ b]) (use 10(4,5) in auto)
  moreover have "transform_entries T' kvs (map_insert k' w acc) pointer = Inr (kvs', m')"
    by (rule 10(2) [OF a _ b _ _ c]) (use 10(4,5) new in auto)
  ultimately show ?case using 10(5) a new eq by (simp add: transform_simps)
qed (simp_all add: transform_simps)

lemma nav_JArrD:
  assumes "nav (JArr vs) ts = Some (JStr str)"
  obtains i ts' where "ts = nat_dec i # ts'" "i < length vs" "nav (vs ! i) ts' = Some (JStr str)"
proof (cases ts)
  case (Cons t ts')
  with assms obtain i where i: "parse_index t = Some i" "i < length vs" "nav (vs ! i) ts' = Some (JStr str)"
    by (auto simp: child_def split: option.splits if_splits)
  moreover have "t = nat_dec i" by (rule parse_index_nat_decD) (rule i(1))
  ultimately show ?thesis using that Cons by blast
qed (use assms in simp)

lemma nav_JObjD:
  assumes "nav (JObj kvs) ts = Some (JStr str)"
  obtains k w ts' where "ts = k # ts'" "map_of kvs k = Some w" "nav w ts' = Some (JStr str)"
  using assms by (cases ts) (auto simp: child_def split: option.splits)

text \<open>\<open>origin T xs p v\<close>: every string leaf of \<open>v\<close> at \<open>p\<close> is a transformed text of \<open>xs\<close>.\<close>

definition origin :: "string_transform \<Rightarrow> string list \<Rightarrow> string \<Rightarrow> json \<Rightarrow> bool" where
  "origin T xs p v \<longleftrightarrow> (\<forall>ts str. nav v ts = Some (JStr str) \<longrightarrow>
     (\<exists>x \<in> set xs. \<exists>m. T x (Some (p @ render_pointer ts)) = Inr (str, m)))"

lemma origin_mono: "origin T xs p v \<Longrightarrow> set xs \<subseteq> set ys \<Longrightarrow> origin T ys p v"
  unfolding origin_def by blast

lemma origin_JArr:
  "(\<And>i. i < length vs \<Longrightarrow> origin T xs (p @ ''/'' @ nat_dec i) (vs ! i)) \<Longrightarrow> origin T xs p (JArr vs)"
  unfolding origin_def by (auto elim!: nav_JArrD)

lemma origin_JObj:
  "(\<And>k w. map_of kvs k = Some w \<Longrightarrow> origin T xs (p @ ''/'' @ escape_token k) w) \<Longrightarrow>
   origin T xs p (JObj kvs)"
  unfolding origin_def by (auto elim!: nav_JObjD)

lemma transform_origin:
  "transform_ok T \<Longrightarrow> transform_json_strings T v p = Inr (v', m) \<Longrightarrow> origin T (json_texts v) p v'"
  "transform_ok T \<Longrightarrow> transform_values T i vs p = Inr (vs', m) \<Longrightarrow>
     \<forall>j < length vs'. origin T (concat (map json_texts vs)) (p @ ''/'' @ nat_dec (i + j)) (vs' ! j)"
  "transform_ok T \<Longrightarrow> transform_entries T kvs acc p = Inr (kvs', m) \<Longrightarrow> map_of kvs' k0 = Some w0 \<Longrightarrow>
     map_of acc k0 = Some w0 \<or>
     origin T (json_texts (JObj kvs)) (p @ ''/'' @ escape_token k0) w0"
proof (induction T v p and T i vs p and T kvs acc p arbitrary: v' m and vs' m and kvs' m k0 w0
    rule: transform_json_strings_transform_values_transform_entries.induct)
  case (1 T tx pointer)
  then obtain out where out: "T tx (Some pointer) = Inr (out, m)" "v' = JStr (if changed m then out else tx)"
    by (auto simp: transform_simps split: sum.splits)
  with 1 have "v' = JStr out" by (auto simp: transform_ok_def)
  with out(1) show ?case by (auto simp: origin_def)
next
  case (2 T vs pointer)
  then obtain vs' where "v' = JArr vs'" "transform_values T 0 vs pointer = Inr (vs', m)"
    by (auto simp: transform_simps split: sum.splits)
  with 2 show ?case by (auto intro!: origin_JArr)
next
  case (3 T kvs pointer)
  from 3(3) obtain kvs' where v': "v' = JObj kvs'"
    and w: "transform_entries T kvs [] pointer = Inr (kvs', m)"
    by (auto simp: transform_simps split: sum.splits)
  show ?case unfolding v'
  proof (rule origin_JObj)
    fix k w assume k: "map_of kvs' k = Some w"
    from 3(1) [OF 3(2) w k]
    show "origin T (json_texts (JObj kvs)) (pointer @ ''/'' @ escape_token k) w" by simp
  qed
next
  case (8 T i v vs pointer)
  from 8(4) obtain w m1 ws m2 where a: "transform_json_strings T v (pointer @ ''/'' @ nat_dec i) = Inr (w, m1)"
    and b: "transform_values T (Suc i) vs pointer = Inr (ws, m2)" and eq: "vs' = w # ws"
    by (auto simp: transform_simps split: sum.splits prod.splits)
  note A = 8(1) [OF 8(3) a] and B = 8(2) [OF a _ 8(3) b]
  show ?case
  proof (intro allI impI)
    fix j assume j: "j < length vs'"
    show "origin T (concat (map json_texts (v # vs))) (pointer @ ''/'' @ nat_dec (i + j)) (vs' ! j)"
    proof (cases j)
      case 0
      with A eq show ?thesis by (auto intro: origin_mono)
    next
      case (Suc k)
      with B j eq have "origin T (concat (map json_texts vs)) (pointer @ ''/'' @ nat_dec (Suc i + k)) (ws ! k)"
        by auto
      with Suc eq show ?thesis by (auto intro: origin_mono)
    qed
  qed
next
  case (10 T k v kvs acc pointer)
  from 10(4) obtain k' mk w mv m' where a: "T k None = Inr (k', mk)"
    and b: "transform_json_strings T v (pointer @ ''/'' @ escape_token k') = Inr (w, mv)"
    and new: "map_of acc k' = None"
    and c: "transform_entries T kvs (map_insert k' w acc) pointer = Inr (kvs', m')"
    by (auto simp: transform_simps split: sum.splits prod.splits if_splits)
  from 10(1) [OF a _ 10(3) b] have A: "origin T (json_texts v) (pointer @ ''/'' @ escape_token k') w"
    by simp
  from 10(2) [OF a _ b _ _ 10(3) c 10(5)] new
  have "map_of (map_insert k' w acc) k0 = Some w0 \<or>
      origin T (json_texts (JObj kvs)) (pointer @ ''/'' @ escape_token k0) w0" by simp
  then show ?case
  proof
    assume "map_of (map_insert k' w acc) k0 = Some w0"
    then show ?thesis using A by (cases "k0 = k'") (auto intro: origin_mono)
  qed (auto intro: origin_mono)
qed (auto simp: transform_simps origin_def)

text \<open>Every text of a value that gets through has been let through by the transformation.\<close>

lemma transform_all_texts:
  "transform_json_strings T v p = Inr (v', m) \<Longrightarrow> x \<in> set (json_texts v) \<Longrightarrow> \<exists>q out. T x q = Inr out"
  "transform_values T i vs p = Inr (vs', m) \<Longrightarrow> x \<in> set (concat (map json_texts vs)) \<Longrightarrow>
     \<exists>q out. T x q = Inr out"
  "transform_entries T kvs acc p = Inr (kvs', m) \<Longrightarrow> x \<in> set (json_texts (JObj kvs)) \<Longrightarrow>
     \<exists>q out. T x q = Inr out"
proof (induction T v p and T i vs p and T kvs acc p arbitrary: v' m and vs' m and kvs' m
    rule: transform_json_strings_transform_values_transform_entries.induct)
  case (8 T i v vs pointer)
  from 8(3) obtain w m1 ws m2 where a: "transform_json_strings T v (pointer @ ''/'' @ nat_dec i) = Inr (w, m1)"
    and b: "transform_values T (Suc i) vs pointer = Inr (ws, m2)"
    by (auto simp: transform_simps split: sum.splits prod.splits)
  from 8(4) consider "x \<in> set (json_texts v)" | "x \<in> set (concat (map json_texts vs))" by auto
  then show ?case using 8(1) [OF a] 8(2) [OF a _ b] by cases blast+
next
  case (10 T k v kvs acc pointer)
  from 10(3) obtain k' mk w mv m' where a: "T k None = Inr (k', mk)"
    and b: "transform_json_strings T v (pointer @ ''/'' @ escape_token k') = Inr (w, mv)"
    and new: "\<not> map_of acc k' \<noteq> None"
    and c: "transform_entries T kvs (map_insert k' w acc) pointer = Inr (kvs', m')"
    by (auto simp: transform_simps split: sum.splits prod.splits if_splits)
  from 10(4) consider "x = k" | "x \<in> set (json_texts v)" | "x \<in> set (json_texts (JObj kvs))" by auto
  then show ?case using a 10(1) [OF a _ b] 10(2) [OF a _ b _ new c] by cases blast+
qed (auto simp: transform_simps split: sum.splits prod.splits if_splits)

subsection \<open>What the client sees\<close>

lemma restore_loop_stats:
  "restore_loop p vs t st = (out, st') \<Longrightarrow>
   restored_count st \<le> restored_count st' \<and> neutralized_count st \<le> neutralized_count st' \<and>
   (restored_count st' = restored_count st \<and> neutralized_count st' = neutralized_count st \<longrightarrow> out = t)"
proof (induction vs arbitrary: t st)
  case (Cons v vs)
  show ?case
  proof (cases "contains (rv_token v) t")
    case True
    then show ?thesis using Cons.prems
      by (cases "eligible p v") (auto dest!: Cons.IH)
  qed (use Cons in auto)
qed simp

lemma transform_response_ok: "transform_ok (transform_response_string X engine act s)"
proof -
  have "restored = redacted" if "restore_at s redacted q = (restored, stats)"
    "restored_count stats = 0" "neutralized_count stats = 0" for redacted restored stats q
    using that restore_loop_stats [of q "s_values s" redacted no_stats restored stats]
    by (auto simp: restore_at_def no_stats_def split: if_splits)
  then show ?thesis
    by (auto simp: transform_ok_def transform_response_string_def changed_def Let_def
        split: option.splits prod.splits if_splits)
qed

lemma transform_response_agree:
  "agrees_at q s t \<Longrightarrow> transform_response_string X engine act s x q = transform_response_string X engine act t x q"
  by (simp add: transform_response_string_def Let_def restore_at_agree [of q s t] split: option.splits)

text \<open>
  C3 A response brings a secret back only where it belongs: take two sessions with the same
  tokens and pointers whose secrets may differ.  If the secrets agree wherever they are
  eligible at a string position of the inspected JSON value, the inspection has the same
  result in both; and a text that is not JSON is inspected the same whatever the secrets
  are, so no secret can reach it.
\<close>

theorem response_secrets_in_place:
  assumes "agrees_at None s t"
    and "transform_json_strings (transform_response_string X engine act s) v [] = Inr (v', m)"
    and "\<forall>ts str. nav v' ts = Some (JStr str) \<longrightarrow> agrees_at (Some (render_pointer ts)) s t"
  shows "transform_json_strings (transform_response_string X engine act t) v [] = Inr (v', m) \<and>
    (contains ''text/event-stream'' content_type \<or> is_json_content_type content_type \<or>
     inspect_response_text P body content_type engine act s =
       inspect_response_text P body content_type engine act t)"
proof
  show "transform_json_strings (transform_response_string X engine act t) v [] = Inr (v', m)"
  proof (rule transform_cong(1) [OF assms(2)])
    fix q x assume "q \<in> sites [] v'"
    then obtain ts str where "q = render_pointer ts" "nav v' ts = Some (JStr str)"
      by (auto simp: sites_def)
    with assms(3) show "transform_response_string X engine act t x (Some q) =
        transform_response_string X engine act s x (Some q)"
      using transform_response_agree [of "Some q" s t] by simp
  qed (use transform_response_agree [OF assms(1)] in simp)
  show "contains ''text/event-stream'' content_type \<or> is_json_content_type content_type \<or>
      inspect_response_text P body content_type engine act s =
      inspect_response_text P body content_type engine act t"
    using transform_response_agree [OF assms(1)] by (auto simp: inspect_response_text_def Let_def)
qed

text \<open>
  C25 Nothing in a JSON response escapes inspection, keys and values alike.  In block mode a
  value gets through only when every text in it passes detection; in redact mode every
  string of the result, whatever its position, is a text of the upstream value after
  one-way redaction, with the placeholders restored for exactly that position.
\<close>

theorem response_value_inspected:
  assumes "transform_json_strings (transform_response_string X engine act s) v [] = Inr (v', m)"
  shows "(act = Redact \<or> list_all (\<lambda>x. check_violations X engine x = None) (json_texts v)) \<and>
    (\<forall>ts str. nav v' ts = Some (JStr str) \<longrightarrow> (\<exists>x \<in> set (json_texts v).
       str = fst (restore_at s (if act = Redact then redact_permanent X engine x else x)
         (Some (render_pointer ts)))))"
proof
  have "check_violations X engine x = None" if x: "x \<in> set (json_texts v)" and "act = Block" for x
  proof -
    from transform_all_texts(1) [OF assms x] obtain q out
      where "transform_response_string X engine act s x q = Inr out" by blast
    with \<open>act = Block\<close> show ?thesis by (auto simp: transform_response_string_def split: option.splits)
  qed
  then show "act = Redact \<or> list_all (\<lambda>x. check_violations X engine x = None) (json_texts v)"
    by (cases act) (auto simp: list_all_iff)
  have out: "str = fst (restore_at s (if act = Redact then redact_permanent X engine x else x) q)"
    if "transform_response_string X engine act s x q = Inr (str, mu)" for x q str mu
    using that by (auto simp: transform_response_string_def Let_def split: option.splits prod.splits if_splits)
  have "origin (transform_response_string X engine act s) (json_texts v) [] v'"
    by (rule transform_origin(1) [OF transform_response_ok assms])
  with out show "\<forall>ts str. nav v' ts = Some (JStr str) \<longrightarrow> (\<exists>x \<in> set (json_texts v).
       str = fst (restore_at s (if act = Redact then redact_permanent X engine x else x)
         (Some (render_pointer ts))))"
    unfolding origin_def by (metis append_Nil)
qed

definition TOO_LARGE :: string where
  "TOO_LARGE = ''upstream response exceeds the '' @ nat_dec MAX_INSPECTABLE_RESPONSE_BYTES @
     '' byte inspection limit''"

lemma read_response_body_chunks:
  "length body \<le> MAX_INSPECTABLE_RESPONSE_BYTES \<Longrightarrow> read_response_body (map Inr cs) body =
     (if length body + length (concat cs) \<le> MAX_INSPECTABLE_RESPONSE_BYTES
      then Inr (body @ concat cs) else Inl TOO_LARGE)"
  by (induction cs arbitrary: body) (auto simp: append_response_chunk_def TOO_LARGE_def)

lemma finish_response_chunks:
  "read_response_body a [] = read_response_body b [] \<Longrightarrow>
   finish_response P opts (r\<lparr>ur_chunks := a\<rparr>) = finish_response P opts (r\<lparr>ur_chunks := b\<rparr>)"
  by (simp add: finish_response_def split: sum.splits inspection_error.splits)

text \<open>
  Where the upstream body is cut into chunks makes no difference: a stream of chunks gets
  the answer its bytes would get in one piece, so no secret escapes by being split; and a
  body of more than 16 MiB is never answered from.
\<close>

theorem response_chunking_irrelevant:
  "finish_response P opts (r\<lparr>ur_chunks := map Inr cs\<rparr>) =
     finish_response P opts (r\<lparr>ur_chunks := [Inr (concat cs)]\<rparr>) \<and>
   (length (concat cs) \<le> MAX_INSPECTABLE_RESPONSE_BYTES \<or>
    finish_response P opts (r\<lparr>ur_chunks := map Inr cs\<rparr>) = Inl TOO_LARGE)"
proof
  have eq: "read_response_body (map Inr cs) [] = read_response_body [Inr (concat cs)] []"
    using read_response_body_chunks [of "[]" cs] read_response_body_chunks [of "[]" "[concat cs]"]
    by simp
  then show "finish_response P opts (r\<lparr>ur_chunks := map Inr cs\<rparr>) =
      finish_response P opts (r\<lparr>ur_chunks := [Inr (concat cs)]\<rparr>)" by (rule finish_response_chunks)
  show "length (concat cs) \<le> MAX_INSPECTABLE_RESPONSE_BYTES \<or>
      finish_response P opts (r\<lparr>ur_chunks := map Inr cs\<rparr>) = Inl TOO_LARGE"
    using read_response_body_chunks [of "[]" cs] by (auto simp: finish_response_def)
qed

subsection \<open>Witnesses\<close>

text \<open>An answer that echoes, under \<open>input\<close>, a placeholder minted in a message.\<close>

definition sample_echo :: json where
  "sample_echo = JObj [(''input'', JStr (mk_token ''ab'' 1 ''IP''))]"

definition other_session :: Session.session where
  "other_session = sample_session\<lparr>s_values := [s_values sample_session ! 0,
     (s_values sample_session ! 1)\<lparr>rv_secret := ''192.168.7.9''\<rparr>]\<rparr>"

abbreviation sample_transform :: "Session.session \<Rightarrow> string_transform" where
  "sample_transform s \<equiv> transform_response_string Context_Dlp.sample_ext Context_Dlp.sample_engine Redact s"

lemma sample_permanent:
  "redact_permanent Context_Dlp.sample_ext Context_Dlp.sample_engine ''input'' = ''input''"
  "redact_permanent Context_Dlp.sample_ext Context_Dlp.sample_engine (mk_token ''ab'' 1 ''IP'') =
     mk_token ''ab'' 1 ''IP''"
  by (simp_all add: redact_permanent_def Context_Dlp.sample_engine_def default_dlp_config_def
      Context_Dlp.sample_ext_def needle_ext_def keyword_prefilter_ok_def replace_all_def
      replace_all_with_def cap_get_def Dlp.slice_def enabled_defs mk_token_def PLACEHOLDER_PREFIX_def
      nat_dec.simps)

lemma sample_restore:
  "restore_at sample_session ''input'' None = (''input'', no_stats)"
  "restore_at sample_session (mk_token ''ab'' 1 ''IP'') (Some ''/input'') =
     (''<REDACTED>'', \<lparr>restored_count = 0, neutralized_count = 1\<rparr>)"
  by code_simp+

lemma sample_echo_inspected:
  "transform_json_strings (sample_transform sample_session) sample_echo [] =
     Inr (JObj [(''input'', JStr ''<REDACTED>'')],
       \<lparr>mu_redacted = False, mu_restored = False, mu_neutralized = True\<rparr>)"
  by (simp add: sample_echo_def transform_simps transform_response_string_def sample_permanent
      sample_restore escape_token_Cons no_stats_def merge_mutation_def no_mutation_def changed_def
      Let_def del: One_nat_def)

lemma response_secrets_in_place_witness:
  "transform_json_strings (sample_transform other_session) sample_echo [] =
     Inr (JObj [(''input'', JStr ''<REDACTED>'')],
       \<lparr>mu_redacted = False, mu_restored = False, mu_neutralized = True\<rparr>)"
proof -
  have none: "agrees_at None sample_session other_session"
    by (simp add: agrees_at_def sample_session_def other_session_def eligible_def)
  have input: "agrees_at (Some ''/input'') sample_session other_session"
    by (simp add: agrees_at_def sample_session_def other_session_def eligible_def
        pointer_tail_matches_def pointer_segments_def)
  have "\<forall>ts str. nav (JObj [(''input'', JStr ''<REDACTED>'')]) ts = Some (JStr str) \<longrightarrow>
      agrees_at (Some (render_pointer ts)) sample_session other_session"
    using input by (auto elim!: nav_JObjD split: if_splits simp: escape_token_Cons)
  from response_secrets_in_place [OF none sample_echo_inspected this] show ?thesis by blast
qed

lemma response_value_inspected_witness:
  "\<exists>x \<in> set (json_texts sample_echo). ''<REDACTED>'' = fst (restore_at sample_session
     (redact_permanent Context_Dlp.sample_ext Context_Dlp.sample_engine x) (Some ''/input''))"
  using response_value_inspected [OF sample_echo_inspected, THEN conjunct2, rule_format, of "[''input'']"]
  by (simp add: child_def escape_token_Cons)

end
