(* ===== verification/Server.thy ===== *)
theory Server
  imports Proxy Router Rate_Limit Extract Normalizer
begin

section \<open>The egress pipeline (src/server.rs)\<close>

text \<open>
  The request handler of the proxy: transport hygiene, rate limit, scan and redaction of
  every extracted string, the obfuscation probe, model routing, and the hand-over to
  \<open>forward_request\<close>.  The state of the server is explicit: the rate limiter and the audit
  queue change, the rest is fixed at start.  \<open>prepare\<close> is the handler up to the call of
  \<open>forward_request\<close>: it gives the response of an early return, or the options of that
  call.  Clocks, the nonce of the redaction session and the time stamp of an audit event are
  fields of the incoming request; console output is left out.
\<close>

subsection \<open>State\<close>

record server_ext =
  sx_proxy :: proxy_ext
  sx_norm :: norm_ext
  sx_upper :: "string \<Rightarrow> string"
  sx_from_slice :: "string \<Rightarrow> json option"

record app_state =
  as_secrets :: secret_broker
  as_engine :: dlp_engine
  as_action :: dlp_action
  as_limiter :: "string limiter option"
  as_default_upstream :: string
  as_routes :: "(string \<times> route_config) list"
  as_audit :: "json list option"
  as_slb :: "load_balancer_config option"
  as_allow_non_json :: bool

record incoming =
  in_ip :: string
  in_method :: string
  in_path :: string
  in_headers :: header_map
  in_body :: string
  in_now0 :: nat
  in_now :: nat
  in_now' :: nat
  in_nonce :: string
  in_ts :: string

definition log_security_event :: "(string \<times> json) list \<Rightarrow> json list option \<Rightarrow> json list option" where
  "log_security_event event chain = map_option (\<lambda>q. q @ [json_obj event]) chain"

definition lower_of :: "server_ext \<Rightarrow> string \<Rightarrow> string" where
  "lower_of S = ext_lower (px_dlp (sx_proxy S))"

subsection \<open>Fixed responses and the path check\<close>

definition health_handler :: "nat \<times> string" where
  "health_handler = (200, ''OK'' @ [LF])"

definition block_response :: "server_ext \<Rightarrow> string \<Rightarrow> string \<Rightarrow> string \<Rightarrow> http_response" where
  "block_response S category detail message =
     \<lparr>hr_status = 403, hr_headers = CONTENT_TYPE_JSON,
      hr_body = px_print (sx_proxy S) (json_obj
        [(''error'', JStr ''policy_violation''), (''category'', JStr category),
         (''details'', JStr detail), (''message'', JStr message)]) @ [LF]\<rparr>"

definition proxy_error_response :: "server_ext \<Rightarrow> http_response" where
  "proxy_error_response S =
     \<lparr>hr_status = 500, hr_headers = CONTENT_TYPE_JSON,
      hr_body = px_print (sx_proxy S) (json_obj
        [(''error'', JStr ''proxy_internal_error''),
         (''message'', JStr ''Internal proxy failure'')]) @ [LF]\<rparr>"

definition RATE_LIMITED :: http_response where
  "RATE_LIMITED = \<lparr>hr_status = 429, hr_headers = CONTENT_TYPE_JSON,
     hr_body = ''{'' @ [CHR 0x22] @ ''error'' @ [CHR 0x22] @ '': '' @ [CHR 0x22] @
       ''rate_limit_exceeded'' @ [CHR 0x22] @ ''}'' @ [LF]\<rparr>"

definition contains_proxy_path_traversal :: "string \<Rightarrow> bool" where
  "contains_proxy_path_traversal path \<longleftrightarrow>
     (let lowercase = to_ascii_lowercase path in
      contains [CHR 0x00] path \<or> contains [CHR 0x5C] path \<or> contains ''//'' path \<or>
      list_ex (\<lambda>segment. segment = ''..'') (split_on (CHR ''/'') path) \<or>
      contains ''%2e%2e'' lowercase \<or> contains ''%2e%2f'' lowercase \<or> contains ''%2f%2e'' lowercase)"

subsection \<open>The DLP loop\<close>

record scan_state =
  sc_body :: json
  sc_session :: Session.session
  sc_content :: string
  sc_audit :: "json list option"

text \<open>One scan target: the response of an early return, if any, and the new state.\<close>

definition scan_target_step ::
  "server_ext \<Rightarrow> app_state \<Rightarrow> string \<Rightarrow> string \<Rightarrow> scan_target \<Rightarrow> scan_state \<Rightarrow> http_response option \<times> scan_state"
  where
  "scan_target_step S st ts path target sc =
     (let X = px_dlp (sx_proxy S); engine = as_engine st; content_text = raw target in
      if content_text = [] then (None, sc)
      else
        (let sc1 = sc\<lparr>sc_content := sc_content sc @ content_text @ '' ''\<rparr> in
         case (if as_action st = Block then check_violations X engine content_text else None) of
           Some leak \<Rightarrow>
             (Some (block_response S (vio_category leak) ''dlp_violation''
                (''Access Denied: '' @ vio_description leak)),
              sc1\<lparr>sc_audit := log_security_event
                [(''timestamp'', JStr ts), (''event'', JStr ''dlp_blocked''), (''path'', JStr path),
                 (''category'', JStr (vio_category leak)),
                 (''description'', JStr (vio_description leak))] (sc_audit sc1)\<rparr>)
         | None \<Rightarrow>
             (let (cleaned, session') =
                    redact_at X (sc_session sc1) content_text engine (Some (json_pointer target));
                  sc2 = sc1\<lparr>sc_session := session'\<rparr>;
                  redacted = cleaned \<noteq> content_text;
                  sc3 = (if redacted then sc2\<lparr>sc_audit := log_security_event
                      [(''timestamp'', JStr ts), (''event'', JStr ''data_redacted''),
                       (''path'', JStr path)] (sc_audit sc2)\<rparr> else sc2);
                  (applied, body') =
                    (if redacted then replace_scan_target (sc_body sc3) target cleaned
                     else (True, sc_body sc3));
                  sc4 = sc3\<lparr>sc_body := body'\<rparr>
              in if \<not> applied
                 then (Some (block_response S ''security_policy'' ''redaction_failed''
                        ''Access Denied: sensitive data could not be safely redacted''), sc4)
                 else (case (if block_on_obfuscated (eng_config engine)
                             then check_violations X engine (normalize_for_matching (sx_norm S) cleaned)
                             else None) of
                     Some leak \<Rightarrow>
                       (Some (block_response S (vio_category leak) ''obfuscated_sensitive_data''
                          ''Access Denied: sensitive data must not be obfuscated to evade redaction''),
                        sc4\<lparr>sc_audit := log_security_event
                          [(''timestamp'', JStr ts), (''event'', JStr ''dlp_obfuscated_blocked''),
                           (''path'', JStr path), (''category'', JStr (vio_category leak)),
                           (''description'', JStr (vio_description leak))] (sc_audit sc4)\<rparr>)
                   | None \<Rightarrow> (None, sc4)))))"

fun scan_loop ::
  "server_ext \<Rightarrow> app_state \<Rightarrow> string \<Rightarrow> string \<Rightarrow> scan_target list \<Rightarrow> scan_state \<Rightarrow> http_response option \<times> scan_state"
  where
  "scan_loop S st ts path [] sc = (None, sc)"
| "scan_loop S st ts path (target # targets) sc =
     (case scan_target_step S st ts path target sc of
        (Some response, sc') \<Rightarrow> (Some response, sc')
      | (None, sc') \<Rightarrow> scan_loop S st ts path targets sc')"

subsection \<open>The handler up to the forwarding\<close>

text \<open>The model field is rewritten only where there is one.\<close>

definition set_model :: "string option \<Rightarrow> json \<Rightarrow> json" where
  "set_model model body =
     (case model of
        None \<Rightarrow> body
      | Some m \<Rightarrow> if obj_get body ''model'' = None then body else set_child body ''model'' (JStr m))"

definition options_for ::
  "app_state \<Rightarrow> incoming \<Rightarrow> string \<Rightarrow> string \<Rightarrow> secret_ref option \<Rightarrow> string \<Rightarrow> Session.session \<Rightarrow> forward_options"
  where
  "options_for st req path url credential body redactions =
     \<lparr>fo_upstream_url = url, fo_credential = credential, fo_method = in_method req, fo_path = path,
      fo_headers = in_headers req, fo_body = body, fo_engine = as_engine st, fo_action = as_action st,
      fo_redactions = redactions\<rparr>"

text \<open>The load balancer, when it is on, overrides the target, the credential and the model.\<close>

definition balance ::
  "server_ext \<Rightarrow> app_state \<Rightarrow> scan_state \<Rightarrow> string \<Rightarrow> secret_ref option \<Rightarrow>
   string \<times> secret_ref option \<times> json" where
  "balance S st sc url credential =
     (case as_slb st of
        Some lb \<Rightarrow>
          if lb_enabled lb \<and> sc_content sc \<noteq> []
          then (let d = route (lower_of S) (sc_content sc) lb
                in (rd_upstream_url d, rd_credential d, set_model (rd_model d) (sc_body sc)))
          else (url, credential, sc_body sc)
      | None \<Rightarrow> (url, credential, sc_body sc))"

definition prepare_json ::
  "server_ext \<Rightarrow> incoming \<Rightarrow> string \<Rightarrow> json \<Rightarrow> app_state \<Rightarrow> (http_response + forward_options) \<times> app_state"
  where
  "prepare_json S req path json_body st =
     (let model_alias = (case Option.bind (obj_get json_body ''model'') as_str of
            Some m \<Rightarrow> m | None \<Rightarrow> ''default'');
          rt = map_of (as_routes st) model_alias;
          body0 = set_model (Option.bind rt rt_model) json_body;
          upstream_url = (case rt of Some r \<Rightarrow> rt_url r | None \<Rightarrow> as_default_upstream st);
          effective_credential = Option.bind rt rt_credential
      in case scan_loop S st (in_ts req) path (extract_scan_targets body0)
           \<lparr>sc_body = body0, sc_session = new_session (in_nonce req), sc_content = [],
            sc_audit = as_audit st\<rparr> of
           (Some response, sc) \<Rightarrow> (Inl response, st\<lparr>as_audit := sc_audit sc\<rparr>)
         | (None, sc) \<Rightarrow>
             (case balance S st sc upstream_url effective_credential of (url, credential, body) \<Rightarrow>
                (Inr (options_for st req path url credential (px_print (sx_proxy S) body) (sc_session sc)),
                 st\<lparr>as_audit := sc_audit sc\<rparr>)))"

definition prepare_other ::
  "server_ext \<Rightarrow> incoming \<Rightarrow> string \<Rightarrow> app_state \<Rightarrow> http_response + forward_options" where
  "prepare_other S req path st =
     (let X = px_dlp (sx_proxy S); engine = as_engine st in
      if \<not> as_allow_non_json st
      then Inl (block_response S ''security_policy'' ''non_json_not_allowed''
        ''Non-JSON requests are blocked by security policy. Please use application/json Content-Type.'')
      else if \<not> utf8_valid (in_body req)
      then Inl (block_response S ''security_policy'' ''non_json_not_utf8''
        ''Non-JSON request cannot be safely inspected as UTF-8'')
      else (case (if as_action st = Block then check_violations X engine (in_body req) else None) of
          Some leak \<Rightarrow> Inl (block_response S (vio_category leak) ''dlp_violation''
            (''Access Denied: '' @ vio_description leak))
        | None \<Rightarrow>
            (let (redacted_body, session) = redact X (new_session (in_nonce req)) (in_body req) engine
             in case (if block_on_obfuscated (eng_config engine)
                      then check_violations X engine (normalize_for_matching (sx_norm S) redacted_body)
                      else None) of
                  Some leak \<Rightarrow> Inl (block_response S (vio_category leak) ''obfuscated_sensitive_data''
                    ''Access Denied: sensitive data must not be obfuscated to evade redaction'')
                | None \<Rightarrow>
                    Inr (options_for st req path (as_default_upstream st) None redacted_body session))))"

definition rate_check :: "incoming \<Rightarrow> app_state \<Rightarrow> bool \<times> app_state" where
  "rate_check req st =
     (case as_limiter st of
        None \<Rightarrow> (True, st)
      | Some limiter \<Rightarrow>
          (case check (in_now0 req) (in_now req) (in_now' req) (in_ip req) limiter of
             (ok, limiter') \<Rightarrow> (ok, st\<lparr>as_limiter := Some limiter'\<rparr>)))"

definition prepare ::
  "server_ext \<Rightarrow> incoming \<Rightarrow> app_state \<Rightarrow> (http_response + forward_options) \<times> app_state" where
  "prepare S req st =
     (let path = ''/'' @ in_path req;
          header_result = check_request_headers (lower_of S) (sx_upper S) (in_headers req)
            (in_method req) default_smuggling_config;
          audit = (\<lambda>kvs st. st\<lparr>as_audit := log_security_event ((''timestamp'', JStr (in_ts req)) # kvs)
            (as_audit st)\<rparr>)
      in if hs_blocked header_result
         then (Inl (block_response S ''Security'' ''request_smuggling'' ''Malformed request headers detected''),
               audit [(''event'', JStr ''smuggling_blocked''),
                 (''reason'', JStr (case hs_reason header_result of
                    Some r \<Rightarrow> r | None \<Rightarrow> ''Unknown smuggling attempt''))] st)
         else if contains_proxy_path_traversal path
         then (Inl (block_response S ''Security'' ''path_traversal'' ''Invalid request path''),
               audit [(''event'', JStr ''path_traversal_blocked''), (''path'', JStr path)] st)
         else (case rate_check req st of
             (False, st1) \<Rightarrow>
               (Inl RATE_LIMITED,
                audit [(''event'', JStr ''rate_limited''), (''client_ip'', JStr (in_ip req))] st1)
           | (True, st1) \<Rightarrow>
               (case sx_from_slice S (in_body req) of
                  Some json_body \<Rightarrow> prepare_json S req path json_body st1
                | None \<Rightarrow> (prepare_other S req path st1, st1))))"

definition handler ::
  "server_ext \<Rightarrow> upstream \<Rightarrow> incoming \<Rightarrow> app_state \<Rightarrow> http_response \<times> app_state" where
  "handler S send req st =
     (case prepare S req st of
        (Inl response, st') \<Rightarrow> (response, st')
      | (Inr opts, st') \<Rightarrow>
          (case forward_request (sx_proxy S) (as_secrets st') send opts of
             Inl e \<Rightarrow> (proxy_error_response S, st')
           | Inr response \<Rightarrow> (response, st')))"

subsection \<open>The scan loop cleans every target\<close>

text \<open>
  \<open>passes_dlp\<close>: what the pipeline lets out for a text at a position.  It is the redaction of
  that text; in block mode the text passed detection, and with the obfuscation probe on the
  redacted text passes detection in its matching form.
\<close>

definition passes_dlp :: "server_ext \<Rightarrow> app_state \<Rightarrow> string option \<Rightarrow> string \<Rightarrow> string \<Rightarrow> bool" where
  "passes_dlp S st pointer x c \<longleftrightarrow>
     (\<exists>s. c = fst (redact_at (px_dlp (sx_proxy S)) s x (as_engine st) pointer)) \<and>
     (as_action st = Block \<longrightarrow> check_violations (px_dlp (sx_proxy S)) (as_engine st) x = None) \<and>
     (block_on_obfuscated (eng_config (as_engine st)) \<longrightarrow>
        check_violations (px_dlp (sx_proxy S)) (as_engine st)
          (normalize_for_matching (sx_norm S) c) = None)"

lemma scan_target_step_None:
  assumes "scan_target_step S st ts path t sc = (None, sc')" and "raw t \<noteq> []"
  obtains cleaned where "passes_dlp S st (Some (json_pointer t)) (raw t) cleaned"
    and "sc_body sc' = (if cleaned = raw t then sc_body sc
      else snd (replace_scan_target (sc_body sc) t cleaned))"
    and "sc_content sc' = sc_content sc @ raw t @ '' ''"
proof -
  let ?X = "px_dlp (sx_proxy S)" and ?e = "as_engine st"
  let ?r = "redact_at ?X (sc_session sc) (raw t) ?e (Some (json_pointer t))"
  from assms have block: "as_action st = Block \<longrightarrow> check_violations ?X ?e (raw t) = None"
    by (auto simp: scan_target_step_def Let_def split: option.splits if_splits)
  from assms have probe: "block_on_obfuscated (eng_config ?e) \<longrightarrow>
      check_violations ?X ?e (normalize_for_matching (sx_norm S) (fst ?r)) = None"
    by (auto simp: scan_target_step_def Let_def split: option.splits if_splits prod.splits)
  have "passes_dlp S st (Some (json_pointer t)) (raw t) (fst ?r)"
    unfolding passes_dlp_def using block probe by blast
  moreover have "sc_body sc' = (if fst ?r = raw t then sc_body sc
      else snd (replace_scan_target (sc_body sc) t (fst ?r)))"
    and "sc_content sc' = sc_content sc @ raw t @ '' ''"
    using assms by (auto simp: scan_target_step_def Let_def split: option.splits if_splits prod.splits)
  ultimately show ?thesis by (rule that)
qed

text \<open>
  The invariant of the loop over the body it started from: the string leaves are where they
  were, each is untouched or clean, and those of the targets done are clean.
\<close>

definition scan_inv :: "server_ext \<Rightarrow> app_state \<Rightarrow> json \<Rightarrow> scan_target set \<Rightarrow> json \<Rightarrow> bool" where
  "scan_inv S st body0 ready body \<longleftrightarrow>
     (\<forall>us. (\<exists>s. nav body0 us = Some (JStr s)) \<longleftrightarrow> (\<exists>c. nav body us = Some (JStr c))) \<and>
     (\<forall>us s c. nav body0 us = Some (JStr s) \<longrightarrow> nav body us = Some (JStr c) \<longrightarrow>
        c = s \<or> passes_dlp S st (Some (render_pointer us)) s c) \<and>
     (\<forall>us s c t. t \<in> ready \<longrightarrow> raw t \<noteq> [] \<longrightarrow> json_pointer t = render_pointer us \<longrightarrow>
        nav body0 us = Some (JStr s) \<longrightarrow> nav body us = Some (JStr c) \<longrightarrow>
        passes_dlp S st (Some (render_pointer us)) s c)"

lemma scan_inv_start: "scan_inv S st body {} body"
  by (simp add: scan_inv_def)

lemma replace_good_target:
  assumes "nav body ts = Some (JStr x)" and "json_pointer t = render_pointer ts"
  shows "replace_scan_target body t r = (True, nav_set body ts (JStr r))"
  using assms by (simp add: replace_scan_target_def pointer_get_render pointer_set_render
      is_string_def as_str_def)

lemma scan_inv_write:
  assumes inv: "scan_inv S st body0 ready body" and ts: "nav body ts = Some (JStr x)"
    and p: "json_pointer t = render_pointer ts" and orig: "nav body0 ts = Some (JStr s)"
    and ok: "passes_dlp S st (Some (render_pointer ts)) s r"
  shows "scan_inv S st body0 (insert t ready) (nav_set body ts (JStr r))"
proof -
  let ?b = "nav_set body ts (JStr r)"
  have same: "nav ?b ts = Some (JStr r)" using ts by (rule nav_nav_set_same)
  have other: "nav ?b us = Some (JStr c) \<longleftrightarrow> nav body us = Some (JStr c)" if "us \<noteq> ts" for us c
    using that nav_nav_set_leaf [OF ts] nav_nav_set_leaf_back [OF ts] by blast
  have at: "nav ?b us = Some (JStr c) \<longleftrightarrow> (if us = ts then c = r else nav body us = Some (JStr c))" for us c
    using same other by auto
  from inv show ?thesis
    using ok p orig unfolding scan_inv_def at by (auto simp: render_pointer_inj)
qed

lemma scan_inv_keep:
  assumes inv: "scan_inv S st body0 ready body" and ts: "nav body0 ts = Some (JStr (raw t))"
    and p: "json_pointer t = render_pointer ts"
    and ok: "passes_dlp S st (Some (render_pointer ts)) (raw t) (raw t)"
  shows "scan_inv S st body0 (insert t ready) body"
proof -
  have "passes_dlp S st (Some (render_pointer us)) s c"
    if "json_pointer t = render_pointer us" "nav body0 us = Some (JStr s)" "nav body us = Some (JStr c)"
    for us s c
  proof -
    from that(1,2) p ts have eq: "us = ts" "s = raw t" by (simp_all add: render_pointer_inj)
    with inv ts that(3) have "c = raw t \<or> passes_dlp S st (Some (render_pointer us)) s c"
      unfolding scan_inv_def by blast
    with ok eq show ?thesis by blast
  qed
  with inv show ?thesis unfolding scan_inv_def by blast
qed

lemma scan_inv_step:
  assumes inv: "scan_inv S st body0 ready (sc_body sc)" and good: "good_target body0 t"
    and step: "scan_target_step S st ts path t sc = (None, sc')"
  shows "scan_inv S st body0 (insert t ready) (sc_body sc')"
proof (cases "raw t = []")
  case True
  with step have "sc' = sc" by (simp add: scan_target_step_def Let_def)
  with inv True show ?thesis unfolding scan_inv_def by blast
next
  case False
  from good obtain us where p: "json_pointer t = render_pointer us"
    and us: "nav body0 us = Some (JStr (raw t))" by (auto simp: good_target_def)
  from scan_target_step_None [OF step False] obtain cleaned
    where ok: "passes_dlp S st (Some (json_pointer t)) (raw t) cleaned"
      and body: "sc_body sc' = (if cleaned = raw t then sc_body sc
        else snd (replace_scan_target (sc_body sc) t cleaned))" by blast
  from inv us obtain x where x: "nav (sc_body sc) us = Some (JStr x)" unfolding scan_inv_def by blast
  show ?thesis
  proof (cases "cleaned = raw t")
    case True
    with body ok p scan_inv_keep [OF inv us p] show ?thesis by simp
  next
    case False
    with body have "sc_body sc' = nav_set (sc_body sc) us (JStr cleaned)"
      by (simp add: replace_good_target [OF x p])
    with scan_inv_write [OF inv x p us] ok p show ?thesis by simp
  qed
qed

lemma scan_inv_loop:
  "scan_inv S st body0 ready (sc_body sc) \<Longrightarrow> \<forall>t \<in> set targets. good_target body0 t \<Longrightarrow>
   scan_loop S st ts path targets sc = (None, sc') \<Longrightarrow>
   scan_inv S st body0 (ready \<union> set targets) (sc_body sc')"
proof (induction targets arbitrary: ready sc)
  case (Cons t targets)
  from Cons.prems(3) obtain sc1 where step: "scan_target_step S st ts path t sc = (None, sc1)"
    and rest: "scan_loop S st ts path targets sc1 = (None, sc')"
    by (auto split: prod.splits option.splits)
  have "scan_inv S st body0 (insert t ready) (sc_body sc1)"
    by (rule scan_inv_step [OF Cons.prems(1) _ step]) (use Cons.prems(2) in simp)
  from Cons.IH [OF this _ rest] Cons.prems(2) show ?case by (simp add: Un_commute)
qed simp

subsection \<open>What leaves\<close>

lemma set_model_wf: "json_wf body \<Longrightarrow> json_wf (set_model m body)"
  by (simp add: set_model_def set_child_wf split: option.splits)

lemma set_model_leaf:
  assumes "nav (set_model m body) ts = Some (JStr c)"
  shows "ts = [''model''] \<or> nav body ts = Some (JStr c)"
proof (cases "\<exists>w x. m = Some w \<and> obj_get body ''model'' = Some x")
  case True
  then obtain w x kvs where m: "m = Some w" and body: "body = JObj kvs" "map_of kvs ''model'' = Some x"
    by (auto simp: obj_get_def split: json.splits)
  then have eq: "set_model m body = set_child body ''model'' (JStr w)"
    by (simp add: set_model_def obj_get_def)
  have ch: "child body ''model'' = Some x" using body by (simp add: child_def)
  show ?thesis
  proof (cases ts)
    case Nil
    with assms eq body show ?thesis by (simp add: set_child_def)
  next
    case (Cons t ts')
    then show ?thesis using assms
      by (cases "t = ''model''") (auto simp: eq child_set_child_same [OF ch] child_set_child_other)
  qed
qed (use assms in \<open>auto simp: set_model_def split: option.splits if_splits\<close>)

lemma model_structural: "is_structural_pointer (render_pointer [''model''])"
  by (simp add: is_structural_pointer_def STRUCTURAL_KEYS_def escape_token_Cons)

lemma passes_dlp_cong:
  "as_engine st = as_engine st' \<Longrightarrow> as_action st = as_action st' \<Longrightarrow>
   passes_dlp S st p x c = passes_dlp S st' p x c"
  by (simp add: passes_dlp_def)

lemma rate_check_frame:
  "rate_check req st = (ok, st') \<Longrightarrow> st'\<lparr>as_limiter := as_limiter st\<rparr> = st"
  by (auto simp: rate_check_def split: option.splits prod.splits)

lemma rate_check_same:
  assumes "rate_check req st = (ok, st')"
  shows "as_engine st' = as_engine st" "as_action st' = as_action st"
    "as_default_upstream st' = as_default_upstream st" "as_routes st' = as_routes st"
    "as_slb st' = as_slb st" "as_allow_non_json st' = as_allow_non_json st"
    "as_secrets st' = as_secrets st"
  using arg_cong [OF rate_check_frame [OF assms], of as_engine]
    arg_cong [OF rate_check_frame [OF assms], of as_action]
    arg_cong [OF rate_check_frame [OF assms], of as_default_upstream]
    arg_cong [OF rate_check_frame [OF assms], of as_routes]
    arg_cong [OF rate_check_frame [OF assms], of as_slb]
    arg_cong [OF rate_check_frame [OF assms], of as_allow_non_json]
    arg_cong [OF rate_check_frame [OF assms], of as_secrets]
  by simp_all

text \<open>How a prepared request came about.\<close>

lemma prepare_InrE:
  assumes "prepare S req st = (Inr opts, st')"
  obtains st1 where "rate_check req st = (True, st1)"
    and "\<not> hs_blocked (check_request_headers (lower_of S) (sx_upper S) (in_headers req)
      (in_method req) default_smuggling_config)"
    and "\<not> contains_proxy_path_traversal (''/'' @ in_path req)"
    and "case sx_from_slice S (in_body req) of
        Some v \<Rightarrow> prepare_json S req (''/'' @ in_path req) v st1 = (Inr opts, st')
      | None \<Rightarrow> prepare_other S req (''/'' @ in_path req) st1 = Inr opts \<and> st' = st1"
  using assms by (auto simp: prepare_def Let_def split: if_splits prod.splits bool.splits option.splits)

text \<open>The configured targets, each a URL with the credential that goes with it.\<close>

definition configured_targets :: "app_state \<Rightarrow> (string \<times> secret_ref option) set" where
  "configured_targets st =
     insert (as_default_upstream st, None)
       ((\<lambda>r. (rt_url r, rt_credential r)) ` snd ` set (as_routes st) \<union>
        (case as_slb st of
           None \<Rightarrow> {}
         | Some lb \<Rightarrow> (\<lambda>t. (tier_url t, tier_credential t)) ` {lb_fast_tier lb, lb_smart_tier lb}))"

lemma prepare_jsonE:
  assumes "prepare_json S req path v st = (Inr opts, st')"
  obtains rt :: "route_config option" and body0 sc m where "body0 = set_model (Option.bind rt rt_model) v"
    and "scan_loop S st (in_ts req) path (extract_scan_targets body0)
       \<lparr>sc_body = body0, sc_session = new_session (in_nonce req), sc_content = [],
        sc_audit = as_audit st\<rparr> = (None, sc)"
    and "fo_body opts = px_print (sx_proxy S) (set_model m (sc_body sc))"
    and "(fo_upstream_url opts, fo_credential opts) \<in> configured_targets st"
    and "fo_headers opts = in_headers req" and "fo_path opts = path"
    and "fo_redactions opts = sc_session sc"
proof -
  define rt where "rt = map_of (as_routes st)
    (case Option.bind (obj_get v ''model'') as_str of Some m \<Rightarrow> m | None \<Rightarrow> ''default'')"
  define body0 where "body0 = set_model (Option.bind rt rt_model) v"
  define url where "url = (case rt of Some r \<Rightarrow> rt_url r | None \<Rightarrow> as_default_upstream st)"
  define start where "start = \<lparr>sc_body = body0, sc_session = new_session (in_nonce req),
    sc_content = [], sc_audit = as_audit st\<rparr>"
  have eq: "prepare_json S req path v st =
      (case scan_loop S st (in_ts req) path (extract_scan_targets body0) start of
         (Some response, sc) \<Rightarrow> (Inl response, st\<lparr>as_audit := sc_audit sc\<rparr>)
       | (None, sc) \<Rightarrow>
           (case balance S st sc url (Option.bind rt rt_credential) of (url, credential, body) \<Rightarrow>
              (Inr (options_for st req path url credential (px_print (sx_proxy S) body) (sc_session sc)),
               st\<lparr>as_audit := sc_audit sc\<rparr>)))"
    unfolding prepare_json_def Let_def rt_def body0_def start_def url_def ..
  from assms obtain sc u c body where loop:
      "scan_loop S st (in_ts req) path (extract_scan_targets body0) start = (None, sc)"
    and bal: "balance S st sc url (Option.bind rt rt_credential) = (u, c, body)"
    and opts: "opts = options_for st req path u c (px_print (sx_proxy S) body) (sc_session sc)"
    unfolding eq by (auto split: prod.splits option.splits)
  have "(url, Option.bind rt rt_credential) \<in> configured_targets st"
    by (cases rt) (auto simp: url_def rt_def configured_targets_def dest!: map_of_SomeD intro!: image_eqI)
  then have target: "(u, c) \<in> configured_targets st"
    using bal by (auto simp: balance_def configured_targets_def route_def decision_def Let_def
        split: option.splits if_splits)
  have "\<exists>m. body = set_model m (sc_body sc)"
    using bal by (auto simp: balance_def Let_def set_model_def [of None]
        split: option.splits if_splits intro: exI [of _ None])
  then obtain m where "body = set_model m (sc_body sc)" ..
  with opts show ?thesis
    by (intro that [OF body0_def loop [unfolded start_def]]) (simp_all add: options_for_def target)
qed

lemma prepare_otherD:
  assumes "prepare_other S req path st = Inr opts"
  shows "as_allow_non_json st \<and> passes_dlp S st None (in_body req) (fo_body opts) \<and>
    fo_upstream_url opts = as_default_upstream st \<and> fo_credential opts = None"
proof -
  let ?X = "px_dlp (sx_proxy S)" and ?e = "as_engine st"
  let ?r = "redact ?X (new_session (in_nonce req)) (in_body req) ?e"
  from assms have body: "fo_body opts = fst ?r"
    and rest: "as_allow_non_json st" "fo_upstream_url opts = as_default_upstream st"
      "fo_credential opts = None"
    by (auto simp: prepare_other_def Let_def options_for_def split: if_splits option.splits prod.splits)
  from assms have "as_action st = Block \<longrightarrow> check_violations ?X ?e (in_body req) = None"
    by (auto simp: prepare_other_def Let_def split: if_splits option.splits)
  moreover from assms have "block_on_obfuscated (eng_config ?e) \<longrightarrow>
      check_violations ?X ?e (normalize_for_matching (sx_norm S) (fst ?r)) = None"
    by (auto simp: prepare_other_def Let_def split: if_splits option.splits prod.splits)
  ultimately show ?thesis using body rest unfolding passes_dlp_def redact_def by auto
qed

text \<open>\<open>scanned S st v ts c\<close>: how a string of the forwarded value comes from the body received.\<close>

definition scanned :: "server_ext \<Rightarrow> app_state \<Rightarrow> json \<Rightarrow> string list \<Rightarrow> string \<Rightarrow> bool" where
  "scanned S st v ts c \<longleftrightarrow> ts = [''model''] \<or>
     (\<exists>x. nav v ts = Some (JStr x) \<and>
       (passes_dlp S st (Some (render_pointer ts)) x c \<or>
        c = x \<and> (length x < 8 \<or> is_structural_pointer (render_pointer ts))))"

lemma prepare_json_leaves:
  assumes "prepare_json S req path v st = (Inr opts, st')" and "json_wf v"
  shows "\<exists>v'. fo_body opts = px_print (sx_proxy S) v' \<and>
    (\<forall>ts c. nav v' ts = Some (JStr c) \<longrightarrow> scanned S st v ts c)"
proof -
  from prepare_jsonE [OF assms(1)] obtain rt :: "route_config option" and body0 sc m
    where body0: "body0 = set_model (Option.bind rt rt_model) v"
      and loop: "scan_loop S st (in_ts req) path (extract_scan_targets body0)
         \<lparr>sc_body = body0, sc_session = new_session (in_nonce req), sc_content = [],
          sc_audit = as_audit st\<rparr> = (None, sc)"
      and out: "fo_body opts = px_print (sx_proxy S) (set_model m (sc_body sc))"
    by metis
  have wf: "json_wf body0" using assms(2) by (simp add: body0 set_model_wf)
  have inv: "scan_inv S st body0 (set (extract_scan_targets body0)) (sc_body sc)"
    using scan_inv_loop [OF _ _ loop, of body0 "{}"] scan_inv_start extract_scan_targets_good [OF wf]
    by simp
  have "scanned S st v ts c" if c: "nav (set_model m (sc_body sc)) ts = Some (JStr c)" for ts c
  proof (cases "ts = [''model'']")
    case False
    with set_model_leaf [OF c] have leaf: "nav (sc_body sc) ts = Some (JStr c)" by blast
    with inv obtain x where x: "nav body0 ts = Some (JStr x)" unfolding scan_inv_def by blast
    with False set_model_leaf [of _ v ts x] have v: "nav v ts = Some (JStr x)" unfolding body0 by blast
    from inv x leaf have two: "c = x \<or> passes_dlp S st (Some (render_pointer ts)) x c"
      unfolding scan_inv_def by blast
    show ?thesis
    proof (cases "length x < 8 \<or> is_structural_pointer (render_pointer ts)")
      case True
      with two v show ?thesis unfolding scanned_def by blast
    next
      case False
      with extract_scan_targets_covers [OF wf x] obtain t
        where t: "t \<in> set (extract_scan_targets body0)" "json_pointer t = render_pointer ts" "raw t = x"
        by force
      with False have "raw t \<noteq> []" by auto
      with t inv x leaf have "passes_dlp S st (Some (render_pointer ts)) x c"
        unfolding scan_inv_def by blast
      with v show ?thesis unfolding scanned_def by blast
    qed
  qed (simp add: scanned_def)
  with out show ?thesis by blast
qed

text \<open>
  C1 Nothing leaves unscanned.  When the handler hands a request over for forwarding, its
  headers passed the smuggling check, its path the traversal check, and the rate limiter
  granted it.  A JSON body that is sent is the print of a value in which every string, at
  whatever depth, is the model name, or comes from the string the client put at the very same
  position: that string unchanged when it is shorter than eight bytes or stands under a
  structural key, and otherwise its redaction, which in block mode had nothing to redact and
  with the obfuscation probe on passes detection in its matching form.  A body that is not
  JSON is sent only when the configuration allows it; then the whole body passes the DLP.
\<close>

theorem egress_scanned:
  assumes "prepare S req st = (Inr opts, st')" and "sx_from_slice S (in_body req) = Some v \<Longrightarrow> json_wf v"
  shows "\<not> hs_blocked (check_request_headers (lower_of S) (sx_upper S) (in_headers req)
      (in_method req) default_smuggling_config) \<and>
    \<not> contains_proxy_path_traversal (''/'' @ in_path req) \<and> fst (rate_check req st) \<and>
    (sx_from_slice S (in_body req) = Some v \<longrightarrow> (\<exists>v'. fo_body opts = px_print (sx_proxy S) v' \<and>
       (\<forall>ts c. nav v' ts = Some (JStr c) \<longrightarrow> scanned S st v ts c))) \<and>
    (sx_from_slice S (in_body req) = None \<longrightarrow>
       as_allow_non_json st \<and> passes_dlp S st None (in_body req) (fo_body opts))"
proof -
  from assms(1) obtain st1 where rate: "rate_check req st = (True, st1)"
    and ok: "\<not> hs_blocked (check_request_headers (lower_of S) (sx_upper S) (in_headers req)
        (in_method req) default_smuggling_config)" "\<not> contains_proxy_path_traversal (''/'' @ in_path req)"
    and body: "case sx_from_slice S (in_body req) of
        Some v \<Rightarrow> prepare_json S req (''/'' @ in_path req) v st1 = (Inr opts, st')
      | None \<Rightarrow> prepare_other S req (''/'' @ in_path req) st1 = Inr opts \<and> st' = st1"
    by (rule prepare_InrE)
  have same: "passes_dlp S st1 p x c = passes_dlp S st p x c" for p x c
    by (rule passes_dlp_cong) (simp_all add: rate_check_same [OF rate])
  have same': "scanned S st1 = scanned S st" by (intro ext) (simp add: scanned_def same)
  show ?thesis
    using ok rate body assms(2) prepare_json_leaves [of S req "''/'' @ in_path req" v st1 opts st']
      prepare_otherD [of S req "''/'' @ in_path req" st1 opts] rate_check_same(6) [OF rate]
    by (auto simp: same same')
qed

lemma prepare_target:
  assumes "prepare S req st = (Inr opts, st')"
  shows "(fo_upstream_url opts, fo_credential opts) \<in> configured_targets st"
proof -
  from assms obtain st1 where rate: "rate_check req st = (True, st1)"
    and body: "case sx_from_slice S (in_body req) of
        Some v \<Rightarrow> prepare_json S req (''/'' @ in_path req) v st1 = (Inr opts, st')
      | None \<Rightarrow> prepare_other S req (''/'' @ in_path req) st1 = Inr opts \<and> st' = st1"
    by (rule prepare_InrE)
  have same: "configured_targets st1 = configured_targets st"
    by (simp add: configured_targets_def rate_check_same [OF rate])
  show ?thesis
  proof (cases "sx_from_slice S (in_body req)")
    case None
    with body have "prepare_other S req (''/'' @ in_path req) st1 = Inr opts" by simp
    from prepare_otherD [OF this] show ?thesis
      by (simp add: configured_targets_def rate_check_same [OF rate])
  next
    case (Some v)
    with body have "prepare_json S req (''/'' @ in_path req) v st1 = (Inr opts, st')" by simp
    then have "(fo_upstream_url opts, fo_credential opts) \<in> configured_targets st1"
      by (rule prepare_jsonE)
    then show ?thesis by (simp add: same)
  qed
qed

lemma prepare_secrets:
  assumes "prepare S req st = (out, st')"
  shows "as_secrets st' = as_secrets st"
proof -
  obtain ok st1 where rate: "rate_check req st = (ok, st1)" by (cases "rate_check req st")
  have json: "as_secrets (snd (prepare_json S req p v st1)) = as_secrets st1" for p v
    by (simp add: prepare_json_def Let_def split: prod.splits option.splits)
  have "as_secrets (snd (prepare S req st)) = as_secrets st"
    using rate_check_same(7) [OF rate] json
    by (auto simp: prepare_def Let_def rate split: option.splits bool.splits)
  with assms show ?thesis by simp
qed

text \<open>The authorization a configured credential stands for.\<close>

definition bearer_values :: "proxy_ext \<Rightarrow> secret_broker \<Rightarrow> secret_ref option \<Rightarrow> string list" where
  "bearer_values P secrets credential =
     (case credential of
        None \<Rightarrow> []
      | Some reference \<Rightarrow>
          (case resolve secrets reference of
             Inl e \<Rightarrow> []
           | Inr secret \<Rightarrow> (case build_bearer_header P secret of Inl e \<Rightarrow> [] | Inr h \<Rightarrow> [h])))"


subsection \<open>Witnesses\<close>

definition sample_credential :: secret_ref where
  "sample_credential = \<lparr>ref_backend = ''env'', ref_path = ''KEY'', ref_field = None\<rparr>"

definition sample_route :: route_config where
  "sample_route = \<lparr>rt_url = ''https://u/v1'', rt_model = None, rt_credential = Some sample_credential,
     rt_legacy_key_env = None\<rparr>"

definition sample_state :: app_state where
  "sample_state = \<lparr>as_secrets = \<lparr>backends = [(''env'', \<lambda>r. Inr ''tok'')]\<rparr>,
     as_engine = Session.sample_engine, as_action = Redact, as_limiter = None,
     as_default_upstream = ''http://l'', as_routes = [(''gpt'', sample_route)], as_audit = Some [],
     as_slb = None, as_allow_non_json = False\<rparr>"

definition sample_json :: json where
  "sample_json = JObj [(''input'', JStr ''key AKIA''), (''model'', JStr ''gpt'')]"

definition sample_server :: server_ext where
  "sample_server = \<lparr>sx_proxy = \<lparr>px_dlp = Session.sample_ext, px_parse = wire_parse, px_print = wire_print,
     px_url = (\<lambda>u. Some sample_url), px_header_name = (\<lambda>n. True), px_header_value = (\<lambda>v. True)\<rparr>,
     sx_norm = sample_norm, sx_upper = (\<lambda>s. s), sx_from_slice = (\<lambda>s. Some sample_json)\<rparr>"

definition sample_incoming :: incoming where
  "sample_incoming = \<lparr>in_ip = ''ip'', in_method = ''POST'', in_path = ''v1/x'',
     in_headers = [(''authorization'', ''mine''), (''host'', ''h'')], in_body = [],
     in_now0 = 0, in_now = 0, in_now' = 0, in_nonce = ''n'', in_ts = ''t''\<rparr>"

definition sample_token :: string where
  "sample_token = ''key [[GUARDIAN_REDACTED:n:0:key]]''"

definition sample_values :: "redacted_value list" where
  "sample_values = [\<lparr>rv_token = ''[[GUARDIAN_REDACTED:n:0:key]]'', rv_secret = ''AKIA'',
     rv_pointer = Some ''/input''\<rparr>]"

definition sample_options :: forward_options where
  "sample_options = options_for sample_state sample_incoming ''/v1/x'' ''https://u/v1''
     (Some sample_credential)
     (wire_print (JObj [(''input'', JStr sample_token), (''model'', JStr ''gpt'')]))
     \<lparr>s_nonce = ''n'', s_values = sample_values\<rparr>"

lemma sample_probe:
  "check_violations Session.sample_ext Session.sample_engine
     (normalize_for_matching sample_norm sample_token) = None"
proof -
  have "normalize_for_matching sample_norm sample_token = sample_token"
    by (simp add: normalize_for_matching_def sample_norm_def sample_token_def fold_chars_ascii
        MAX_DECODE_BYTES_def decode_plain contains_html_entity_def)
  moreover have "needle_matches ''zz'' 0 sample_token = []"
    by (rule needle_matches_absent) (simp_all add: sample_token_def)
  moreover have "needle_matches ''AKIA'' 0 sample_token = []"
    by (simp add: sample_token_def)
  ultimately show ?thesis
    by (simp add: check_violations_None_parts needle_engine_def rule_triggers_def is_match_def
        ssn_re_def email_re_def cc_re_def phone_re_def ipv4_re_def needle_ext_def
        contains_valid_card_def)
qed

lemma sample_prepared:
  "\<exists>st'. prepare sample_server sample_incoming sample_state = (Inr sample_options, st') \<and>
     as_secrets st' = as_secrets sample_state"
proof -
  let ?t = "\<lparr>json_pointer = ''/input'', target_role = None, kind = Input, raw = ''key AKIA''\<rparr>"
  have targets: "extract_scan_targets sample_json = [?t]"
    unfolding sample_json_def by code_simp
  have replaced: "replace_scan_target sample_json ?t sample_token =
      (True, JObj [(''input'', JStr sample_token), (''model'', JStr ''gpt'')])"
    unfolding sample_json_def sample_token_def by code_simp
  have redacted: "redact_at Session.sample_ext (new_session ''n'') ''key AKIA'' Session.sample_engine
      (Some ''/input'') = (sample_token, \<lparr>s_nonce = ''n'', s_values = sample_values\<rparr>)"
    by (simp add: sample_redaction sample_token_def sample_values_def)
  have changed: "sample_token \<noteq> ''key AKIA''" by (simp add: sample_token_def)
  have clean: "\<not> hs_blocked (check_request_headers to_ascii_lowercase (\<lambda>s. s)
      [(''authorization'', ''mine''), (''host'', ''h'')] ''POST'' default_smuggling_config)"
    by code_simp
  have path: "\<not> contains_proxy_path_traversal ''/v1/x''" by code_simp
  have model: "obj_get sample_json ''model'' = Some (JStr ''gpt'')"
    by (simp add: sample_json_def obj_get_def)
  show ?thesis
    using clean path
    by (simp add: prepare_def sample_server_def sample_incoming_def sample_state_def Let_def lower_of_def
        needle_ext_def rate_check_def prepare_json_def model as_str_def set_model_def sample_route_def
        targets scan_target_step_def redacted [unfolded needle_ext_def] changed replaced
        sample_probe [unfolded needle_ext_def] balance_def sample_options_def options_for_def
        log_security_event_def)
qed

lemma egress_scanned_witness:
  "\<exists>v'. fo_body sample_options = wire_print v' \<and>
     (\<forall>ts c. nav v' ts = Some (JStr c) \<longrightarrow> scanned sample_server sample_state sample_json ts c)"
proof -
  from sample_prepared obtain st' where
    run: "prepare sample_server sample_incoming sample_state = (Inr sample_options, st')" by blast
  have "json_wf sample_json" by (simp add: sample_json_def less_char_def)
  with egress_scanned [OF run, of sample_json] show ?thesis
    by (simp add: sample_server_def)
qed

definition sample_sent :: upstream_request where
  "sample_sent = \<lparr>up_method = ''POST'', up_url = ''https://u/v1/x'',
     up_headers = [(''authorization'', ''Bearer tok''), (''accept-encoding'', ''gzip, br'')],
     up_body = fo_body sample_options\<rparr>"

lemma sample_built:
  "build_upstream_request (sx_proxy sample_server) (as_secrets sample_state) sample_options = Inr sample_sent"
proof -
  have tok: "trim ''tok'' = ''tok''" by code_simp
  have "build_bearer_header (sx_proxy sample_server) ''tok'' = Inr ''Bearer tok''"
    by (simp add: build_bearer_header_def tok sample_server_def quoted_by_def starts_with_iff Let_def)
  moreover have "url_acceptable sample_url" by (simp add: url_acceptable_def sample_url_def)
  then have "build_target_url (sx_proxy sample_server) ''https://u/v1'' ''/v1/x'' = Inr ''https://u/v1/x''"
    by (simp add: build_target_url_def sample_server_def trim_end_slashes_def ends_with_def
        strip_suffix_def Let_def)
  ultimately show ?thesis
    by (simp add: build_upstream_request_def sample_options_def options_for_def sample_sent_def
        sample_credential_def sample_state_def resolve_def sample_incoming_def sanitize_headers_exact
        forwardable_header_def sample_server_def)
qed


end
