(* ===== verification/Integrity.thy ===== *)
theory Integrity
  imports Json_Codec "HOL-Library.AList"
begin

section \<open>Rule file integrity (src/security/integrity.rs)\<close>

text \<open>
  The signed manifest of a rules directory.  The directory is the list of its entries in the
  order the file system gives them, each a name and, when it can be read, its content.
  HMAC-SHA256, SHA-256 and hexadecimal printing are one function \<open>mac key content\<close>; the
  manifest's JSON text, the clock and the classification of file names (\<open>Path::extension\<close>)
  are parameters.  The signatures are a \<open>HashMap\<close>: an association list, whose order the
  verdict does not depend on.
\<close>

datatype integrity_error = IoError string | ManifestParseError string | FileNotFound string

fun integrity_error_text :: "integrity_error \<Rightarrow> string" where
  "integrity_error_text (IoError e) = ''IO error: '' @ e"
| "integrity_error_text (ManifestParseError e) = ''Manifest parse error: '' @ e"
| "integrity_error_text (FileNotFound p) = ''File not found: '' @ p"

record rule_manifest =
  mf_version :: string
  mf_created_at :: string
  mf_signatures :: "(string \<times> string) list"
  mf_key_id :: string

record failed_file =
  ff_path :: string
  ff_reason :: string

record rule_verification_result =
  rv_verified :: bool
  rv_failed_files :: "failed_file list"

type_synonym rules_dir = "(string \<times> string option) list"

record integrity_env =
  it_mac :: "string \<Rightarrow> string \<Rightarrow> string"
  it_derive :: "string \<Rightarrow> string"
  it_extension :: "string \<Rightarrow> string option"
  it_now :: string
  it_to_pretty :: "rule_manifest \<Rightarrow> string"
  it_from_str :: "string \<Rightarrow> string + rule_manifest"

definition MANIFEST :: string where "MANIFEST = ''.manifest.json''"

definition compute_file_hmac ::
  "integrity_env \<Rightarrow> rules_dir \<Rightarrow> string \<Rightarrow> string \<Rightarrow> integrity_error + string" where
  "compute_file_hmac I dir name key =
     (case map_of dir name of
        Some (Some content) \<Rightarrow> Inr (it_mac I key content)
      | _ \<Rightarrow> Inl (IoError name))"

definition verify_rule_file ::
  "integrity_env \<Rightarrow> rules_dir \<Rightarrow> string \<Rightarrow> string \<Rightarrow> string \<Rightarrow> integrity_error + bool" where
  "verify_rule_file I dir name expected key =
     (case compute_file_hmac I dir name key of Inl e \<Rightarrow> Inl e | Inr actual \<Rightarrow> Inr (actual = expected))"

definition load_manifest :: "integrity_env \<Rightarrow> rules_dir \<Rightarrow> integrity_error + rule_manifest" where
  "load_manifest I dir =
     (case map_of dir MANIFEST of
        None \<Rightarrow> Inl (FileNotFound MANIFEST)
      | Some None \<Rightarrow> Inl (IoError MANIFEST)
      | Some (Some content) \<Rightarrow>
          (case it_from_str I content of Inl e \<Rightarrow> Inl (ManifestParseError e) | Inr m \<Rightarrow> Inr m))"

text \<open>\<open>fs::write\<close>: the file is replaced, or added at the end of the directory.\<close>

definition save_manifest_file :: "integrity_env \<Rightarrow> rule_manifest \<Rightarrow> rules_dir \<Rightarrow> rules_dir" where
  "save_manifest_file I m dir = AList.update MANIFEST (Some (it_to_pretty I m)) dir"

definition is_rule_file :: "integrity_env \<Rightarrow> string \<Rightarrow> bool" where
  "is_rule_file I name \<longleftrightarrow> it_extension I name \<in> {Some ''json'', Some ''toml''} \<and> name \<noteq> MANIFEST"

fun sign_entries ::
  "integrity_env \<Rightarrow> rules_dir \<Rightarrow> string \<Rightarrow> string list \<Rightarrow> (string \<times> string) list \<Rightarrow>
   integrity_error + (string \<times> string) list" where
  "sign_entries I dir key [] signatures = Inr signatures"
| "sign_entries I dir key (name # names) signatures =
     (if is_rule_file I name
      then (case compute_file_hmac I dir name key of
          Inl e \<Rightarrow> Inl e
        | Inr hmac \<Rightarrow> sign_entries I dir key names (AList.update name hmac signatures))
      else sign_entries I dir key names signatures)"

definition generate_manifest :: "integrity_env \<Rightarrow> rules_dir \<Rightarrow> string \<Rightarrow> integrity_error + rule_manifest" where
  "generate_manifest I dir key =
     (case sign_entries I dir key (map fst dir) [] of
        Inl e \<Rightarrow> Inl e
      | Inr signatures \<Rightarrow> Inr \<lparr>mf_version = ''1.0'', mf_created_at = it_now I,
          mf_signatures = signatures, mf_key_id = ''default''\<rparr>)"

definition check_signature ::
  "integrity_env \<Rightarrow> rules_dir \<Rightarrow> string \<Rightarrow> string \<times> string \<Rightarrow> failed_file option" where
  "check_signature I dir key = (\<lambda>(filename, expected).
     if map_of dir filename = None then Some \<lparr>ff_path = filename, ff_reason = ''File not found''\<rparr>
     else (case verify_rule_file I dir filename expected key of
         Inr True \<Rightarrow> None
       | Inr False \<Rightarrow> Some \<lparr>ff_path = filename,
           ff_reason = ''HMAC mismatch - file may have been tampered with''\<rparr>
       | Inl e \<Rightarrow> Some \<lparr>ff_path = filename, ff_reason = ''Verification error: '' @ integrity_error_text e\<rparr>))"

definition verify_all_rules ::
  "integrity_env \<Rightarrow> rules_dir \<Rightarrow> rule_manifest \<Rightarrow> string \<Rightarrow> rule_verification_result" where
  "verify_all_rules I dir manifest key =
     (let failed_files = List.map_filter (check_signature I dir key) (mf_signatures manifest)
      in \<lparr>rv_verified = (failed_files = []), rv_failed_files = failed_files\<rparr>)"

record integrity_checker =
  ic_dir :: rules_dir
  ic_key :: string
  ic_manifest :: "rule_manifest option"

definition new_checker :: "integrity_env \<Rightarrow> rules_dir \<Rightarrow> string \<Rightarrow> integrity_checker" where
  "new_checker I dir hmac_key = \<lparr>ic_dir = dir, ic_key = it_derive I hmac_key,
     ic_manifest = (case load_manifest I dir of Inr m \<Rightarrow> Some m | Inl e \<Rightarrow> None)\<rparr>"

text \<open>The directory is read again when the checker verifies.\<close>

definition checker_verify :: "integrity_env \<Rightarrow> integrity_checker \<Rightarrow> rule_verification_result" where
  "checker_verify I c =
     (case ic_manifest c of
        Some manifest \<Rightarrow> verify_all_rules I (ic_dir c) manifest (ic_key c)
      | None \<Rightarrow> \<lparr>rv_verified = False, rv_failed_files =
          [\<lparr>ff_path = ''*'', ff_reason = ''No manifest file found - rules not verified''\<rparr>]\<rparr>)"

definition checker_save :: "integrity_env \<Rightarrow> integrity_checker \<Rightarrow> integrity_error + rules_dir" where
  "checker_save I c =
     (case generate_manifest I (ic_dir c) (ic_key c) of
        Inl e \<Rightarrow> Inl e
      | Inr manifest \<Rightarrow> Inr (save_manifest_file I manifest (ic_dir c)))"

subsection \<open>What a signature covers\<close>

lemma sign_entries_Inr:
  "sign_entries I dir key names sigs = Inr sigs' \<Longrightarrow> distinct (map fst sigs) \<Longrightarrow>
   distinct (map fst sigs') \<and>
   (\<forall>n \<in> set names. is_rule_file I n \<longrightarrow> (\<exists>c. map_of dir n = Some (Some c) \<and>
      map_of sigs' n = Some (it_mac I key c))) \<and>
   (\<forall>n. \<not> (n \<in> set names \<and> is_rule_file I n) \<longrightarrow> map_of sigs' n = map_of sigs n)"
proof (induction names arbitrary: sigs)
  case (Cons name names)
  show ?case
  proof (cases "is_rule_file I name")
    case True
    with Cons.prems(1) obtain c where c: "map_of dir name = Some (Some c)"
      and rest: "sign_entries I dir key names (AList.update name (it_mac I key c) sigs) = Inr sigs'"
      by (auto simp: compute_file_hmac_def split: option.splits)
    note ih = Cons.IH [OF rest distinct_update [OF Cons.prems(2)]]
    show ?thesis
    proof (intro conjI ballI allI impI)
      show "distinct (map fst sigs')" using ih by blast
      show "\<exists>c. map_of dir n = Some (Some c) \<and> map_of sigs' n = Some (it_mac I key c)"
        if "n \<in> set (name # names)" "is_rule_file I n" for n
      proof (cases "n \<in> set names")
        case False
        with that have "n = name" by simp
        moreover have "map_of sigs' n = map_of (AList.update name (it_mac I key c) sigs) n"
          using ih False by blast
        ultimately show ?thesis using c by (simp add: update_conv')
      qed (use ih that in blast)
      show "map_of sigs' n = map_of sigs n" if "\<not> (n \<in> set (name # names) \<and> is_rule_file I n)" for n
      proof -
        have "map_of sigs' n = map_of (AList.update name (it_mac I key c) sigs) n"
          using ih that by (metis list.set_intros(2))
        moreover have "n \<noteq> name" using that True by auto
        ultimately show ?thesis by (simp add: update_conv')
      qed
    qed
  next
    case False
    with Cons.prems(1) have rest: "sign_entries I dir key names sigs = Inr sigs'" by simp
    then have no: "n \<in> set (name # names) \<and> is_rule_file I n \<longleftrightarrow> n \<in> set names \<and> is_rule_file I n" for n
      using False by auto
    show ?thesis using Cons.IH [OF rest Cons.prems(2)] unfolding no using no by blast
  qed
qed simp

lemma check_signature_None:
  "check_signature I dir key (n, h) = None \<longleftrightarrow> (\<exists>c. map_of dir n = Some (Some c) \<and> it_mac I key c = h)"
proof (cases "map_of dir n")
  case (Some content)
  then show ?thesis
    by (cases content) (auto simp: check_signature_def verify_rule_file_def compute_file_hmac_def
        split: bool.splits)
qed (simp add: check_signature_def)

lemma verified_iff:
  assumes "distinct (map fst (mf_signatures m))"
  shows "rv_verified (verify_all_rules I dir m key) \<longleftrightarrow>
    (\<forall>n h. map_of (mf_signatures m) n = Some h \<longrightarrow>
       (\<exists>c. map_of dir n = Some (Some c) \<and> it_mac I key c = h))"
proof -
  have "rv_verified (verify_all_rules I dir m key) \<longleftrightarrow>
      (\<forall>x \<in> set (mf_signatures m). check_signature I dir key x = None)"
    by (auto simp: verify_all_rules_def Let_def List.map_filter_def filter_empty_conv)
  also have "\<dots> \<longleftrightarrow> (\<forall>n h. map_of (mf_signatures m) n = Some h \<longrightarrow> check_signature I dir key (n, h) = None)"
    using assms by (metis map_of_SomeD map_of_is_SomeI surj_pair)
  also have "\<dots> \<longleftrightarrow> (\<forall>n h. map_of (mf_signatures m) n = Some h \<longrightarrow>
       (\<exists>c. map_of dir n = Some (Some c) \<and> it_mac I key c = h))"
    by (simp add: check_signature_None)
  finally show ?thesis .
qed


text \<open>
  What it does not cover.  The manifest itself is not authenticated: with one that lists no
  file, whatever its key, every rules directory verifies.
\<close>

lemma empty_manifest_verifies:
  assumes "load_manifest I dir = Inr m" and "mf_signatures m = []"
  shows "rv_verified (checker_verify I (new_checker I dir hmac_key))"
  using assms by (simp add: checker_verify_def new_checker_def verify_all_rules_def List.map_filter_def)

text \<open>A toy environment with the assumed properties: the MAC is the key and the content.\<close>

definition manifest_json :: "rule_manifest \<Rightarrow> json" where
  "manifest_json m = JArr [JStr (mf_version m), JStr (mf_created_at m),
     JArr (map (\<lambda>(n, h). JArr [JStr n, JStr h]) (mf_signatures m)), JStr (mf_key_id m)]"

fun json_pair :: "json \<Rightarrow> string \<times> string" where
  "json_pair (JArr [JStr n, JStr h]) = (n, h)"
| "json_pair v = ([], [])"

fun json_manifest :: "json \<Rightarrow> rule_manifest" where
  "json_manifest (JArr [JStr v, JStr t, JArr sigs, JStr k]) =
     \<lparr>mf_version = v, mf_created_at = t, mf_signatures = map json_pair sigs, mf_key_id = k\<rparr>"
| "json_manifest v = \<lparr>mf_version = [], mf_created_at = [], mf_signatures = [], mf_key_id = []\<rparr>"

definition sample_integrity :: integrity_env where
  "sample_integrity = \<lparr>it_mac = (\<lambda>k c. k @ c), it_derive = (\<lambda>k. k),
     it_extension = (\<lambda>n. if n = ''a.toml'' then Some ''toml'' else None), it_now = ''now'',
     it_to_pretty = (\<lambda>m. wire_print (manifest_json m)),
     it_from_str = (\<lambda>t. map_sum id json_manifest (wire_parse t))\<rparr>"

lemma json_manifest_inverse: "json_manifest (manifest_json m) = m"
proof -
  have "map (json_pair \<circ> (\<lambda>(n, h). JArr [JStr n, JStr h])) sigs = sigs" for sigs
    by (induction sigs) auto
  then show ?thesis by (simp add: manifest_json_def)
qed


end
