(* ===== verification/Startup.thy ===== *)
theory Startup
  imports Server Integrity Vault Audit_Chain Broker_Ipc
begin

section \<open>Starting the two services (src/server.rs, src/broker/mod.rs, src/main.rs)\<close>

text \<open>
  How the components are put together: the settings of \<open>start\<close> from the command line and the
  configuration, the wired proxy (\<open>build_router\<close> of server.rs) and the broker daemon
  (\<open>run_daemon\<close>), both with the assembled secret broker.  The binary is the one with the
  default features, keychain and vault included.  The machine is the record \<open>startup_env\<close>;
  the rules directory is listed when its signatures are verified, after the rules were read.
\<close>

datatype env_var = VarPresent string | VarNotPresent | VarNotUnicode

record startup_env =
  su_paths :: path_env
  su_url :: "string \<Rightarrow> url_parts option"
  su_config_toml :: "string \<Rightarrow> string + file_config"
  su_rules_toml :: "string \<Rightarrow> string + raw_rule list"
  su_policy_toml :: "string \<Rightarrow> string + raw_policy"
  su_dlp :: dlp_ext
  su_read_rules :: "string \<Rightarrow> string option"
  su_rules_dir :: "string \<Rightarrow> rules_dir"
  su_integrity :: integrity_env
  su_hmac_var :: env_var
  su_getenv :: "string \<Rightarrow> string option"
  su_keyring :: keyring
  su_vault :: vault_env
  su_from_str :: "string \<Rightarrow> string + json"
  su_audit_file :: "string \<Rightarrow> file_read"
  su_policy :: policy_env
  su_files :: files
  su_show_policy_error :: "policy_error \<Rightarrow> string"
  su_secs :: "nat \<Rightarrow> nat"
  su_tokens :: "string \<times> string"
  su_ts :: string
  su_addr :: string

subsection \<open>Settings of the proxy\<close>

record start_options =
  st_bind :: "string option"
  st_port :: "16 word option"
  st_upstream :: "string option"
  st_local :: bool

record server_config =
  sv_bind_address :: string
  sv_port :: "16 word"
  sv_default_upstream :: string
  sv_routes :: "(string \<times> route_config) list"
  sv_audit_log_path :: "string option"
  sv_requests_per_minute :: "32 word option"
  sv_timeout_seconds :: nat
  sv_dlp_config :: dlp_config
  sv_load_balancer :: "load_balancer_config option"
  sv_security :: "security_config option"
  sv_vault :: "vault_config option"

definition OLLAMA_URL :: string where
  "OLLAMA_URL = ''http://127.0.0.1:11434/v1''"

definition option_or :: "'a option \<Rightarrow> 'a option \<Rightarrow> 'a option" where
  "option_or a b = (case a of Some x \<Rightarrow> Some x | None \<Rightarrow> b)"

definition unwrap_or :: "'a option \<Rightarrow> 'a \<Rightarrow> 'a" where
  "unwrap_or a d = (case a of Some x \<Rightarrow> x | None \<Rightarrow> d)"

definition start_config :: "start_options \<Rightarrow> file_config \<Rightarrow> server_config" where
  "start_config cli c =
     \<lparr>sv_bind_address = unwrap_or (option_or (st_bind cli)
        (Option.bind (cfg_server c) fs_bind_address)) ''127.0.0.1'',
      sv_port = unwrap_or (option_or (st_port cli) (Option.bind (cfg_server c) fs_port)) 8080,
      sv_default_upstream = (if st_local cli then OLLAMA_URL
        else unwrap_or (option_or (st_upstream cli)
          (Option.bind (cfg_server c) fs_default_upstream)) OLLAMA_URL),
      sv_routes = unwrap_or (cfg_routes c) [],
      sv_audit_log_path = Option.bind (cfg_security c) sec_audit_log_path,
      sv_requests_per_minute = Option.bind (cfg_server c) fs_requests_per_minute,
      sv_timeout_seconds = 300,
      sv_dlp_config = unwrap_or (Option.bind (cfg_security c) sec_dlp) default_dlp_config,
      sv_load_balancer = cfg_load_balancer c,
      sv_security = cfg_security c,
      sv_vault = cfg_vault c\<rparr>"

subsection \<open>The wired proxy\<close>

definition get_hmac_key :: "env_var \<Rightarrow> string + string option" where
  "get_hmac_key var =
     (case var of
        VarPresent key \<Rightarrow> if key \<noteq> [] then Inr (Some key) else Inl ''GUARDIAN_HMAC_KEY cannot be empty''
      | VarNotPresent \<Rightarrow> Inr None
      | VarNotUnicode \<Rightarrow> Inl ''GUARDIAN_HMAC_KEY is not valid Unicode'')"

text \<open>\<open>register\<close> followed by the question mark operator.\<close>

definition registered :: "string \<Rightarrow> resolver \<Rightarrow> secret_broker \<Rightarrow> string + secret_broker" where
  "registered scheme backend b =
     (case register scheme backend b of
        (Some e, b') \<Rightarrow> Inl (secret_error_text e) | (None, b') \<Rightarrow> Inr b')"

definition assemble_secret_broker :: "startup_env \<Rightarrow> vault_config option \<Rightarrow> string + secret_broker" where
  "assemble_secret_broker E vault =
     (case registered ''env'' (env_resolve (su_getenv E)) new_broker of
        Inl e \<Rightarrow> Inl e
      | Inr b1 \<Rightarrow>
          (case registered ''keychain'' (keychain_resolve (su_keyring E)) b1 of
             Inl e \<Rightarrow> Inl e
           | Inr b2 \<Rightarrow>
               (case vault of
                  None \<Rightarrow> Inr b2
                | Some v \<Rightarrow>
                    (case resolve b2 (vc_identity v) of
                       Inl e \<Rightarrow> Inl (''failed to resolve portable vault device identity: '' @
                         secret_error_text e)
                     | Inr ident \<Rightarrow>
                         (case vault_new (su_vault E) (vc_path v) ident of
                            Inl e \<Rightarrow> Inl (secret_error_text e)
                          | Inr backend \<Rightarrow>
                              registered ''vault'' (resolve_sync (su_vault E) backend) b2)))))"

definition server_engine :: "startup_env \<Rightarrow> dlp_config \<Rightarrow> dlp_rule_error + dlp_engine" where
  "server_engine E = build_engine (su_dlp E) (resolve_resource_path (su_paths E)) (su_read_rules E)
     (su_rules_toml E)"

text \<open>The directory of the first rules file.\<close>

definition rules_dir_of :: "path_env \<Rightarrow> dlp_config \<Rightarrow> string" where
  "rules_dir_of P cfg =
     unwrap_or (case rules_files cfg of
        [] \<Rightarrow> None
      | f # _ \<Rightarrow> parent_dir P (resolve_resource_path P f)) ''.''"

definition integrity_gate :: "startup_env \<Rightarrow> string \<Rightarrow> string option" where
  "integrity_gate E dir =
     (case get_hmac_key (su_hmac_var E) of
        Inl e \<Rightarrow> Some e
      | Inr (Some key) \<Rightarrow>
          if rv_verified (checker_verify (su_integrity E) (new_checker (su_integrity E) (su_rules_dir E dir) key))
          then None else Some ''Security: Rule file integrity verification failed''
      | Inr None \<Rightarrow>
          if is_file (su_paths E) (path_join (su_paths E) dir MANIFEST)
          then Some ''rules/.manifest.json exists but GUARDIAN_HMAC_KEY is unavailable'' else None)"

definition open_audit :: "startup_env \<Rightarrow> string \<Rightarrow> string + json list" where
  "open_audit E path =
     (case recover_tip (su_from_str E) (su_audit_file E path) of
        Inl e \<Rightarrow> Inl (''failed to read existing audit chain: '' @ e)
      | Inr tip \<Rightarrow> Inr [])"

definition build_router :: "startup_env \<Rightarrow> server_config \<Rightarrow> string + app_state \<times> nat" where
  "build_router E config =
     (case assemble_secret_broker E (sv_vault config) of
        Inl e \<Rightarrow> Inl e
      | Inr secrets \<Rightarrow>
          (case server_engine E (sv_dlp_config config) of
             Inl e \<Rightarrow> Inl (''DLP engine failed to load: '' @ rule_error_text e)
           | Inr engine \<Rightarrow>
               (case integrity_gate E (rules_dir_of (su_paths E) (sv_dlp_config config)) of
                  Some e \<Rightarrow> Inl e
                | None \<Rightarrow>
                    (let rpm = unwrap_or (sv_requests_per_minute config) DEFAULT_REQUESTS_PER_MINUTE;
                         limiter = (if 0 < rpm then Some (new_limiter rpm) else None);
                         audit = (case sv_audit_log_path config of
                             None \<Rightarrow> Inr None
                           | Some path \<Rightarrow> map_sum id Some (open_audit E path))
                     in case audit of
                          Inl e \<Rightarrow> Inl e
                        | Inr queue \<Rightarrow>
                            Inr (\<lparr>as_secrets = secrets, as_engine = engine,
                              as_action = dlp_action_from_str (ext_lower (su_dlp E))
                                (action_name (sv_dlp_config config)),
                              as_limiter = limiter, as_default_upstream = sv_default_upstream config,
                              as_routes = sv_routes config, as_audit = queue,
                              as_slb = sv_load_balancer config,
                              as_allow_non_json = (case sv_security config of
                                 Some s \<Rightarrow> sec_allow_non_json s | None \<Rightarrow> default_allow_non_json)\<rparr>,
                             length (eng_rules engine))))))"

text \<open>\<open>open-guardian start\<close>, up to the listening socket.\<close>

definition run_start :: "startup_env \<Rightarrow> start_options \<Rightarrow> string + app_state \<times> nat" where
  "run_start E cli =
     (case load_config (su_paths E) (ext_lower (su_dlp E)) (su_url E) (su_config_toml E) of
        Inl e \<Rightarrow> Inl e
      | Inr c \<Rightarrow> build_router E (start_config cli c))"

text \<open>\<open>open-guardian sign\<close>: the rules directory with its new manifest.\<close>

definition run_sign :: "startup_env \<Rightarrow> string \<Rightarrow> string + rules_dir" where
  "run_sign E dir =
     (case su_hmac_var E of
        VarPresent key \<Rightarrow>
          if key = [] then Inl ''GUARDIAN_HMAC_KEY cannot be empty when signing rules''
          else (case checker_save (su_integrity E) (new_checker (su_integrity E)
                  (su_rules_dir E (resolve_resource_path (su_paths E) dir)) key) of
              Inl e \<Rightarrow> Inl (''Failed to save manifest: '' @ integrity_error_text e)
            | Inr dir' \<Rightarrow> Inr dir')
      | _ \<Rightarrow> Inl ''GUARDIAN_HMAC_KEY must be set to sign rules'')"

subsection \<open>The broker daemon\<close>

definition run_daemon :: "startup_env \<Rightarrow> string + daemon" where
  "run_daemon E =
     (let P = su_paths E in
      case load_config P (ext_lower (su_dlp E)) (su_url E) (su_config_toml E) of
        Inl e \<Rightarrow> Inl e
      | Inr c \<Rightarrow>
          (case (Option.bind (cfg_broker c) bc_policy, Option.bind (cfg_broker c) bc_public_key) of
             (None, _) \<Rightarrow> Inl ([CHR 0x5B] @ ''broker] policy = '' @ DQ @ ''broker/policy.toml'' @ DQ @
               '' is required in guardian.toml'')
           | (_, None) \<Rightarrow> Inl ([CHR 0x5B] @ ''broker] public_key = '' @ DQ @ ''broker/policy.pub'' @ DQ @
               '' is required in guardian.toml'')
           | (Some policy_path, Some key_path) \<Rightarrow>
               (case load_signed_policy (su_policy E) (su_policy_toml E) (su_files E) (su_files E) (su_files E)
                       (resolve_resource_path P policy_path) (resolve_resource_path P key_path) of
                  Inl e \<Rightarrow> Inl (su_show_policy_error E e)
                | Inr pol \<Rightarrow>
                    (let dlp = unwrap_or (Option.bind (cfg_security c) sec_dlp) default_dlp_config;
                         missing = (case rules_files dlp of
                             [] \<Rightarrow> None
                           | f # _ \<Rightarrow> if path_exists P (resolve_resource_path P f) then None
                               else Some (''broker refuses to start: DLP rules file '' @
                                 resolve_resource_path P f @ '' not found''))
                     in case missing of
                          Some e \<Rightarrow> Inl e
                        | None \<Rightarrow>
                            (case server_engine E dlp of
                               Inl e \<Rightarrow> Inl (''DLP engine: '' @ rule_error_text e)
                             | Inr engine \<Rightarrow>
                                 (case assemble_secret_broker E (cfg_vault c) of
                                    Inl e \<Rightarrow> Inl e
                                  | Inr secrets \<Rightarrow>
                                      (case open_audit E (resolve_resource_path P
                                          (unwrap_or (Option.bind (cfg_broker c) bc_audit_log_path)
                                            ''guardian_broker_audit.jsonl'')) of
                                         Inl e \<Rightarrow> Inl e
                                       | Inr queue \<Rightarrow>
                                           Inr (daemon_start pol secrets engine
                                             (su_secs E (unwrap_or (Option.bind (cfg_broker c) bc_pending_ttl_secs) 120))
                                             (su_secs E (unwrap_or (Option.bind (cfg_broker c) bc_result_ttl_secs) 300))
                                             (fst (su_tokens E)) (snd (su_tokens E)) (su_ts E) (su_addr E)))))))))"

subsection \<open>What a started proxy guarantees\<close>

lemma registered_Inr: "registered scheme backend b = Inr b' \<Longrightarrow> b' = snd (register scheme backend b)"
  by (auto simp: registered_def split: prod.splits option.splits)

lemma assembled_never_empty:
  assumes "assemble_secret_broker E vault = Inr b"
  shows "resolve b r \<noteq> Inr []"
proof -
  have "resolve new_broker r \<noteq> Inr []" for r by (simp add: resolve_def new_broker_def)
  note 1 = env.registered_keeps [OF this]
  note 2 = keychain.registered_keeps [OF 1]
  note 3 = vault.registered_keeps [OF 2]
  show ?thesis
    using assms 2 3
    by (auto simp: assemble_secret_broker_def split: sum.splits option.splits dest!: registered_Inr)
qed

lemma load_config_checked:
  assumes "load_config P lower parse toml = Inr c"
  shows "c = default_config \<or> check_config lower parse c = None"
  using assms
  by (auto simp: load_config_def normalize_credentials_def Let_def split: sum.splits option.splits)

lemma checked_routes:
  assumes "c = default_config \<or> check_config lower parse c = None"
    and "(name, rt) \<in> set (unwrap_or (cfg_routes c) [])"
  shows "\<exists>u. parse (rt_url rt) = Some u \<and> url_acceptable u"
proof (cases "cfg_routes c")
  case (Some routes)
  with assms show ?thesis
    by (auto simp: default_config_def unwrap_or_def check_config_def first_error_None check_routes_def
        validate_endpoint_None simp del: not_None_eq)
qed (use assms(2) in \<open>simp add: unwrap_or_def\<close>)

lemma build_router_Inr:
  assumes "build_router E config = Inr (st, n)"
  shows "assemble_secret_broker E (sv_vault config) = Inr (as_secrets st) \<and>
    server_engine E (sv_dlp_config config) = Inr (as_engine st) \<and>
    integrity_gate E (rules_dir_of (su_paths E) (sv_dlp_config config)) = None \<and>
    as_routes st = sv_routes config \<and> n = length (eng_rules (as_engine st))"
  using assms by (auto simp: build_router_def Let_def split: sum.splits option.splits)


subsection \<open>Witness\<close>

text \<open>A machine with no configuration file, no rules file and no manifest.\<close>

definition sample_paths :: path_env where
  "sample_paths = \<lparr>is_absolute = (\<lambda>p. False), path_join = (\<lambda>a b. a @ ''/'' @ b), parent_dir = (\<lambda>p. Some ''d''),
     path_exists = (\<lambda>p. False), is_file = (\<lambda>p. False), read_to_string = (\<lambda>p. Inl ''none''),
     executable_dir = None, current_dir = Some ''w'', config_var = None\<rparr>"

definition sample_startup :: startup_env where
  "sample_startup = \<lparr>su_paths = sample_paths, su_url = (\<lambda>u. Some sample_url),
     su_config_toml = (\<lambda>t. Inl ''e''), su_rules_toml = (\<lambda>t. Inl ''e''), su_policy_toml = (\<lambda>t. Inl ''e''),
     su_dlp = Session.sample_ext, su_read_rules = (\<lambda>p. None),
     su_rules_dir = (\<lambda>d. []), su_integrity = sample_integrity, su_hmac_var = VarNotPresent,
     su_getenv = (\<lambda>n. Some ''v''), su_keyring = \<lparr>kr_entry = (\<lambda>s a. True), kr_allows = (\<lambda>s a. True),
       kr_items = (\<lambda>k. None)\<rparr>, su_vault = Vault.sample_env, su_from_str = wire_parse,
     su_audit_file = (\<lambda>p. NotFound ''e''), su_policy = toy_env, su_files = (\<lambda>p. None),
     su_show_policy_error = (\<lambda>e. ''e''), su_secs = (\<lambda>n. n), su_tokens = (''a'', ''b''), su_ts = ''t'',
     su_addr = ''l''\<rparr>"

definition sample_cli :: start_options where
  "sample_cli = \<lparr>st_bind = None, st_port = None, st_upstream = None, st_local = True\<rparr>"

lemma sample_started: "\<exists>st n. run_start sample_startup sample_cli = Inr (st, n)"
proof -
  have "load_config sample_paths to_ascii_lowercase (\<lambda>u. Some sample_url) (\<lambda>t. Inl ''e'') = Inr default_config"
    by (simp add: load_config_def config_location_def sample_paths_def)
  moreover have "assemble_secret_broker sample_startup None = Inr (snd (register ''keychain''
      (keychain_resolve (su_keyring sample_startup)) (snd (register ''env'' (env_resolve
        (su_getenv sample_startup)) new_broker))))"
    by (simp add: assemble_secret_broker_def registered_def register_def new_broker_def
        env.scheme_valid keychain.scheme_valid)
  ultimately show ?thesis
    by (simp add: run_start_def sample_startup_def needle_ext_def build_router_def start_config_def
        default_config_def server_engine_def build_engine_def default_dlp_config_def unwrap_or_def
        integrity_gate_def get_hmac_key_def sample_paths_def Let_def)
qed


end
