(* ===== verification/Broker_Client.thy ===== *)
theory Broker_Client
  imports Broker_Runs Json_Codec "HOL-Library.Monad_Syntax"
begin

section \<open>The IPC client and the MCP server (src/broker/client.rs, src/broker/mcp.rs)\<close>

text \<open>
  The client of the broker daemon, the three tools of the MCP server, and how they compose
  with the handlers of \<open>Broker_Ipc\<close>.  The HTTP client is a function on a state \<open>'s\<close>, the
  world on the other side: from the URL, the headers and the body sent to the status and the
  body of the response, or nothing where the exchange fails.  \<open>daemon_wire\<close> is the world that
  consists of the daemon, with a schedule of what else happens there between two calls of
  this client.  An \<open>anyhow\<close> error is its outermost message.  The derived decoders follow the
  attributes in the source; JSON text is the parameter \<open>client_env\<close>.
\<close>

subsection \<open>Decoding\<close>

text \<open>
  A struct is read from an object, or from an array that gives the fields in their order.
  \<open>strict_fields\<close> is \<open>deny_unknown_fields\<close>.
\<close>

type_synonym fields = "(string \<times> json) list"

definition struct_fields :: "string list \<Rightarrow> json \<Rightarrow> fields option" where
  "struct_fields names v =
     (case v of
        JObj kvs \<Rightarrow> Some kvs
      | JArr vs \<Rightarrow> if length vs \<le> length names then Some (zip names vs) else None
      | _ \<Rightarrow> None)"

definition strict_fields :: "string list \<Rightarrow> json \<Rightarrow> fields option" where
  "strict_fields names v =
     Option.bind (struct_fields names v)
       (\<lambda>f. if list_all (\<lambda>(k, x). k \<in> set names) f then Some f else None)"

definition need :: "(json \<Rightarrow> 'a option) \<Rightarrow> fields \<Rightarrow> string \<Rightarrow> 'a option" where
  "need read f k = Option.bind (map_of f k) read"

definition defaulted :: "'a \<Rightarrow> (json \<Rightarrow> 'a option) \<Rightarrow> fields \<Rightarrow> string \<Rightarrow> 'a option" where
  "defaulted d read f k = (case map_of f k of None \<Rightarrow> Some d | Some v \<Rightarrow> read v)"

definition nullable :: "(json \<Rightarrow> 'a option) \<Rightarrow> json \<Rightarrow> 'a option option" where
  "nullable read v = (if v = JNull then Some None else map_option Some (read v))"

definition as_bool :: "json \<Rightarrow> bool option" where
  "as_bool v = (case v of JBool b \<Rightarrow> Some b | _ \<Rightarrow> None)"

definition as_list :: "(json \<Rightarrow> 'a option) \<Rightarrow> json \<Rightarrow> 'a list option" where
  "as_list read v = (case v of JArr vs \<Rightarrow> those (map read vs) | _ \<Rightarrow> None)"

record action_summary =
  sm_id :: string
  sm_description :: string
  sm_requires_elevation :: bool

record request_created =
  rc_request_id :: string
  rc_status :: string
  rc_expires_in_secs :: "64 word option"
  rc_message :: "string option"

record client_request =
  cq_id :: string
  cq_action_id :: string
  cq_reason :: string
  cq_status :: string
  cq_code :: "string option"

record status_report =
  sr_request_id :: string
  sr_action_id :: string
  sr_reason :: string
  sr_status :: string
  sr_result :: "json option"
  sr_note :: "string option"
  sr_message :: "string option"
  sr_error :: "string option"

definition read_action_summary :: "json \<Rightarrow> action_summary option" where
  "read_action_summary v = do {
     f \<leftarrow> struct_fields [''id'', ''description'', ''requires_elevation''] v;
     i \<leftarrow> need as_str f ''id'';
     d \<leftarrow> need as_str f ''description'';
     e \<leftarrow> need as_bool f ''requires_elevation'';
     Some \<lparr>sm_id = i, sm_description = d, sm_requires_elevation = e\<rparr> }"

definition read_request_created :: "json \<Rightarrow> request_created option" where
  "read_request_created v = do {
     f \<leftarrow> struct_fields [''request_id'', ''status'', ''expires_in_secs'', ''message''] v;
     i \<leftarrow> need as_str f ''request_id'';
     s \<leftarrow> need as_str f ''status'';
     e \<leftarrow> defaulted None (nullable as_u64) f ''expires_in_secs'';
     m \<leftarrow> defaulted None (nullable as_str) f ''message'';
     Some \<lparr>rc_request_id = i, rc_status = s, rc_expires_in_secs = e, rc_message = m\<rparr> }"

definition read_client_request :: "json \<Rightarrow> client_request option" where
  "read_client_request v = do {
     f \<leftarrow> struct_fields [''id'', ''action_id'', ''reason'', ''status'', ''code''] v;
     i \<leftarrow> need as_str f ''id'';
     a \<leftarrow> need as_str f ''action_id'';
     r \<leftarrow> defaulted [] as_str f ''reason'';
     s \<leftarrow> need as_str f ''status'';
     c \<leftarrow> defaulted None (nullable as_str) f ''code'';
     Some \<lparr>cq_id = i, cq_action_id = a, cq_reason = r, cq_status = s, cq_code = c\<rparr> }"

definition read_status_report :: "json \<Rightarrow> status_report option" where
  "read_status_report v = do {
     f \<leftarrow> struct_fields [''request_id'', ''action_id'', ''reason'', ''status'', ''result'', ''note'',
       ''message'', ''error''] v;
     i \<leftarrow> need as_str f ''request_id'';
     a \<leftarrow> need as_str f ''action_id'';
     r \<leftarrow> defaulted [] as_str f ''reason'';
     s \<leftarrow> need as_str f ''status'';
     result \<leftarrow> defaulted None (nullable Some) f ''result'';
     n \<leftarrow> defaulted None (nullable as_str) f ''note'';
     m \<leftarrow> defaulted None (nullable as_str) f ''message'';
     e \<leftarrow> defaulted None (nullable as_str) f ''error'';
     Some \<lparr>sr_request_id = i, sr_action_id = a, sr_reason = r, sr_status = s, sr_result = result,
       sr_note = n, sr_message = m, sr_error = e\<rparr> }"

subsection \<open>The client\<close>

record broker_client =
  bc_base :: string
  bc_token :: string

record client_env =
  ce_print :: "json \<Rightarrow> string"
  ce_parse :: "string \<Rightarrow> string + json"

type_synonym 's wire = "string \<Rightarrow> header_map \<Rightarrow> string \<Rightarrow> 's \<Rightarrow> (nat \<times> string) option \<times> 's"

definition new_client :: "string \<Rightarrow> string \<Rightarrow> broker_client" where
  "new_client addr token = \<lparr>bc_base = ''http://'' @ addr, bc_token = token\<rparr>"

text \<open>The environment, the directory of the discovery files, and the files.\<close>

record client_host =
  ch_getenv :: "string \<Rightarrow> string option"
  ch_temp_dir :: string
  ch_join :: "string \<Rightarrow> string \<Rightarrow> string"
  ch_files :: files

definition ADMIN_DISCOVERY_FILE :: string where
  "ADMIN_DISCOVERY_FILE = ''guardian-broker-admin.json''"
definition AGENT_DISCOVERY_FILE :: string where
  "AGENT_DISCOVERY_FILE = ''guardian-broker.json''"

definition runtime_dir :: "client_host \<Rightarrow> string" where
  "runtime_dir H =
     (case ch_getenv H ''GUARDIAN_BROKER_RUNTIME_DIR'' of
        Some dir \<Rightarrow> dir
      | None \<Rightarrow>
          (case ch_getenv H ''XDG_RUNTIME_DIR'' of
             Some dir \<Rightarrow> dir
           | None \<Rightarrow> ch_join H (ch_temp_dir H) ''guardian-broker''))"

definition connect :: "client_env \<Rightarrow> client_host \<Rightarrow> string \<Rightarrow> string \<Rightarrow> string + broker_client" where
  "connect E H token_var file =
     (case (ch_getenv H ''GUARDIAN_BROKER_URL'', ch_getenv H token_var) of
        (Some addr, Some token) \<Rightarrow> Inr (new_client addr token)
      | _ \<Rightarrow>
          (case read_discovery (ce_parse E) (ch_join H (runtime_dir H) file) (ch_files H) of
             Inl e \<Rightarrow> Inl e
           | Inr (addr, token) \<Rightarrow> Inr (new_client addr token)))"

definition admin_client :: "client_env \<Rightarrow> client_host \<Rightarrow> string + broker_client" where
  "admin_client E H = connect E H ''GUARDIAN_BROKER_TOKEN'' ADMIN_DISCOVERY_FILE"

definition agent_client :: "client_env \<Rightarrow> client_host \<Rightarrow> string + broker_client" where
  "agent_client E H = connect E H ''GUARDIAN_BROKER_AGENT_TOKEN'' AGENT_DISCOVERY_FILE"

definition bearer :: "string \<Rightarrow> header_map" where
  "bearer token = [(''authorization'', ''Bearer '' @ token)]"

definition error_detail :: "json \<Rightarrow> string" where
  "error_detail payload =
     (case Option.bind (case obj_get payload ''message'' of
              Some m \<Rightarrow> Some m | None \<Rightarrow> obj_get payload ''error'') as_str of
        Some d \<Rightarrow> d | None \<Rightarrow> ''unknown error'')"

text \<open>What \<open>post\<close> makes of a response.\<close>

definition read_response ::
  "client_env \<Rightarrow> (json \<Rightarrow> 'a option) \<Rightarrow> string \<Rightarrow> (nat \<times> string) option \<Rightarrow> string + 'a" where
  "read_response E read path response =
     (case response of
        None \<Rightarrow> Inl (''broker request '' @ path @ '' failed'')
      | Some (status, body) \<Rightarrow>
          (case ce_parse E body of
             Inl e \<Rightarrow> Inl ''broker returned a malformed response''
           | Inr payload \<Rightarrow>
               if \<not> (200 \<le> status \<and> status < 300)
               then Inl (''broker: '' @ error_detail payload @ '' (HTTP '' @ nat_dec status @ '')'')
               else (case read payload of
                   None \<Rightarrow> Inl (''broker response for '' @ path @ '' did not match the expected shape'')
                 | Some x \<Rightarrow> Inr x)))"

definition post ::
  "client_env \<Rightarrow> 's wire \<Rightarrow> broker_client \<Rightarrow> (json \<Rightarrow> 'a option) \<Rightarrow> string \<Rightarrow> json \<Rightarrow> 's \<Rightarrow>
   (string + 'a) \<times> 's" where
  "post E W c read path body st =
     (case W (bc_base c @ path) (bearer (bc_token c)) (ce_print E body) st of
        (response, st') \<Rightarrow> (read_response E read path response, st'))"

definition client_list_actions ::
  "client_env \<Rightarrow> 's wire \<Rightarrow> broker_client \<Rightarrow> 's \<Rightarrow> (string + action_summary list) \<times> 's" where
  "client_list_actions E W c =
     post E W c (\<lambda>v. do { f \<leftarrow> struct_fields [''actions''] v;
       need (as_list read_action_summary) f ''actions'' }) ''/v1/actions'' JNull"

definition client_request_action ::
  "client_env \<Rightarrow> 's wire \<Rightarrow> broker_client \<Rightarrow> string \<Rightarrow> string \<Rightarrow> 's \<Rightarrow> (string + request_created) \<times> 's" where
  "client_request_action E W c action_id reason =
     post E W c read_request_created ''/v1/request''
       (json_obj [(''action_id'', JStr action_id), (''reason'', JStr reason)])"

definition client_approve ::
  "client_env \<Rightarrow> 's wire \<Rightarrow> broker_client \<Rightarrow> string \<Rightarrow> string option \<Rightarrow> bool \<Rightarrow> 's \<Rightarrow> (string + json) \<times> 's" where
  "client_approve E W c request_id code yes =
     post E W c Some ''/v1/approve''
       (json_obj [(''request_id'', JStr request_id), (''code'', json_opt JStr code), (''yes'', JBool yes)])"

definition client_deny ::
  "client_env \<Rightarrow> 's wire \<Rightarrow> broker_client \<Rightarrow> string \<Rightarrow> 's \<Rightarrow> (string + json) \<times> 's" where
  "client_deny E W c request_id =
     post E W c Some ''/v1/deny'' (json_obj [(''request_id'', JStr request_id)])"

definition client_status ::
  "client_env \<Rightarrow> 's wire \<Rightarrow> broker_client \<Rightarrow> string \<Rightarrow> 's \<Rightarrow> (string + status_report) \<times> 's" where
  "client_status E W c request_id =
     post E W c read_status_report ''/v1/status'' (json_obj [(''request_id'', JStr request_id)])"

definition client_list_requests ::
  "client_env \<Rightarrow> 's wire \<Rightarrow> broker_client \<Rightarrow> 's \<Rightarrow> (string + client_request list) \<times> 's" where
  "client_list_requests E W c =
     post E W c (\<lambda>v. do { f \<leftarrow> struct_fields [''requests''] v;
       need (as_list read_client_request) f ''requests'' }) ''/v1/requests'' JNull"

subsection \<open>The MCP tools\<close>

datatype mcp_error = InternalError string | InvalidParams string

definition internal :: "string \<Rightarrow> mcp_error" where
  "internal message = InternalError (''guardian broker: '' @ message)"

definition invalid_params :: "string \<Rightarrow> mcp_error" where
  "invalid_params message = InvalidParams (''guardian broker: '' @ message)"

datatype mcp_tool =
    ToolListActions
  | ToolRequestAction string string
  | ToolRequestStatus string

definition mcp_list_actions ::
  "client_env \<Rightarrow> 's wire \<Rightarrow> broker_client \<Rightarrow> 's \<Rightarrow> (mcp_error + json) \<times> 's" where
  "mcp_list_actions E W c st =
     (case client_list_actions E W c st of
        (Inl e, st') \<Rightarrow> (Inl (internal e), st')
      | (Inr actions, st') \<Rightarrow>
          (Inr (json_obj [(''actions'', JArr (map (\<lambda>a. json_obj
             [(''id'', JStr (sm_id a)), (''description'', JStr (sm_description a)),
              (''requires_elevation'', JBool (sm_requires_elevation a))]) actions))]), st'))"

definition mcp_request_action ::
  "client_env \<Rightarrow> 's wire \<Rightarrow> broker_client \<Rightarrow> string \<Rightarrow> string \<Rightarrow> 's \<Rightarrow> (mcp_error + json) \<times> 's" where
  "mcp_request_action E W c action_id reason st =
     (case client_request_action E W c action_id reason st of
        (Inl e, st') \<Rightarrow> (Inl (if contains ''unknown_action'' e then invalid_params e else internal e), st')
      | (Inr created, st') \<Rightarrow>
          (Inr (json_obj [(''request_id'', JStr (rc_request_id created)), (''status'', JStr (rc_status created)),
             (''expires_in_secs'', json_opt (\<lambda>n. JNum (PosInt n)) (rc_expires_in_secs created)),
             (''message'', json_opt JStr (rc_message created))]), st'))"

definition mcp_request_status ::
  "client_env \<Rightarrow> 's wire \<Rightarrow> broker_client \<Rightarrow> string \<Rightarrow> 's \<Rightarrow> (mcp_error + json) \<times> 's" where
  "mcp_request_status E W c request_id st =
     (case client_status E W c request_id st of
        (Inl e, st') \<Rightarrow> (Inl (if contains ''unknown_request'' e then invalid_params e else internal e), st')
      | (Inr status, st') \<Rightarrow>
          (Inr (json_obj ([(''request_id'', JStr (sr_request_id status)),
              (''action_id'', JStr (sr_action_id status)), (''status'', JStr (sr_status status))] @
            (case sr_result status of Some r \<Rightarrow> [(''result'', r)] | None \<Rightarrow> []) @
            (case sr_note status of Some n \<Rightarrow> [(''note'', JStr n)] | None \<Rightarrow> []))), st'))"

fun mcp_call ::
  "client_env \<Rightarrow> 's wire \<Rightarrow> broker_client \<Rightarrow> mcp_tool \<Rightarrow> 's \<Rightarrow> (mcp_error + json) \<times> 's" where
  "mcp_call E W c ToolListActions st = mcp_list_actions E W c st"
| "mcp_call E W c (ToolRequestAction action_id reason) st = mcp_request_action E W c action_id reason st"
| "mcp_call E W c (ToolRequestStatus request_id) st = mcp_request_status E W c request_id st"

text \<open>\<open>run_stdio\<close>: the calls of one connection, in order.\<close>

fun mcp_calls ::
  "client_env \<Rightarrow> 's wire \<Rightarrow> broker_client \<Rightarrow> mcp_tool list \<Rightarrow> 's \<Rightarrow> (mcp_error + json) list \<times> 's" where
  "mcp_calls E W c [] st = ([], st)"
| "mcp_calls E W c (t # ts) st =
     (let (out, st1) = mcp_call E W c t st; (outs, st2) = mcp_calls E W c ts st1 in (out # outs, st2))"

definition run_stdio ::
  "client_env \<Rightarrow> client_host \<Rightarrow> 's wire \<Rightarrow> mcp_tool list \<Rightarrow> 's \<Rightarrow>
   (string + (mcp_error + json) list) \<times> 's" where
  "run_stdio E H W tools st =
     (case agent_client E H of
        Inl e \<Rightarrow> (Inl (''cannot reach the broker daemon: '' @ e @
          '' (start it with `open-guardian broker start`)''), st)
      | Inr c \<Rightarrow> (case mcp_calls E W c tools st of (outs, st') \<Rightarrow> (Inr outs, st')))"

subsection \<open>The daemon behind the wire\<close>

text \<open>The inputs of the handlers, as \<open>build_router\<close> and the derived decoders take them.\<close>

definition decode_body :: "string \<Rightarrow> json \<Rightarrow> request option" where
  "decode_body path v =
     (if path = ''/v1/request'' then do {
        f \<leftarrow> strict_fields [''action_id'', ''reason''] v;
        a \<leftarrow> need as_str f ''action_id'';
        r \<leftarrow> defaulted [] as_str f ''reason'';
        Some (CreateRequest a r) }
      else if path = ''/v1/status'' then do {
        f \<leftarrow> strict_fields [''request_id''] v;
        i \<leftarrow> need as_str f ''request_id'';
        Some (Status i) }
      else if path = ''/v1/approve'' then do {
        f \<leftarrow> strict_fields [''request_id'', ''code'', ''yes''] v;
        i \<leftarrow> need as_str f ''request_id'';
        c \<leftarrow> defaulted None (nullable as_str) f ''code'';
        y \<leftarrow> defaulted False as_bool f ''yes'';
        Some (Approve i c y) }
      else if path = ''/v1/deny'' then do {
        f \<leftarrow> strict_fields [''request_id''] v;
        i \<leftarrow> need as_str f ''request_id'';
        Some (Deny i) }
      else None)"

definition decode_request :: "client_env \<Rightarrow> string \<Rightarrow> string \<Rightarrow> request option" where
  "decode_request E path body =
     (if path = ''/v1/actions'' then Some ListActions
      else if path = ''/v1/requests'' then Some ListRequests
      else (case ce_parse E body of Inl e \<Rightarrow> None | Inr v \<Rightarrow> decode_body path v))"

text \<open>What happens in the daemon between two calls of a client: others do.\<close>

datatype daemon_event =
    Finishing nat nat string "string \<times> action_def"
  | Sweeping nat string
  | Calling call request

fun apply_event :: "ipc_env \<Rightarrow> daemon_event \<Rightarrow> daemon \<Rightarrow> daemon" where
  "apply_event I (Finishing elapsed now ts task) D = finish_task I elapsed now ts task D"
| "apply_event I (Sweeping now ts) D = sweep_tick now ts D"
| "apply_event I (Calling c q) D = snd (handle I (c\<lparr>c_seen := dm_store D\<rparr>) q D)"

text \<open>
  The state of the wire: the daemon, and for each call to come the events before it and the
  clocks and draws of its handler, which reads the store as it is then.  \<open>rejected\<close> is what
  the server answers where no handler is reached.
\<close>

type_synonym world = "daemon \<times> (daemon_event list \<times> call) list"

definition answer :: "client_env \<Rightarrow> reply \<Rightarrow> (nat \<times> string) option" where
  "answer E r = (case r of Reply status v \<Rightarrow> Some (status, ce_print E v @ [LF]) | Panicked \<Rightarrow> None)"

fun daemon_wire ::
  "client_env \<Rightarrow> ipc_env \<Rightarrow> (string \<Rightarrow> string \<Rightarrow> nat \<times> string) \<Rightarrow> string \<Rightarrow> world wire" where
  "daemon_wire E I rejected addr url headers body (D, []) = (None, (D, []))"
| "daemon_wire E I rejected addr url headers body (D, (events, c) # rest) =
     (let D1 = fold (apply_event I) events D in
      case strip_prefix (''http://'' @ addr) url of
        None \<Rightarrow> (None, (D1, rest))
      | Some path \<Rightarrow>
          (case decode_request E path body of
             None \<Rightarrow> (Some (rejected path body), (D1, rest))
           | Some q \<Rightarrow>
               (case handle I (c\<lparr>c_headers := headers, c_seen := dm_store D1\<rparr>) q D1 of
                  (r, D2) \<Rightarrow> (answer E r, (D2, rest)))))"

subsection \<open>Reading what was written\<close>

definition obj_fields :: "fields \<Rightarrow> fields" where
  "obj_fields kvs = foldl (\<lambda>m (k, v). map_insert k v m) [] kvs"

lemma map_of_obj_fields [simp]: "map_of (obj_fields kvs) k = map_of (rev kvs) k"
  by (simp add: obj_fields_def foldl_insert)

lemma struct_fields_obj [simp]: "struct_fields names (json_obj kvs) = Some (obj_fields kvs)"
  by (simp add: struct_fields_def json_obj_def obj_fields_def)

lemma fst_obj_fields: "fst ` set (obj_fields kvs) = fst ` set kvs"
proof -
  have "fst ` set (foldl (\<lambda>m (k, v). map_insert k v m) m kvs) = fst ` set m \<union> fst ` set kvs" for m
  proof (induction kvs arbitrary: m)
    case (Cons p kvs)
    then show ?case by (cases p) simp
  qed simp
  then show ?thesis by (simp add: obj_fields_def)
qed

lemma strict_fields_obj:
  assumes "fst ` set kvs \<subseteq> set names"
  shows "strict_fields names (json_obj kvs) = Some (obj_fields kvs)"
proof -
  have "k \<in> set names" if "(k, v) \<in> set (obj_fields kvs)" for k v
    using that assms fst_obj_fields [of kvs] by (metis fst_conv image_eqI subsetD)
  then show ?thesis by (auto simp: strict_fields_def list_all_iff)
qed

lemma obj_get_obj_fields: "obj_get (json_obj kvs) k = map_of (rev kvs) k"
  by (rule obj_get_json_obj)

lemmas field_simps' = need_def defaulted_def nullable_def as_str_def as_bool_def as_u64_def

lemma as_list_map:
  "(\<And>x. x \<in> set xs \<Longrightarrow> read (f x) = Some (g x)) \<Longrightarrow> as_list read (JArr (map f xs)) = Some (map g xs)"
  by (induction xs) (simp_all add: as_list_def)

text \<open>The requests of the client are what the handlers decode.\<close>

abbreviation sent :: "client_env \<Rightarrow> string \<Rightarrow> fields \<Rightarrow> request \<Rightarrow> bool" where
  "sent E path kvs q \<equiv> decode_request E path (ce_print E (json_obj kvs)) = Some q"

abbreviation codec_ok :: "client_env \<Rightarrow> bool" where
  "codec_ok E \<equiv> json_lines (ce_print E) (ce_parse E)"

lemma parse_sent:
  "codec_ok E \<Longrightarrow> plain_json v \<Longrightarrow> ce_parse E (ce_print E v) = Inr v"
  by (simp add: json_codec.parse_print [OF json_lines.axioms(1)])

lemma decode_request_sent:
  assumes "codec_ok E"
  shows "sent E ''/v1/request'' [(''action_id'', JStr a), (''reason'', JStr r)] (CreateRequest a r)"
    and "sent E ''/v1/status'' [(''request_id'', JStr i)] (Status i)"
    and "sent E ''/v1/approve'' [(''request_id'', JStr i), (''code'', json_opt JStr c), (''yes'', JBool y)]
      (Approve i c y)"
    and "sent E ''/v1/deny'' [(''request_id'', JStr i)] (Deny i)"
proof -
  have plain: "plain_json (json_obj kvs)" if "\<forall>(k, v) \<in> set kvs. plain_json v" for kvs
    using that by (intro plain_json_obj) auto
  note parse = parse_sent [OF assms plain]
  show "sent E ''/v1/request'' [(''action_id'', JStr a), (''reason'', JStr r)] (CreateRequest a r)"
    by (simp add: decode_request_def parse decode_body_def strict_fields_obj field_simps')
  show "sent E ''/v1/status'' [(''request_id'', JStr i)] (Status i)"
    by (simp add: decode_request_def parse decode_body_def strict_fields_obj field_simps')
  show "sent E ''/v1/approve'' [(''request_id'', JStr i), (''code'', json_opt JStr c), (''yes'', JBool y)]
      (Approve i c y)"
    by (cases c) (simp_all add: decode_request_def parse decode_body_def strict_fields_obj field_simps'
      json_opt_def)
  show "sent E ''/v1/deny'' [(''request_id'', JStr i)] (Deny i)"
    by (simp add: decode_request_def parse decode_body_def strict_fields_obj field_simps')
qed

text \<open>The values of the handlers are printed and read back without loss.\<close>

lemma plain_json_opt [simp]: "(\<And>x. v = Some x \<Longrightarrow> plain_json (f x)) \<Longrightarrow> plain_json (json_opt f v)"
  by (cases v) (simp_all add: json_opt_def)

lemma plain_json_nat [simp]: "plain_json (json_nat n)" "plain_json (json_int i)"
  by (simp_all add: json_nat_def json_int_def)

lemma plain_result [simp]: "plain_json (result_to_json r)"
  unfolding result_to_json_def by (rule plain_json_obj) auto

lemma handle_plain:
  assumes "handle I c q D = (Reply status v, D')"
  shows "plain_json v"
proof -
  have one: "plain_json (json_obj [(k, w)])" if "plain_json w" for k w
    using that by (intro plain_json_obj) auto
  have two: "plain_json (json_obj [(k, JStr a), (k', JStr b)])" for k a k' b
    by (intro plain_json_obj) auto
  note simple = one two error_reply_def message_reply_def unauthorized_def forbidden_agent_def
  show ?thesis
  proof (cases q)
    case ListActions
    with assms show ?thesis
      by (auto simp: list_actions_def simple intro!: one plain_json_obj split: if_splits)
  next
    case (CreateRequest a reason)
    with assms show ?thesis
      by (auto simp: create_request_def simple Let_def intro!: plain_json_obj
          split: if_splits option.splits prod.splits)
  next
    case (Status rid)
    with assms show ?thesis
      by (auto simp: request_status_def simple Let_def intro!: plain_json_obj
          split: if_splits option.splits prod.splits)
  next
    case (Approve rid code yes)
    with assms show ?thesis
      by (auto simp: approve_request_def do_approve_def admin_guard_def simple Let_def intro!: plain_json_obj
          split: if_splits option.splits prod.splits sum.splits approve_error.splits)
  next
    case (Deny rid)
    with assms show ?thesis
      by (auto simp: deny_request_def admin_guard_def simple Let_def intro!: plain_json_obj
          split: if_splits option.splits prod.splits sum.splits approve_error.splits)
  next
    case ListRequests
    with assms show ?thesis
      by (auto simp: list_requests_handler_def request_entry_def admin_guard_def simple
          intro!: plain_json_obj split: if_splits option.splits request_state.splits)
  qed
qed

text \<open>What the client makes of a reply: \<open>post\<close> over the wire is this view of the handler.\<close>

definition reply_view :: "(json \<Rightarrow> 'a option) \<Rightarrow> string \<Rightarrow> reply \<Rightarrow> string + 'a" where
  "reply_view read path r =
     (case r of
        Panicked \<Rightarrow> Inl (''broker request '' @ path @ '' failed'')
      | Reply status v \<Rightarrow>
          if \<not> (200 \<le> status \<and> status < 300)
          then Inl (''broker: '' @ error_detail v @ '' (HTTP '' @ nat_dec status @ '')'')
          else (case read v of
              None \<Rightarrow> Inl (''broker response for '' @ path @ '' did not match the expected shape'')
            | Some x \<Rightarrow> Inr x))"

definition handler_call :: "string \<Rightarrow> call \<Rightarrow> daemon \<Rightarrow> call" where
  "handler_call token c D = c\<lparr>c_headers := bearer token, c_seen := dm_store D\<rparr>"

lemma handler_call_simps [simp]:
  "c_headers (handler_call token c D) = bearer token" "c_seen (handler_call token c D) = dm_store D"
  "c_now1 (handler_call token c D) = c_now1 c" "c_now2 (handler_call token c D) = c_now2 c"
  "c_wall (handler_call token c D) = c_wall c" "c_rid (handler_call token c D) = c_rid c"
  "c_draws (handler_call token c D) = c_draws c" "c_ts (handler_call token c D) = c_ts c"
  by (simp_all add: handler_call_def)

lemma post_daemon:
  assumes "codec_ok E" and "decode_request E path (ce_print E body) = Some q"
    and "D1 = fold (apply_event I) events D"
    and "handle I (handler_call token c D1) q D1 = (r, D2)"
  shows "post E (daemon_wire E I rejected addr) (new_client addr token) read path body
      (D, (events, c) # rest) = (reply_view read path r, (D2, rest))"
proof -
  have url: "strip_prefix (''http://'' @ addr) (bc_base (new_client addr token) @ path) = Some path"
    by (simp add: new_client_def)
  have "read_response E read path (answer E r) = reply_view read path r"
  proof (cases r)
    case (Reply status v)
    have "ce_parse E (ce_print E v @ [LF]) = Inr v"
      using json_lines.parse_line [OF assms(1)] handle_plain assms(4) Reply by blast
    then show ?thesis by (simp add: Reply answer_def read_response_def reply_view_def)
  qed (simp add: answer_def read_response_def reply_view_def)
  then show ?thesis
    using assms(2-4) url by (simp add: post_def Let_def handler_call_def new_client_def)
qed

subsection \<open>The agent's view of the daemon\<close>

text \<open>A token that fits a header, as 64 hexadecimal digits do.\<close>

definition token_ok :: "string \<Rightarrow> bool" where
  "token_ok token \<longleftrightarrow> header_to_str token = Some token"

lemma role_of_bearer:
  assumes "token_ok token"
  shows "role_of (bearer token) D =
     (if token = dm_admin_token D then Some Admin
      else if token = dm_agent_token D then Some Agent else None)"
  using assms
  by (auto simp: role_of_def bearer_def get_header_def header_to_str_def token_ok_def ct_eq_iff
      split: if_splits)

lemma fold_log_event:
  "fold (\<lambda>rid. log_event ts n (f rid)) rids D =
     D\<lparr>dm_audit := dm_audit D @ map (\<lambda>rid. audit_event ts n (json_obj (f rid))) rids\<rparr>"
  by (induction rids arbitrary: D) (simp_all add: log_event_def)

lemma sweep_tick_log:
  "sweep_tick now ts D = D\<lparr>dm_store := snd (sweep now (dm_store D)), dm_audit := dm_audit D @
     map (\<lambda>rid. audit_event ts ''action_expired'' (json_obj [(''request_id'', JStr rid)]))
       (fst (sweep now (dm_store D)))\<rparr>"
  by (simp add: sweep_tick_def fold_log_event case_prod_beta)

lemma apply_event_setup:
  "dm_policy (apply_event I e D) = dm_policy D" "dm_agent_token (apply_event I e D) = dm_agent_token D"
  "dm_admin_token (apply_event I e D) = dm_admin_token D"
  by (cases e; simp add: finish_task_def Let_def sweep_tick_log case_prod_beta handle_policy handle_tokens
      del: handle.simps)+

lemma events_setup [simp]:
  "dm_policy (fold (apply_event I) events D) = dm_policy D"
  "dm_agent_token (fold (apply_event I) events D) = dm_agent_token D"
  "dm_admin_token (fold (apply_event I) events D) = dm_admin_token D"
  by (induction events arbitrary: D) (simp_all add: apply_event_setup)

lemma client_request_daemon:
  assumes "codec_ok E" and "D1 = fold (apply_event I) events D" and "role_of (bearer token) D1 \<noteq> None"
  shows "client_request_action E (daemon_wire E I rejected addr) (new_client addr token) a reason
      (D, (events, c) # rest) =
    (case policy_action (dm_policy D1) a of
       None \<Rightarrow> Inl ''broker: unknown_action (HTTP 404)''
     | Some act \<Rightarrow> Inr \<lparr>rc_request_id = c_rid c, rc_status = ''pending'',
         rc_expires_in_secs = Some (word_of_nat (ie_secs I (pending_ttl (dm_store D1)))),
         rc_message = Some ''awaiting operator approval (out-of-band)''\<rparr>,
     (snd (handle I (handler_call token c D1) (CreateRequest a reason) D1), rest))"
proof -
  let ?c = "handler_call token c D1" and ?q = "CreateRequest a reason"
  obtain r D2 where h: "handle I ?c ?q D1 = (r, D2)" by (meson surj_pair)
  have "reply_view read_request_created ''/v1/request'' r =
    (case policy_action (dm_policy D1) a of
       None \<Rightarrow> Inl ''broker: unknown_action (HTTP 404)''
     | Some act \<Rightarrow> Inr \<lparr>rc_request_id = c_rid c, rc_status = ''pending'',
         rc_expires_in_secs = Some (word_of_nat (ie_secs I (pending_ttl (dm_store D1)))),
         rc_message = Some ''awaiting operator approval (out-of-band)''\<rparr>)"
  proof (cases "policy_action (dm_policy D1) a")
    case None
    with h assms(3) have "r = Reply 404 (json_obj [(''error'', JStr ''unknown_action''), (''action_id'', JStr a)])"
      by (simp add: create_request_def)
    with None show ?thesis
      by (simp add: reply_view_def error_detail_def obj_get_json_obj as_str_def) code_simp
  next
    case (Some act)
    have id: "act_id act = a" by (rule policy_action_id [OF Some])
    from h assms(3) Some id have "r = Reply 200 (json_obj
        [(''request_id'', JStr (c_rid c)), (''status'', JStr ''pending''),
         (''expires_in_secs'', json_nat (ie_secs I (pending_ttl (dm_store D1)))),
         (''message'', JStr ''awaiting operator approval (out-of-band)'')])"
      by (auto simp: create_request_def create_def Let_def)
    with Some show ?thesis
      by (simp add: reply_view_def read_request_created_def field_simps' json_nat_def)
  qed
  with post_daemon [OF assms(1) decode_request_sent(1) [OF assms(1)] assms(2) h, of rejected addr read_request_created] h
  show ?thesis by (simp add: client_request_action_def del: handle.simps)
qed

definition status_view :: "request_record \<Rightarrow> status_report" where
  "status_view r =
     \<lparr>sr_request_id = req_id r, sr_action_id = req_action_id r, sr_reason = req_reason r,
      sr_status = state_name (req_state r),
      sr_result = (case req_state r of Completed x False e \<Rightarrow> Some (result_to_json x) | _ \<Rightarrow> None),
      sr_note = (case req_state r of
          Completed x True e \<Rightarrow> Some ''result already delivered once'' | _ \<Rightarrow> None),
      sr_message = None, sr_error = None\<rparr>"

lemma result_not_null [simp]: "result_to_json r \<noteq> JNull"
  by (simp add: result_to_json_def json_obj_def)

lemma client_status_daemon:
  assumes "codec_ok E" and "D1 = fold (apply_event I) events D" and "role_of (bearer token) D1 \<noteq> None"
  shows "client_status E (daemon_wire E I rejected addr) (new_client addr token) rid
      (D, (events, c) # rest) =
    (case snapshot rid (dm_store D1) of
       None \<Rightarrow> Inl ''broker: unknown_request (HTTP 404)''
     | Some r \<Rightarrow> Inr (status_view r),
     (snd (handle I (handler_call token c D1) (Status rid) D1), rest))"
proof -
  let ?c = "handler_call token c D1" and ?q = "Status rid"
  obtain r D2 where h: "handle I ?c ?q D1 = (r, D2)" by (meson surj_pair)
  obtain ro where ro: "role_of (bearer token) D1 = Some ro" using assms(3) by auto
  have "reply_view read_status_report ''/v1/status'' r =
    (case snapshot rid (dm_store D1) of
       None \<Rightarrow> Inl ''broker: unknown_request (HTTP 404)''
     | Some r \<Rightarrow> Inr (status_view r))"
  proof (cases "snapshot rid (dm_store D1)")
    case None
    with h ro have "r = Reply 404 (json_obj [(''error'', JStr ''unknown_request''), (''status'', JStr ''unknown'')])"
      by (simp add: request_status_def)
    with None show ?thesis
      by (simp add: reply_view_def error_detail_def obj_get_json_obj as_str_def) code_simp
  next
    case (Some rec)
    note view = request_status_def Let_def reply_view_def read_status_report_def status_view_def
      field_simps' deliver_def snapshot_def
    show ?thesis
    proof (cases "req_state rec")
      case (Completed x delivered e)
      with h ro Some show ?thesis by (cases delivered) (auto simp: view)
    qed (use h ro Some in \<open>auto simp: view\<close>)
  qed
  with post_daemon [OF assms(1) decode_request_sent(2) [OF assms(1)] assms(2) h, of rejected addr read_status_report] h
  show ?thesis by (simp add: client_status_def del: handle.simps)
qed

lemma error_class:
  "contains ''unknown_action'' ''broker: unknown_action (HTTP 404)''"
  "contains ''unknown_request'' ''broker: unknown_request (HTTP 404)''"
  by code_simp+

lemma agent_role: "token_ok (dm_agent_token D) \<Longrightarrow> role_of (bearer (dm_agent_token D)) D \<noteq> None"
  by (simp add: role_of_bearer)

text \<open>
  C32 The MCP tools tell an agent exactly what the daemon holds, and blame the right side:
  asking for an action succeeds precisely when the policy has it, with the id of the new
  request and nothing of its code, and is an invalid parameter otherwise; asking for a
  status is an invalid parameter precisely when there is no such request, gives its state,
  carries the result precisely while it has not been delivered, and the note precisely when
  it has.  Whatever other callers, finished executions and sweeps came before.
\<close>

theorem mcp_tools_exact:
  assumes "codec_ok E" and "D1 = fold (apply_event I) events D" and "token_ok (dm_agent_token D)"
  shows "fst (mcp_request_action E (daemon_wire E I rejected addr) (new_client addr (dm_agent_token D))
      a reason (D, (events, c) # rest)) =
    (case policy_action (dm_policy D) a of
       None \<Rightarrow> Inl (InvalidParams ''guardian broker: broker: unknown_action (HTTP 404)'')
     | Some act \<Rightarrow> Inr (json_obj [(''request_id'', JStr (c_rid c)), (''status'', JStr ''pending''),
         (''expires_in_secs'', json_nat (ie_secs I (pending_ttl (dm_store D1)))),
         (''message'', JStr ''awaiting operator approval (out-of-band)'')])) \<and>
    fst (mcp_request_status E (daemon_wire E I rejected addr) (new_client addr (dm_agent_token D))
      rid (D, (events, c) # rest)) =
    (case snapshot rid (dm_store D1) of
       None \<Rightarrow> Inl (InvalidParams ''guardian broker: broker: unknown_request (HTTP 404)'')
     | Some r \<Rightarrow> Inr (json_obj ([(''request_id'', JStr (req_id r)), (''action_id'', JStr (req_action_id r)),
         (''status'', JStr (state_name (req_state r)))] @
         (case req_state r of
            Completed x False e \<Rightarrow> [(''result'', result_to_json x)]
          | Completed x True e \<Rightarrow> [(''note'', JStr ''result already delivered once'')]
          | _ \<Rightarrow> []))))"
proof -
  have role: "role_of (bearer (dm_agent_token D)) D1 \<noteq> None"
    using agent_role [of D1] assms(2,3) by simp
  have policy: "dm_policy D1 = dm_policy D" using assms(2) by simp
  note req = client_request_daemon [OF assms(1,2) role] and st = client_status_daemon [OF assms(1,2) role]
  show ?thesis
    unfolding mcp_request_action_def mcp_request_status_def req st
    by (auto simp: policy error_class invalid_params_def json_opt_def json_nat_def status_view_def
        split: option.splits request_state.splits bool.splits)
qed

subsection \<open>Nothing of the codes crosses the MCP server\<close>

lemma erase_record_iff [simp]:
  "goes_stale now (erase_record r) = goes_stale now r"
  "goes_away now (erase_record r) = goes_away now r"
  by (cases "req_state r"; simp add: goes_stale_def goes_away_def erase_record_def)+

lemma complete_erase:
  "erase_store (Broker_State.complete now rid result st) =
   Broker_State.complete now rid result (erase_store st)"
proof (cases "map_of (requests st) rid")
  case None
  then show ?thesis by (simp add: Broker_State.complete_def erase_store_def map_of_erase)
next
  case (Some r)
  then have "map_of (requests (erase_store st)) rid = Some (erase_record r)"
    by (simp add: erase_store_def map_of_erase)
  with Some show ?thesis by (simp add: Broker_State.complete_def erase_set_state)
qed

lemma sweep_erase:
  "fst (sweep now (erase_store st)) = fst (sweep now st)"
  "snd (sweep now (erase_store st)) = erase_store (snd (sweep now st))"
proof -
  have rec: "sweep_record now t (erase_record r) = erase_record (sweep_record now t r)" for t r
    by (simp add: sweep_record_def erase_record_def goes_stale_def split: request_state.splits)
  have keys: "map fst (filter (\<lambda>e. goes_stale now (snd e)) (map (\<lambda>(k, r). (k, erase_record r)) xs)) =
      map fst (filter (\<lambda>e. goes_stale now (snd e)) xs)"
    "map fst (filter (\<lambda>e. goes_away now (snd e)) (map (\<lambda>(k, r). (k, erase_record r)) xs)) =
      map fst (filter (\<lambda>e. goes_away now (snd e)) xs)" for xs
    by (induction xs) auto
  show "fst (sweep now (erase_store st)) = fst (sweep now st)"
    by (simp add: sweep_def erase_store_def keys)
  have swept: "filter (\<lambda>(k, r). k \<notin> A) (map (\<lambda>(k, r). (k, sweep_record now t r))
        (map (\<lambda>(k, r). (k, erase_record r)) xs)) =
      map (\<lambda>(k, r). (k, erase_record r)) (filter (\<lambda>(k, r). k \<notin> A)
        (map (\<lambda>(k, r). (k, sweep_record now t r)) xs))" for A t xs
    by (induction xs) (auto simp: rec)
  show "snd (sweep now (erase_store st)) = erase_store (snd (sweep now st))"
    by (simp add: sweep_def erase_store_def keys Let_def swept del: map_map)
qed

text \<open>
  Two schedules that differ in codes only: in the draws of requests made meanwhile.  The
  other callers do not hold the admin token.
\<close>

fun same_event :: "daemon \<Rightarrow> daemon_event \<Rightarrow> daemon_event \<Rightarrow> bool" where
  "same_event D (Calling c q) (Calling c' q') \<longleftrightarrow>
     q = q' \<and> same_call c c' \<and> role_of (c_headers c) D \<noteq> Some Admin"
| "same_event D e e' \<longleftrightarrow> e = e'"

definition same_schedule ::
  "daemon \<Rightarrow> (daemon_event list \<times> call) list \<Rightarrow> (daemon_event list \<times> call) list \<Rightarrow> bool" where
  "same_schedule D s s' \<longleftrightarrow>
     list_all2 (\<lambda>(es, c) (es', c'). list_all2 (same_event D) es es' \<and> same_call c c') s s'"

lemma same_call_at:
  assumes "same_call c c'" and "erase_store S = erase_store S'"
  shows "same_call (c\<lparr>c_seen := S\<rparr>) (c'\<lparr>c_seen := S'\<rparr>)"
    and "same_call (c\<lparr>c_headers := h, c_seen := S\<rparr>) (c'\<lparr>c_headers := h, c_seen := S'\<rparr>)"
  using same_call_simps [OF assms(1)] assms(2) by (simp_all add: same_call_def)

lemma event_erase:
  assumes "erase_daemon D = erase_daemon D'" and "same_event D e e'"
  shows "erase_daemon (apply_event I e D) = erase_daemon (apply_event I e' D')"
proof (cases e)
  case (Finishing elapsed now ts task)
  with assms(2) have "e' = e" by (cases e') auto
  moreover have "erase_store (Broker_State.complete now rid r (dm_store D)) =
      erase_store (Broker_State.complete now rid r (dm_store D'))" for rid r
    using assms(1) by (simp add: complete_erase erase_daemon_iff)
  ultimately show ?thesis using assms(1) Finishing
    by (cases task) (simp add: finish_task_def Let_def erase_daemon_iff)
next
  case (Sweeping now ts)
  with assms(2) have "e' = e" by (cases e') auto
  moreover have "erase_store (dm_store D) = erase_store (dm_store D')"
    using assms(1) by (simp add: erase_daemon_iff)
  then have "fst (sweep now (dm_store D)) = fst (sweep now (dm_store D'))"
    "erase_store (snd (sweep now (dm_store D))) = erase_store (snd (sweep now (dm_store D')))"
    by (metis sweep_erase)+
  ultimately show ?thesis using assms(1) Sweeping
    by (simp add: sweep_tick_log erase_daemon_iff)
next
  case (Calling c q)
  with assms(2) obtain c' where e': "e' = Calling c' q" and c: "same_call c c'"
    and role: "role_of (c_headers c) D \<noteq> Some Admin" by (cases e') auto
  have "erase_store (dm_store D) = erase_store (dm_store D')"
    using assms(1) by (simp add: erase_daemon_iff)
  from handle_erase [OF assms(1) same_call_at(1) [OF c this], of I q] role e' Calling
  show ?thesis by simp
qed

lemma same_event_setup:
  "dm_agent_token D = dm_agent_token D0 \<Longrightarrow> dm_admin_token D = dm_admin_token D0 \<Longrightarrow>
   same_event D e e' = same_event D0 e e'"
  using role_of_tokens [of D D0] by (cases e; cases e') simp_all

lemma events_erase:
  assumes "list_all2 (same_event D0) es es'" and "erase_daemon D = erase_daemon D'"
    and "dm_agent_token D = dm_agent_token D0" and "dm_admin_token D = dm_admin_token D0"
  shows "erase_daemon (fold (apply_event I) es D) = erase_daemon (fold (apply_event I) es' D')"
  using assms
proof (induction es es' arbitrary: D D' rule: list_all2_induct)
  case (Cons e es e' es')
  have "same_event D e e'" using Cons.hyps(1) same_event_setup [OF Cons.prems(2,3)] by blast
  note step = event_erase [OF Cons.prems(1) this, of I]
  have "dm_agent_token (apply_event I e D) = dm_agent_token D0"
    "dm_admin_token (apply_event I e D) = dm_admin_token D0"
    using Cons.prems(2,3) by (simp_all only: apply_event_setup)
  from Cons.IH [OF step this] show ?case by simp
qed simp

definition same_world :: "daemon \<Rightarrow> world \<Rightarrow> world \<Rightarrow> bool" where
  "same_world D0 w w' \<longleftrightarrow>
     erase_daemon (fst w) = erase_daemon (fst w') \<and> same_schedule D0 (snd w) (snd w') \<and>
     dm_agent_token (fst w) = dm_agent_token D0 \<and> dm_admin_token (fst w) = dm_admin_token D0"

text \<open>One exchange over the wire, for a caller without the admin token.\<close>

lemma daemon_wire_erase:
  assumes "same_world D0 w w'" and "role_of headers D0 \<noteq> Some Admin"
  shows "fst (daemon_wire E I rejected addr url headers body w) =
      fst (daemon_wire E I rejected addr url headers body w') \<and>
    same_world D0 (snd (daemon_wire E I rejected addr url headers body w))
      (snd (daemon_wire E I rejected addr url headers body w'))"
proof (cases "snd w")
  case Nil
  with assms(1) obtain D D' where "w = (D, [])" "w' = (D', [])"
    by (cases w; cases w') (simp add: same_world_def same_schedule_def)
  with assms(1) show ?thesis by simp
next
  case (Cons x rest)
  with assms(1) obtain D D' es es' c c' rest' where w: "w = (D, (es, c) # rest)" "w' = (D', (es', c') # rest')"
    and es: "list_all2 (same_event D0) es es'" and c: "same_call c c'"
    and rest: "same_schedule D0 rest rest'"
    by (cases w; cases w'; cases x) (auto simp: same_world_def same_schedule_def list_all2_Cons1)
  from assms(1) w have D: "erase_daemon D = erase_daemon D'" "dm_agent_token D = dm_agent_token D0"
    "dm_admin_token D = dm_admin_token D0" by (simp_all add: same_world_def)
  define D1 D1' where "D1 = fold (apply_event I) es D" and "D1' = fold (apply_event I) es' D'"
  have D1: "erase_daemon D1 = erase_daemon D1'" unfolding D1_def D1'_def by (rule events_erase [OF es D])
  have tokens: "dm_agent_token D1 = dm_agent_token D0" "dm_admin_token D1 = dm_admin_token D0"
    using D(2,3) by (simp_all add: D1_def)
  have role: "role_of headers D1 \<noteq> Some Admin"
    using assms(2) role_of_tokens [OF tokens] by simp
  let ?c = "c\<lparr>c_headers := headers, c_seen := dm_store D1\<rparr>"
  let ?c' = "c'\<lparr>c_headers := headers, c_seen := dm_store D1'\<rparr>"
  have sc: "same_call ?c ?c'"
    by (rule same_call_at(2) [OF c]) (use D1 in \<open>simp add: erase_daemon_iff\<close>)
  have one: "fst (handle I ?c q D1) = fst (handle I ?c' q D1')"
    "erase_daemon (snd (handle I ?c q D1)) = erase_daemon (snd (handle I ?c' q D1'))" for q
    using handle_erase [OF D1 sc, of I q] role by simp_all
  show ?thesis
    using one D1 rest tokens
    by (auto simp: w same_world_def D1_def [symmetric] D1'_def [symmetric] case_prod_beta handle_tokens Let_def
        simp del: handle.simps split: option.splits)
qed

lemma post_erase:
  assumes "same_world D0 w w'" and "role_of (bearer (bc_token cl)) D0 \<noteq> Some Admin"
  shows "fst (post E (daemon_wire E I rejected addr) cl read path body w) =
      fst (post E (daemon_wire E I rejected addr) cl read path body w')"
    and "same_world D0 (snd (post E (daemon_wire E I rejected addr) cl read path body w))
      (snd (post E (daemon_wire E I rejected addr) cl read path body w'))"
  using daemon_wire_erase [OF assms] unfolding post_def by (simp_all add: case_prod_beta)

lemma mcp_call_erase:
  assumes "same_world D0 w w'" and "role_of (bearer (bc_token cl)) D0 \<noteq> Some Admin"
  shows "fst (mcp_call E (daemon_wire E I rejected addr) cl t w) =
      fst (mcp_call E (daemon_wire E I rejected addr) cl t w') \<and>
    same_world D0 (snd (mcp_call E (daemon_wire E I rejected addr) cl t w))
      (snd (mcp_call E (daemon_wire E I rejected addr) cl t w'))"
proof -
  note same = post_erase [OF assms]
  show ?thesis
    by (cases t) (auto simp: mcp_list_actions_def mcp_request_action_def mcp_request_status_def same
        client_list_actions_def client_request_action_def client_status_def case_prod_beta split: sum.split)
qed


subsection \<open>Witnesses\<close>

definition sample_codec :: client_env where
  "sample_codec = \<lparr>ce_print = wire_print, ce_parse = wire_parse\<rparr>"

lemma sample_codec_ok: "codec_ok sample_codec"
  using wire.json_lines_axioms by (simp add: sample_codec_def)

lemma mcp_tools_exact_witness:
  "fst (mcp_request_status sample_codec (daemon_wire sample_codec sample_ipc (\<lambda>p b. (404, [])) ''h'')
     (new_client ''h'' ''a1'') ''ab'' (sample_daemon, [([], agent_call sample_store)])) =
   Inr (json_obj [(''request_id'', JStr ''ab''), (''action_id'', JStr ''restart''),
     (''status'', JStr ''pending'')])"
proof -
  have tok: "dm_agent_token sample_daemon = ''a1''" "token_ok (dm_agent_token sample_daemon)"
    by (simp_all add: sample_daemon_def token_ok_def header_to_str_def)
  have "snapshot ''ab'' (dm_store sample_daemon) = Some (snd (hd (requests sample_store)))"
    by (simp add: snapshot_def sample_daemon_def sample_store_def)
  with mcp_tools_exact [OF sample_codec_ok _ tok(2), of _ sample_ipc "[]" "\<lambda>p b. (404, [])" "''h''" _ _
      "agent_call sample_store" "[]" "''ab''", OF refl] tok(1)
  show ?thesis by (simp add: sample_store_def)
qed


end
