(* ===== verification/Operator.thy ===== *)
theory Operator
  imports Broker_Client Context_Dlp Audit_Chain Startup
begin

section \<open>The operator commands (src/main.rs, src/audit.rs)\<close>

text \<open>
  The commands an operator gives at the terminal, over the components they drive.  A command
  gives an error, or the lines it prints; the marks and colours of src/banner.rs are left
  out.  \<open>handle_approve\<close> is the one with a loop of its own: it approves a request and polls
  for the outcome.  The lemmas show what that loop does to the single-use result, and that a
  request made over MCP reaches execution through the commands.
\<close>

definition EM_DASH :: string where
  "EM_DASH = [CHR 0xE2, CHR 0x80, CHR 0x94]"

definition RIGHT_ARROW :: string where
  "RIGHT_ARROW = [CHR 0xE2, CHR 0x86, CHR 0x92]"

text \<open>\<open>{:<n}\<close>: padded on the right to \<open>n\<close> characters.\<close>

definition pad_right :: "nat \<Rightarrow> string \<Rightarrow> string" where
  "pad_right n s = s @ replicate (n - length (utf8_chars s)) (CHR '' '')"

subsection \<open>Requests, denial, listing\<close>

definition run_broker_request ::
  "client_env \<Rightarrow> client_host \<Rightarrow> 's wire \<Rightarrow> string \<Rightarrow> string \<Rightarrow> 's \<Rightarrow> (string + string list) \<times> 's" where
  "run_broker_request E H W action reason st =
     (case admin_client E H of
        Inl e \<Rightarrow> (Inl e, st)
      | Inr client \<Rightarrow>
          (case client_request_action E W client action reason st of
             (Inl e, st') \<Rightarrow> (Inl e, st')
           | (Inr created, st') \<Rightarrow>
               (Inr [''Request '' @ rc_request_id created @ '' created ('' @ rc_status created @ '') '' @
                  EM_DASH @ '' awaiting operator approval.'',
                  ''  The operator sees: open-guardian approve '' @ rc_request_id created @
                  '' --code <code>''], st')))"

definition run_deny ::
  "client_env \<Rightarrow> client_host \<Rightarrow> 's wire \<Rightarrow> string \<Rightarrow> 's \<Rightarrow> (string + string list) \<times> 's" where
  "run_deny E H W rid st =
     (case admin_client E H of
        Inl e \<Rightarrow> (Inl e, st)
      | Inr client \<Rightarrow>
          (case client_deny E W client rid st of
             (Inl e, st') \<Rightarrow> (Inl e, st')
           | (Inr v, st') \<Rightarrow> (Inr [''Request '' @ rid @ '' denied.''], st')))"

definition request_line :: "client_request \<Rightarrow> string" where
  "request_line entry =
     cq_id entry @ ''  '' @ pad_right 10 (cq_status entry) @ ''  '' @ pad_right 18 (cq_action_id entry) @
     ''  '' @ cq_reason entry @ (case cq_code entry of Some code \<Rightarrow> ''  code: '' @ code | None \<Rightarrow> [])"

definition run_requests ::
  "client_env \<Rightarrow> client_host \<Rightarrow> 's wire \<Rightarrow> 's \<Rightarrow> (string + string list) \<times> 's" where
  "run_requests E H W st =
     (case admin_client E H of
        Inl e \<Rightarrow> (Inl e, st)
      | Inr client \<Rightarrow>
          (case client_list_requests E W client st of
             (Inl e, st') \<Rightarrow> (Inl e, st')
           | (Inr entries, st') \<Rightarrow>
               (Inr (if entries = [] then [''No broker requests.''] else map request_line entries), st')))"

subsection \<open>Approval\<close>

text \<open>What polling ended with.\<close>

datatype approve_outcome =
    OutcomeResult json
  | OutcomeDelivered
  | OutcomeEnded string
  | StillExecuting

definition result_lines :: "client_env \<Rightarrow> json \<Rightarrow> string list" where
  "result_lines E result =
     [''  exit_code: '' @ (case obj_get result ''exit_code'' of Some v \<Rightarrow> ce_print E v | None \<Rightarrow> [])] @
     (case Option.bind (obj_get result ''error'') as_str of
        Some error \<Rightarrow> [''  error:     '' @ error] | None \<Rightarrow> []) @
     (case Option.bind (obj_get result ''stdout'') as_str of
        Some out \<Rightarrow> if out = [] then [] else [''  stdout:    '' @ out] | None \<Rightarrow> []) @
     (case Option.bind (obj_get result ''stderr'') as_str of
        Some err \<Rightarrow> if err = [] then [] else [''  stderr:    '' @ err] | None \<Rightarrow> [])"

fun outcome_lines :: "client_env \<Rightarrow> string \<Rightarrow> approve_outcome \<Rightarrow> string list" where
  "outcome_lines E rid (OutcomeResult result) = result_lines E result"
| "outcome_lines E rid OutcomeDelivered = [''  completed (result was already delivered once).'']"
| "outcome_lines E rid (OutcomeEnded other) = [''Request '' @ rid @ '' ended in state: '' @ other]"
| "outcome_lines E rid StillExecuting =
     [''Still executing; check `open-guardian requests` later.'']"

definition MAX_POLLS :: nat where "MAX_POLLS = 40"

fun poll_outcome ::
  "client_env \<Rightarrow> 's wire \<Rightarrow> broker_client \<Rightarrow> string \<Rightarrow> nat \<Rightarrow> 's \<Rightarrow> approve_outcome \<times> 's" where
  "poll_outcome E W client rid 0 st = (StillExecuting, st)"
| "poll_outcome E W client rid (Suc n) st =
     (case client_status E W client rid st of
        (Inl e, st') \<Rightarrow> poll_outcome E W client rid n st'
      | (Inr status, st') \<Rightarrow>
          if sr_status status = ''executing'' \<or> sr_status status = ''pending''
          then poll_outcome E W client rid n st'
          else if sr_status status = ''completed''
          then (case sr_result status of
              Some result \<Rightarrow> (OutcomeResult result, st')
            | None \<Rightarrow> (OutcomeDelivered, st'))
          else (OutcomeEnded (sr_status status), st'))"

text \<open>The code from the option, from the terminal (\<open>Inl\<close> where it cannot be read), or none.\<close>

definition approval_code ::
  "string + string \<Rightarrow> string option \<Rightarrow> bool \<Rightarrow> string + string option" where
  "approval_code typed code yes =
     (if yes then Inr None
      else (case code of
          Some c \<Rightarrow> Inr (Some c)
        | None \<Rightarrow>
            (case typed of
               Inl e \<Rightarrow> Inl (''cannot read approval code: '' @ e)
             | Inr line \<Rightarrow>
                 if trim line = [] then Inl ''no code given; aborted'' else Inr (Some (trim line)))))"

definition approve_and_poll ::
  "client_env \<Rightarrow> 's wire \<Rightarrow> broker_client \<Rightarrow> string \<Rightarrow> string option \<Rightarrow> bool \<Rightarrow> 's \<Rightarrow>
   (string + approve_outcome) \<times> 's" where
  "approve_and_poll E W client rid code yes st =
     (case client_approve E W client rid code yes st of
        (Inl e, st') \<Rightarrow> (Inl e, st')
      | (Inr v, st') \<Rightarrow>
          (case poll_outcome E W client rid MAX_POLLS st' of (out, st'') \<Rightarrow> (Inr out, st'')))"

definition handle_approve ::
  "client_env \<Rightarrow> client_host \<Rightarrow> 's wire \<Rightarrow> string + string \<Rightarrow> string \<Rightarrow> string option \<Rightarrow> bool \<Rightarrow> 's \<Rightarrow>
   (string + string list) \<times> 's" where
  "handle_approve E H W typed rid code yes st =
     (case admin_client E H of
        Inl e \<Rightarrow> (Inl e, st)
      | Inr client \<Rightarrow>
          (case approval_code typed code yes of
             Inl e \<Rightarrow> (Inl e, st)
           | Inr code' \<Rightarrow>
               (case approve_and_poll E W client rid code' yes st of
                  (Inl e, st') \<Rightarrow> (Inl e, st')
                | (Inr out, st') \<Rightarrow>
                    (Inr ((''Request '' @ rid @ '' approved; executing.'') # outcome_lines E rid out), st'))))"

subsection \<open>The signed policy, the audit log, the keychain, sanitizing\<close>

text \<open>The commands print paths; \<open>show\<close> prints an error of policy.rs.\<close>

datatype policy_command =
    Keygen string
  | SignPolicy string string
  | VerifyPolicy string string
  | Sudoers string string "string option"

definition action_line :: "action_def \<Rightarrow> string" where
  "action_line a = ''  '' @ pad_right 24 (act_id a) @ '' '' @ act_description a @
     (case act_user a of Some user \<Rightarrow> ''  (as '' @ user @ '')'' | None \<Rightarrow> [])"

definition loaded_policy :: "startup_env \<Rightarrow> files \<Rightarrow> string \<Rightarrow> string \<Rightarrow> string + policy" where
  "loaded_policy E fs pp key =
     (case load_signed_policy (su_policy E) (su_policy_toml E) fs fs fs pp key of
        Inl e \<Rightarrow> Inl (su_show_policy_error E e) | Inr p \<Rightarrow> Inr p)"

fun handle_policy_command ::
  "startup_env \<Rightarrow> string \<Rightarrow> policy_command \<Rightarrow> files \<Rightarrow> (string + string list) \<times> files" where
  "handle_policy_command E seed (Keygen key) fs =
     (let path = resolve_resource_path (su_paths E) key in
      case keygen (su_policy E) seed path fs of
        (Inl e, fs') \<Rightarrow> (Inl (su_show_policy_error E e), fs')
      | (Inr public, fs') \<Rightarrow>
          (Inr [''Keypair generated for key id '' @ key_id (su_policy E) public @ '':'' @ [LF] @
             ''  secret: '' @ path @ '' (0600)'' @ [LF] @ ''  public: '' @
             pe_with_extension (su_policy E) path ''pub'',
             ''Keep the secret key offline; pin the .pub in guardian.toml '' @ [CHR 0x5B] @ ''broker].''], fs'))"
| "handle_policy_command E seed (SignPolicy pol key) fs =
     (let path = resolve_resource_path (su_paths E) pol in
      case sign_policy (su_policy E) path (resolve_resource_path (su_paths E) key) fs of
        (Inl e, fs') \<Rightarrow> (Inl (su_show_policy_error E e), fs')
      | (Inr kid, fs') \<Rightarrow>
          (Inr [''Signed '' @ path @ '' (key id '' @ kid @ '') '' @ RIGHT_ARROW @ '' '' @ path @ ''.sig''], fs'))"
| "handle_policy_command E seed (VerifyPolicy pol key) fs =
     (case loaded_policy E fs (resolve_resource_path (su_paths E) pol) (resolve_resource_path (su_paths E) key) of
        Inl e \<Rightarrow> (Inl e, fs)
      | Inr p \<Rightarrow>
          (Inr ((''Policy signature valid (fingerprint '' @ take 16 (pol_fingerprint p) @ ''). '' @
             nat_dec (length (pol_actions p)) @ '' action(s):'') # map action_line (pol_actions p)), fs))"
| "handle_policy_command E seed (Sudoers pol key user) fs =
     (case loaded_policy E fs (resolve_resource_path (su_paths E) pol) (resolve_resource_path (su_paths E) key) of
        Inl e \<Rightarrow> (Inl e, fs)
      | Inr p \<Rightarrow>
          (let invoking_user = unwrap_or (option_or user
                 (option_or (su_getenv E ''USER'') (su_getenv E ''USERNAME''))) ''guardian-broker'';
               lines = sudoers_lines p invoking_user
           in (Inr (if lines = [] then [''No elevated actions in this policy; no sudoers rules needed.'']
                    else (''# /etc/sudoers.d/guardian-broker '' @ EM_DASH @
                      '' install with: visudo -f /etc/sudoers.d/guardian-broker'') # lines), fs)))"

definition run_verify ::
  "(json \<Rightarrow> string) \<Rightarrow> (string \<Rightarrow> string + json) \<Rightarrow> (string \<Rightarrow> string) \<Rightarrow> file_read \<Rightarrow> string + string list" where
  "run_verify to_str from_str digest file =
     (case verify to_str from_str digest file of
        Inr report \<Rightarrow>
          Inr [''Audit chain OK: '' @ nat_dec (unat (rep_lines report)) @ '' events, tip '' @
            take 16 (rep_last_hash report)]
      | Inl b \<Rightarrow>
          Inl (''AUDIT CHAIN BROKEN at line '' @ nat_dec (unat (broken_line b)) @ '': '' @ broken_reason b))"

datatype secret_command = SetSecret secret_ref | DeleteSecret secret_ref

text \<open>\<open>typed\<close> is the value entered at the hidden prompt.\<close>

fun handle_secret_command ::
  "string + string \<Rightarrow> secret_command \<Rightarrow> keyring \<Rightarrow> (string + string list) \<times> keyring" where
  "handle_secret_command typed (SetSecret reference) kr =
     (case keychain_account reference of
        Inl e \<Rightarrow> (Inl (secret_error_text e), kr)
      | Inr account \<Rightarrow>
          (case typed of
             Inl e \<Rightarrow> (Inl e, kr)
           | Inr entered \<Rightarrow>
               (case secret_value entered of
                  Inl e \<Rightarrow> (Inl (secret_error_text e), kr)
                | Inr v \<Rightarrow>
                    (case keychain_set kr reference v of
                       (Inl e, kr') \<Rightarrow> (Inl (secret_error_text e), kr')
                     | (Inr u, kr') \<Rightarrow>
                         (Inr [''Stored '' @ display_ref reference @ '' in the native credential store.''],
                          kr')))))"
| "handle_secret_command typed (DeleteSecret reference) kr =
     (case keychain_account reference of
        Inl e \<Rightarrow> (Inl (secret_error_text e), kr)
      | Inr account \<Rightarrow>
          (case keychain_delete kr reference of
             (Inl e, kr') \<Rightarrow> (Inl (secret_error_text e), kr')
           | (Inr u, kr') \<Rightarrow>
               (Inr [''Deleted '' @ display_ref reference @ '' from the native credential store.''], kr')))"

text \<open>
  \<open>sanitize\<close>: the input is read to its end, as bytes, after the engine is built; standard
  output gets the sanitized text and nothing else.
\<close>

definition run_sanitize ::
  "dlp_ext \<Rightarrow> norm_ext \<Rightarrow> string + dlp_engine \<Rightarrow> string + string \<Rightarrow> string + string" where
  "run_sanitize X N engine input =
     (case engine of
        Inl e \<Rightarrow> Inl e
      | Inr eng \<Rightarrow>
          (case input of
             Inl e \<Rightarrow> Inl e
           | Inr bytes \<Rightarrow> Inr (sanitize_text X N eng (utf8_lossy bytes))))"

subsection \<open>The directory inspector (src/audit.rs)\<close>

text \<open>A directory entry: its name, when it is UTF-8, its mode, and its content.\<close>

record inspected_entry =
  de_name :: "string option"
  de_mode :: "string + nat"
  de_content :: "string option"

datatype inspection_line =
    Step string | Warning string | Failure string | Success string

definition FILES_TO_CHECK :: "string list" where
  "FILES_TO_CHECK = [''.env'', ''openclaw.json'', ''config.json'']"

fun octal :: "nat \<Rightarrow> string" where
  "octal n = (if n < 8 then [char_of (48 + n)] else octal (n div 8) @ [char_of (48 + n mod 8)])"

definition file_name_of :: "inspected_entry \<Rightarrow> string" where
  "file_name_of entry = (case de_name entry of Some n \<Rightarrow> n | None \<Rightarrow> [])"

definition inspect_entry :: "inspected_entry \<Rightarrow> string + inspection_line list" where
  "inspect_entry entry =
     (let name = file_name_of entry in
      if name \<notin> set FILES_TO_CHECK then Inr []
      else (case de_mode entry of
          Inl e \<Rightarrow> Inl e
        | Inr mode \<Rightarrow>
            Inr ([Warning (''Found sensitive config file: '' @ name)] @
              (if mode mod 8 \<noteq> 0
               then [Failure (''CRITICAL: '' @ name @ '' is world-readable! (Mode: '' @ octal mode @ '')'')]
               else []) @
              (if ends_with ''.json'' name
               then (case de_content entry of
                   Some content \<Rightarrow>
                     if contains ''0.0.0.0'' content
                     then [Warning (name @ '' binds to 0.0.0.0 (Potentially exposed)'')] else []
                 | None \<Rightarrow> [])
               else []))))"

fun inspect_entries :: "(string + inspected_entry) list \<Rightarrow> string option \<times> inspection_line list" where
  "inspect_entries [] = (None, [Success ''Audit complete.''])"
| "inspect_entries (Inl e # entries) = (Some e, [])"
| "inspect_entries (Inr entry # entries) =
     (case inspect_entry entry of
        Inl e \<Rightarrow>
          (Some e, [Warning (''Found sensitive config file: '' @ file_name_of entry)])
      | Inr ls \<Rightarrow> (case inspect_entries entries of (err, rest) \<Rightarrow> (err, ls @ rest)))"

text \<open>\<open>dir\<close> is nothing where the path does not exist.\<close>

definition run_audit ::
  "string \<Rightarrow> (string + (string + inspected_entry) list) option \<Rightarrow> string option \<times> inspection_line list" where
  "run_audit path dir =
     (let first = Step (''Auditing directory: '' @ path) in
      case dir of
        None \<Rightarrow> (None, [first, Failure ''Path does not exist.''])
      | Some (Inl e) \<Rightarrow> (Some e, [first])
      | Some (Inr entries) \<Rightarrow> (case inspect_entries entries of (err, ls) \<Rightarrow> (err, first # ls)))"

subsection \<open>The bound on polling\<close>

text \<open>A wire that counts its exchanges.\<close>

definition counted :: "'s wire \<Rightarrow> ('s \<times> nat) wire" where
  "counted W = (\<lambda>url headers body (st, n).
     case W url headers body st of (response, st') \<Rightarrow> (response, (st', Suc n)))"

lemma post_counted:
  "post E (counted W) c read path body (st, n) =
     (case post E W c read path body st of (r, st') \<Rightarrow> (r, (st', Suc n)))"
  by (simp add: post_def counted_def split: prod.split)

lemma poll_counted: "snd (snd (poll_outcome E (counted W) c rid k (st, n))) \<le> n + k"
proof (induction k arbitrary: st n)
  case (Suc k)
  obtain r st' where "client_status E W c rid st = (r, st')" by fastforce
  then have p: "client_status E (counted W) c rid (st, n) = (r, (st', Suc n))"
    by (simp add: client_status_def post_counted)
  have IH: "snd (snd (poll_outcome E (counted W) c rid k (st', Suc n))) \<le> n + Suc k"
    using Suc.IH [of st' "Suc n"] by simp
  show ?case
  proof (cases r)
    case (Inl e)
    with p IH show ?thesis by simp
  next
    case (Inr status)
    with p IH show ?thesis by (simp split: option.split)
  qed
qed simp


subsection \<open>Who gets the result\<close>

lemma client_approve_daemon:
  assumes "codec_ok E" and "D1 = fold (apply_event I) events D"
  shows "client_approve E (daemon_wire E I rejected addr) (new_client addr token) rid code yes
      (D, (events, c) # rest) =
    (reply_view Some ''/v1/approve'' (fst (handle I (handler_call token c D1) (Approve rid code yes) D1)),
     (snd (handle I (handler_call token c D1) (Approve rid code yes) D1), rest))"
  unfolding client_approve_def
  by (rule post_daemon [OF assms(1) decode_request_sent(3) [OF assms(1)] assms(2)]) simp

lemma poll_takes_result:
  assumes "codec_ok E" and "token_ok token"
  shows "token = dm_admin_token D \<or> token = dm_agent_token D \<Longrightarrow>
    poll_outcome E (daemon_wire E I rejected addr) (new_client addr token) rid n (D, sched) =
      (OutcomeResult v, (D', sched')) \<Longrightarrow>
    dm_agent_token D' = dm_agent_token D \<and>
    (\<exists>r x e. snapshot rid (dm_store D') = Some r \<and> req_state r = Completed x True e \<and>
      v = result_to_json x)"
proof (induction n arbitrary: D sched)
  case (Suc n)
  let ?W = "daemon_wire E I rejected addr" and ?c = "new_client addr token"
  show ?case
  proof (cases sched)
    case Nil
    have "client_status E ?W ?c rid (D, []) = (Inl ''broker request /v1/status failed'', (D, []))"
      by (simp add: client_status_def post_def read_response_def)
    with Suc Nil show ?thesis by simp
  next
    case (Cons p rest)
    obtain events c where p: "p = (events, c)" by (cases p)
    define D1 where "D1 = fold (apply_event I) events D"
    define D2 where "D2 = snd (handle I (handler_call token c D1) (Status rid) D1)"
    have tokens1: "dm_admin_token D1 = dm_admin_token D" "dm_agent_token D1 = dm_agent_token D"
      by (simp_all add: D1_def)
    have role: "role_of (bearer token) D1 \<noteq> None"
      using Suc.prems(1) tokens1 by (auto simp: role_of_bearer [OF assms(2)])
    have same2: "dm_agent_token D2 = dm_agent_token D"
      by (simp add: D2_def handle_tokens tokens1 del: handle.simps)
    have tokens2: "token = dm_admin_token D2 \<or> token = dm_agent_token D2"
      using Suc.prems(1) tokens1 by (simp add: D2_def handle_tokens del: handle.simps)
    note st = client_status_daemon [OF assms(1) D1_def role, of rejected addr rid c rest, folded D2_def]
    show ?thesis
    proof (cases "snapshot rid (dm_store D1)")
      case None
      with st Suc.prems(2) Cons p Suc.IH [OF tokens2] same2 show ?thesis by simp
    next
      case (Some r)
      note known = Some
      show ?thesis
      proof (cases "\<exists>x e. req_state r = Completed x False e")
        case True
        then obtain x e where x: "req_state r = Completed x False e" by blast
        with st Suc.prems(2) Cons p known have out: "v = result_to_json x" "D' = D2"
          by (auto simp: status_view_def)
        obtain ro where ro: "role_of (bearer token) D1 = Some ro" using role by blast
        have "\<exists>r'. snapshot rid (dm_store D2) = Some r' \<and> req_state r' = Completed x True e"
          unfolding D2_def by (rule life_status(2) [OF known x]) (use ro in simp_all)
        with out same2 show ?thesis by blast
      next
        case False
        then have "sr_result (status_view r) = None"
          by (auto simp: status_view_def split: request_state.splits bool.splits)
        with st Suc.prems(2) Cons p known Suc.IH [OF tokens2] same2 show ?thesis
          by (auto split: if_splits)
      qed
    qed
  qed
qed simp

text \<open>
  C16 The operator who approves also takes the result: when the approval command shows a
  result, that is the sanitized result of the request, and it is spent; the agent that asked
  for the action is told at its next poll that the result was already delivered, and does
  not get it.
\<close>

theorem approve_takes_result:
  assumes "codec_ok E" and "token_ok (dm_admin_token D)" and "token_ok (dm_agent_token D)"
    and "approve_and_poll E (daemon_wire E I rejected addr) (new_client addr (dm_admin_token D))
      rid code yes (D, sched) = (Inr (OutcomeResult v), (D', ([], c) # rest))"
  shows "\<exists>r x e. snapshot rid (dm_store D') = Some r \<and> req_state r = Completed x True e \<and>
      v = result_to_json x \<and>
      fst (mcp_request_status E (daemon_wire E I rejected addr) (new_client addr (dm_agent_token D))
        rid (D', ([], c) # rest)) =
      Inr (json_obj [(''request_id'', JStr (req_id r)), (''action_id'', JStr (req_action_id r)),
        (''status'', JStr ''completed''), (''note'', JStr ''result already delivered once'')])"
proof -
  let ?W = "daemon_wire E I rejected addr" and ?adm = "new_client addr (dm_admin_token D)"
  obtain events c1 sched1 where sched: "sched = (events, c1) # sched1"
  proof (cases sched)
    case Nil
    with assms(4) have False
      by (simp add: approve_and_poll_def client_approve_def post_def read_response_def)
    then show ?thesis ..
  qed (use that in force)
  define D1 where "D1 = fold (apply_event I) events D"
  let ?h = "handle I (handler_call (dm_admin_token D) c1 D1) (Approve rid code yes) D1"
  have tokens: "dm_admin_token (snd ?h) = dm_admin_token D" "dm_agent_token (snd ?h) = dm_agent_token D"
    by (simp_all add: handle_tokens D1_def del: handle.simps)
  from assms(4) obtain n where poll: "poll_outcome E ?W ?adm rid n (snd ?h, sched1) =
      (OutcomeResult v, (D', ([], c) # rest))"
    unfolding approve_and_poll_def sched client_approve_daemon [OF assms(1) D1_def]
    by (auto split: sum.splits prod.splits)
  from poll_takes_result [OF assms(1,2) _ poll] tokens obtain r x e
    where same: "dm_agent_token D' = dm_agent_token D"
      and r: "snapshot rid (dm_store D') = Some r" "req_state r = Completed x True e" "v = result_to_json x"
    by auto
  have role: "role_of (bearer (dm_agent_token D)) D' \<noteq> None"
    using agent_role [of D'] assms(3) same by simp
  have "fst (mcp_request_status E ?W (new_client addr (dm_agent_token D)) rid (D', ([], c) # rest)) =
      Inr (json_obj [(''request_id'', JStr (req_id r)), (''action_id'', JStr (req_action_id r)),
        (''status'', JStr ''completed''), (''note'', JStr ''result already delivered once'')])"
    unfolding mcp_request_status_def
    using client_status_daemon [OF assms(1) _ role, of I "[]" D'] r by (simp add: status_view_def)
  with r show ?thesis by blast
qed

subsection \<open>From a request over MCP to its execution\<close>

definition request_view :: "request_record \<Rightarrow> client_request" where
  "request_view r =
     \<lparr>cq_id = req_id r, cq_action_id = req_action_id r, cq_reason = req_reason r,
      cq_status = state_name (req_state r),
      cq_code = (case req_state r of Pending code e \<Rightarrow> Some code | _ \<Rightarrow> None)\<rparr>"

lemma client_list_requests_daemon:
  assumes "codec_ok E" and "D1 = fold (apply_event I) events D" and "role_of (bearer token) D1 = Some Admin"
  shows "client_list_requests E (daemon_wire E I rejected addr) (new_client addr token)
      (D, (events, c) # rest) =
    (Inr (map request_view (list_requests (dm_store D1))), (D1, rest))"
proof -
  have entry: "read_client_request (request_entry (ie_time I) r) = Some (request_view r)" for r
    by (cases "req_state r")
      (simp_all add: request_entry_def read_client_request_def request_view_def field_simps')
  have h: "handle I (handler_call token c D1) ListRequests D1 =
      (Reply 200 (json_obj [(''requests'', JArr (map (request_entry (ie_time I)) (list_requests (dm_store D1))))]), D1)"
    using assms(3) by (simp add: list_requests_handler_def admin_guard_def)
  have q: "decode_request E ''/v1/requests'' (ce_print E JNull) = Some ListRequests"
    by (simp add: decode_request_def)
  have "as_list read_client_request (JArr (map (request_entry (ie_time I)) rs)) =
      Some (map request_view rs)" for rs
    using entry by (rule as_list_map)
  then show ?thesis
    unfolding client_list_requests_def post_daemon [OF assms(1) q assms(2) h]
    by (simp add: reply_view_def need_def)
qed

lemma client_approve_ok:
  assumes "codec_ok E" and "D1 = fold (apply_event I) events D" and "role_of (bearer token) D1 = Some Admin"
    and "snapshot rid (dm_store D1) = Some r" and "req_state r = Pending code e"
    and "policy_action (dm_policy D1) (req_action_id r) = Some act" and "c_now1 c < e"
  obtains v D2 where "client_approve E (daemon_wire E I rejected addr) (new_client addr token)
      rid (Some code) False (D, (events, c) # rest) = (Inr v, (D2, rest))"
    and "dm_store D2 = set_state rid r Executing (dm_store D1)" and "(rid, act) \<in> set (dm_tasks D2)"
    and "dm_agent_token D2 = dm_agent_token D1" and "dm_admin_token D2 = dm_admin_token D1"
proof -
  let ?c = "handler_call token c D1" and ?q = "Approve rid (Some code) False"
  have code: "code_of rid (c_seen ?c) = Some code" using assms(4,5) by (simp add: code_of_def)
  have ok: "approve (c_now1 ?c) rid code (dm_store D1) =
      (Inr (req_action_id r), set_state rid r Executing (dm_store D1))"
    using assms(4-7) by (simp add: approve_def snapshot_def ct_eq_iff)
  have eq: "handle I ?c ?q D1 = do_approve ?c rid False code D1"
    using code assms(3) by (simp add: approve_request_def admin_guard_def ct_eq_iff Let_def)
  obtain v where v: "fst (handle I ?c ?q D1) = Reply 200 v"
    unfolding eq using ok assms(6) by (simp add: do_approve_def Let_def)
  note step = life_approve [OF assms(4,5) refl assms(6) _ _ _ refl, of ?c I]
  show ?thesis
  proof (rule that)
    show "client_approve E (daemon_wire E I rejected addr) (new_client addr token) rid (Some code) False
        (D, (events, c) # rest) = (Inr v, (snd (handle I ?c ?q D1), rest))"
      using client_approve_daemon [OF assms(1,2)] v by (simp add: reply_view_def del: handle.simps)
    show "dm_store (snd (handle I ?c ?q D1)) = set_state rid r Executing (dm_store D1)"
      "(rid, act) \<in> set (dm_tasks (snd (handle I ?c ?q D1)))"
      using step assms(3,7) by (simp_all del: handle.simps)
  qed (simp_all add: handle_tokens del: handle.simps)
qed

text \<open>
  C15 A request made over MCP reaches execution through the operator's commands: an agent
  asks for an action of the policy and is given an id; the operator lists the requests and
  finds that id with a code; approving that id with that code, before the deadline, succeeds,
  and the action is then executing, as a task of the daemon.
\<close>

theorem mcp_request_reaches_execution:
  assumes "codec_ok E" and "token_ok (dm_admin_token D)" and "token_ok (dm_agent_token D)"
    and "policy_action (dm_policy D) a = Some act"
    and "c_now1 c3 < c_now2 c1 + pending_ttl (dm_store D)"
    and "mcp_request_action E (daemon_wire E I rejected addr) (new_client addr (dm_agent_token D))
      a reason (D, ([], c1) # ([], c2) # ([], c3) # rest) = (out1, w1)"
    and "client_list_requests E (daemon_wire E I rejected addr) (new_client addr (dm_admin_token D)) w1 =
      (out2, w2)"
  shows "\<exists>created entries entry code v D3 r.
    out1 = Inr created \<and> obj_get created ''request_id'' = Some (JStr (c_rid c1)) \<and>
    out2 = Inr entries \<and> entry \<in> set entries \<and> cq_id entry = c_rid c1 \<and> cq_code entry = Some code \<and>
    client_approve E (daemon_wire E I rejected addr) (new_client addr (dm_admin_token D))
      (c_rid c1) (Some code) False w2 = (Inr v, (D3, rest)) \<and>
    snapshot (c_rid c1) (dm_store D3) = Some r \<and> req_state r = Executing \<and>
    (c_rid c1, act) \<in> set (dm_tasks D3)"
proof -
  let ?W = "daemon_wire E I rejected addr" and ?adm = "new_client addr (dm_admin_token D)"
  let ?c1 = "handler_call (dm_agent_token D) c1 D"
  define D1 where "D1 = snd (handle I ?c1 (CreateRequest a reason) D)"
  have role1: "role_of (bearer (dm_agent_token D)) D \<noteq> None" using agent_role [OF assms(3)] .
  note req = client_request_daemon [OF assms(1) _ role1, of I "[]" D rejected addr a reason c1, folded D1_def]
  from assms(4,6) req have w1: "w1 = (D1, ([], c2) # ([], c3) # rest)"
    and out1: "\<exists>created. out1 = Inr created \<and> obj_get created ''request_id'' = Some (JStr (c_rid c1))"
    by (auto simp: mcp_request_action_def obj_get_json_obj)
  from life_create [OF assms(4) _ D1_def] role1 obtain r code
    where r: "snapshot (c_rid c1) (dm_store D1) = Some r"
      "req_state r = Pending code (c_now2 c1 + pending_ttl (dm_store D))" "req_action_id r = a"
      "req_id r = c_rid c1"
    by auto
  have same: "dm_admin_token D1 = dm_admin_token D" "dm_policy D1 = dm_policy D"
    by (simp_all add: D1_def handle_tokens handle_policy del: handle.simps)
  have role2: "role_of (bearer (dm_admin_token D)) D1 = Some Admin"
    using same by (simp add: role_of_bearer [OF assms(2)])
  from assms(7) client_list_requests_daemon [OF assms(1) _ role2, of I "[]" D1]
  have out2: "out2 = Inr (map request_view (list_requests (dm_store D1)))"
    and w2: "w2 = (D1, ([], c3) # rest)" by (simp_all add: w1)
  have "r \<in> set (list_requests (dm_store D1))"
    using r(1) by (force simp: list_requests_def snapshot_def dest: map_of_SomeD)
  then have entry: "request_view r \<in> set (map request_view (list_requests (dm_store D1)))" by simp
  obtain v D3 where "client_approve E ?W ?adm (c_rid c1) (Some code) False w2 = (Inr v, (D3, rest))"
    and store: "dm_store D3 = set_state (c_rid c1) r Executing (dm_store D1)"
    and "(c_rid c1, act) \<in> set (dm_tasks D3)"
  proof -
    have D1: "D1 = fold (apply_event I) [] D1" and act: "policy_action (dm_policy D1) (req_action_id r) = Some act"
      using assms(4) r(3) same(2) by simp_all
    show ?thesis
      by (rule client_approve_ok [OF assms(1) D1 role2 r(1,2) act assms(5), of rejected addr rest])
        (rule that [unfolded w2])
  qed
  moreover have "snapshot (c_rid c1) (dm_store D3) = Some (r\<lparr>req_state := Executing\<rparr>)"
    "req_state (r\<lparr>req_state := Executing\<rparr>) = Executing"
    by (simp_all add: store)
  moreover have "cq_id (request_view r) = c_rid c1" "cq_code (request_view r) = Some code"
    using r(2,4) by (simp_all add: request_view_def)
  ultimately show ?thesis using out1 out2 entry by blast
qed

subsection \<open>Witnesses\<close>

definition op_store :: request_store where
  "op_store = \<lparr>pending_ttl = 120, result_ttl = 300, requests = [(''ab'',
     \<lparr>req_id = ''ab'', req_action_id = ''restart-nginx'', req_reason = [], req_created_at = 7,
      req_purge_at = 420, req_state = Pending ''222222'' 120\<rparr>)]\<rparr>"

definition op_daemon :: daemon where
  "op_daemon = sample_daemon\<lparr>dm_store := op_store\<rparr>"

definition op_call :: call where
  "op_call = agent_call op_store"

definition op_wire :: "world wire" where
  "op_wire = daemon_wire sample_codec sample_ipc (\<lambda>p b. (404, [])) ''h''"

lemma op_tokens: "dm_admin_token op_daemon = ''b2''" "dm_agent_token op_daemon = ''a1''"
  by (simp_all add: op_daemon_def sample_daemon_def)

lemma op_tokens_ok: "token_ok (dm_admin_token op_daemon)" "token_ok (dm_agent_token op_daemon)"
  by (simp_all add: op_tokens token_ok_def header_to_str_def)

lemma op_policy: "policy_action (dm_policy op_daemon) ''restart-nginx'' = Some (hd sample_actions)"
  by (simp add: op_daemon_def sample_daemon_def sample_policy_def policy_action_def sample_actions_def
      sample_raw_def action_of_raw_def)

lemma mcp_request_reaches_execution_witness:
  "\<exists>code v D3. client_approve sample_codec op_wire (new_client ''h'' ''b2'') ''cd'' (Some code) False
     (snd (client_list_requests sample_codec op_wire (new_client ''h'' ''b2'')
       (snd (mcp_request_action sample_codec op_wire (new_client ''h'' ''a1'') ''restart-nginx'' []
         (op_daemon, ([], op_call) # ([], op_call) # ([], op_call) # []))))) = (Inr v, (D3, [])) \<and>
     (''cd'', hd sample_actions) \<in> set (dm_tasks D3)"
proof -
  let ?w = "(op_daemon, ([], op_call) # ([], op_call) # ([], op_call) # [])"
  obtain out1 w1 where 1: "mcp_request_action sample_codec op_wire (new_client ''h'' ''a1'')
      ''restart-nginx'' [] ?w = (out1, w1)" by (meson surj_pair)
  obtain out2 w2 where 2: "client_list_requests sample_codec op_wire (new_client ''h'' ''b2'') w1 =
      (out2, w2)" by (meson surj_pair)
  have late: "c_now1 op_call < c_now2 op_call + pending_ttl (dm_store op_daemon)" "c_rid op_call = ''cd''"
    by (simp_all add: op_call_def agent_call_def op_daemon_def op_store_def)
  note reached = mcp_request_reaches_execution [OF sample_codec_ok op_tokens_ok op_policy late(1),
      unfolded op_tokens, OF 1 [unfolded op_wire_def] 2 [unfolded op_wire_def], folded op_wire_def]
  show ?thesis unfolding 1 2 snd_conv using reached late(2) by auto
qed

text \<open>A run of the approval command: the action finishes before the first poll.\<close>

definition op_schedule :: "(daemon_event list \<times> call) list" where
  "op_schedule = [([], op_call), ([Finishing 0 2 ''t'' (''ab'', hd sample_actions)], op_call), ([], op_call)]"

lemma op_run:
  "\<exists>v D'. approve_and_poll sample_codec op_wire (new_client ''h'' ''b2'') ''ab'' (Some ''222222'') False
     (op_daemon, op_schedule) = (Inr (OutcomeResult v), (D', [([], op_call)]))"
proof -
  have role: "role_of (bearer ''b2'') op_daemon = Some Admin"
    using role_of_bearer [OF op_tokens_ok(1), of op_daemon] by (simp add: op_tokens)
  obtain r where r: "snapshot ''ab'' (dm_store op_daemon) = Some r" "req_state r = Pending ''222222'' 120"
    "req_action_id r = ''restart-nginx''"
    by (simp add: snapshot_def op_daemon_def op_store_def)
  have D: "op_daemon = fold (apply_event sample_ipc) [] op_daemon" by simp
  have act: "policy_action (dm_policy op_daemon) (req_action_id r) = Some (hd sample_actions)"
    unfolding r(3) by (rule op_policy)
  have now: "c_now1 op_call < 120" by (simp add: op_call_def agent_call_def)
  obtain w D2 where ap: "client_approve sample_codec op_wire (new_client ''h'' ''b2'') ''ab'' (Some ''222222'')
      False (op_daemon, ([], op_call) # tl op_schedule) = (Inr w, (D2, tl op_schedule))"
    and store: "dm_store D2 = set_state ''ab'' r Executing (dm_store op_daemon)"
    and tok: "dm_admin_token D2 = dm_admin_token op_daemon"
    unfolding op_wire_def
    using client_approve_ok [OF sample_codec_ok D role r(1,2) act now] by blast
  define D3 where "D3 = fold (apply_event sample_ipc) [Finishing 0 2 ''t'' (''ab'', hd sample_actions)] D2"
  obtain x where "dm_store D3 = Broker_State.complete 2 ''ab'' x (dm_store D2)"
    by (simp add: D3_def finish_task_def Let_def)
  moreover have "snapshot ''ab'' (dm_store D2) = Some (r\<lparr>req_state := Executing\<rparr>)"
    by (simp add: store)
  ultimately obtain r3 e where r3: "snapshot ''ab'' (dm_store D3) = Some r3" "req_state r3 = Completed x False e"
    by (simp add: Broker_State.complete_def snapshot_def set_state_def update_conv')
  have role3: "role_of (bearer ''b2'') D3 \<noteq> None"
  proof -
    have "dm_admin_token D3 = dm_admin_token D2" unfolding D3_def by (rule events_setup(3))
    with tok show ?thesis using role_of_bearer [OF op_tokens_ok(1), of D3] by (simp add: op_tokens)
  qed
  have st: "fst (client_status sample_codec op_wire (new_client ''h'' ''b2'') ''ab'' (D2, tl op_schedule)) =
      Inr (status_view r3)"
    "snd (snd (client_status sample_codec op_wire (new_client ''h'' ''b2'') ''ab'' (D2, tl op_schedule))) =
      [([], op_call)]"
    unfolding op_wire_def using client_status_daemon [OF sample_codec_ok D3_def role3] r3(1)
    by (simp_all add: op_schedule_def)
  obtain D4 where st': "client_status sample_codec op_wire (new_client ''h'' ''b2'') ''ab'' (D2, tl op_schedule) =
      (Inr (status_view r3), (D4, [([], op_call)]))"
    using st by (metis prod.collapse)
  have poll: "poll_outcome sample_codec op_wire (new_client ''h'' ''b2'') ''ab'' (Suc n) (D2, tl op_schedule) =
      (OutcomeResult (result_to_json x), (D4, [([], op_call)]))" for n
    using st' r3(2) by (simp add: status_view_def)
  have "MAX_POLLS = Suc 39" by (simp add: MAX_POLLS_def)
  moreover have "([], op_call) # tl op_schedule = op_schedule" by (simp add: op_schedule_def)
  ultimately show ?thesis using ap poll [of 39] by (auto simp: approve_and_poll_def)
qed

lemma approve_takes_result_witness:
  "\<exists>r :: request_record. fst (mcp_request_status sample_codec op_wire (new_client ''h'' ''a1'') ''ab''
     (snd (approve_and_poll sample_codec op_wire (new_client ''h'' ''b2'') ''ab'' (Some ''222222'') False
       (op_daemon, op_schedule)))) =
   Inr (json_obj [(''request_id'', JStr (req_id r)), (''action_id'', JStr (req_action_id r)),
     (''status'', JStr ''completed''), (''note'', JStr ''result already delivered once'')])"
proof -
  from op_run obtain v D' where run: "approve_and_poll sample_codec op_wire (new_client ''h'' ''b2'') ''ab''
      (Some ''222222'') False (op_daemon, op_schedule) = (Inr (OutcomeResult v), (D', [([], op_call)]))"
    by blast
  show ?thesis
    using approve_takes_result [OF sample_codec_ok op_tokens_ok, unfolded op_tokens,
      OF run [unfolded op_wire_def], folded op_wire_def]
    unfolding run snd_conv by blast
qed

end
