(* ===== verification/Bench.thy ===== *)
theory Bench
  imports Startup
begin

section \<open>The leak-detection benchmark (src/bench.rs)\<close>

text \<open>
  The benchmark runs labelled cases through the router that \<open>start\<close> serves, against a mock
  upstream, and judges what crossed the wire.  Here it drives the model of the handler
  (\<open>Server.handler\<close>), so the harness and the service meet.  Parameters: the reader of the
  corpus files, how the HTTP stack turns a case into an incoming request, and the decimal form
  of a floating-point number in the reports.  A percentage is a rational number: the comparison with the
  bound, which a floating-point number represents, is the same.  The lemmas show what a
  passed gate means, and that the statistics count what they say.
\<close>

subsection \<open>Corpus\<close>

record bench_case =
  bs_id :: string
  bs_category :: string
  bs_direction :: string
  bs_expect :: string
  bs_secret :: "string option"
  bs_secret_parts :: "string list option"
  bs_body :: string
  bs_path :: string
  bs_content_type :: string
  bs_response_body :: "string option"
  bs_response_content_type :: string
  bs_response_mode :: string
  bs_known_gap :: bool
  bs_note :: "string option"

text \<open>A file of the corpus directory: its name, extension, and content.\<close>

record corpus_file =
  cf_name :: string
  cf_extension :: "string option"
  cf_content :: "string + string"

fun read_corpus_files ::
  "(string \<Rightarrow> string + bench_case list) \<Rightarrow> (string \<Rightarrow> string) \<Rightarrow> corpus_file list \<Rightarrow> string + bench_case list"
  where
  "read_corpus_files toml path [] = Inr []"
| "read_corpus_files toml path (f # fs) =
     (case cf_content f of
        Inl e \<Rightarrow> Inl (''cannot read corpus file '' @ path (cf_name f))
      | Inr content \<Rightarrow>
          (case toml content of
             Inl e \<Rightarrow> Inl (''invalid corpus file '' @ path (cf_name f))
           | Inr cases \<Rightarrow> map_sum id ((@) cases) (read_corpus_files toml path fs)))"

fun first_repeated :: "string list \<Rightarrow> string list \<Rightarrow> string option" where
  "first_repeated seen [] = None"
| "first_repeated seen (x # xs) = (if x \<in> set seen then Some x else first_repeated (x # seen) xs)"

text \<open>The entries that can be read, by name; \<open>listing\<close> is nothing for an unreadable directory.\<close>

definition load_corpus ::
  "(string \<Rightarrow> string + bench_case list) \<Rightarrow> (string \<Rightarrow> string) \<Rightarrow> string \<Rightarrow> corpus_file list option \<Rightarrow>
   string + bench_case list" where
  "load_corpus toml path dir listing =
     (case listing of
        None \<Rightarrow> Inl (''cannot read corpus directory '' @ dir)
      | Some entries \<Rightarrow>
          (let files = sort_key cf_name (filter (\<lambda>f. cf_extension f = Some ''toml'') entries) in
           case read_corpus_files toml path files of
             Inl e \<Rightarrow> Inl e
           | Inr cases \<Rightarrow>
               (case first_repeated [] (map bs_id cases) of
                  Some i \<Rightarrow> Inl (''duplicate corpus case id: '' @ i)
                | None \<Rightarrow>
                    if cases = [] then Inl (''corpus at '' @ dir @ '' contains no cases'') else Inr cases)))"

definition SECRET_MARK :: string where
  "SECRET_MARK = ''{{SECRET}}''"

text \<open>\<open>body.matches(mark).count()\<close>: what lies between two marks, minus one.\<close>

function count_marks :: "string \<Rightarrow> nat" where
  "count_marks s = (case split_once SECRET_MARK s of None \<Rightarrow> 0 | Some (a, b) \<Rightarrow> Suc (count_marks b))"
  by auto
termination
  by (relation "measure length") (auto dest: split_once_SomeD simp: SECRET_MARK_def)

declare count_marks.simps [simp del]

definition quoted :: "string \<Rightarrow> string" where
  "quoted s = SQ @ s @ SQ"

definition validate_case :: "bench_case \<Rightarrow> string option" where
  "validate_case c =
     (let bad = (\<lambda>broken what. if broken then Some (''case '' @ bs_id c @ '': '' @ what) else None) in
      first_error
        [bad (bs_category c \<notin> {''plain'', ''evasion'', ''placement'', ''policy'', ''response'', ''benign''})
           (''invalid category '' @ quoted (bs_category c)),
         bad (bs_direction c \<notin> {''request'', ''response''})
           (''invalid direction '' @ quoted (bs_direction c)),
         bad (bs_expect c \<notin> {''redact'', ''block'', ''allow'', ''restore'', ''neutralize''})
           (''invalid expect '' @ quoted (bs_expect c)),
         bad (bs_response_mode c \<notin> {''preset'', ''echo'', ''model_echo''})
           (''invalid response_mode '' @ quoted (bs_response_mode c)),
         bad (bs_direction c = ''response'' \<and> bs_response_body c = None \<and>
             bs_response_mode c \<noteq> ''model_echo'')
           ''response direction needs response_body'',
         bad (bs_expect c = ''restore'' \<and> bs_response_mode c \<noteq> ''echo'')
           (''restore expectation requires response_mode = '' @ [CHR 0x22] @ ''echo'' @ [CHR 0x22]),
         bad (bs_expect c = ''neutralize'' \<and> bs_response_mode c \<noteq> ''model_echo'')
           (''neutralize expectation requires response_mode = '' @ [CHR 0x22] @ ''model_echo'' @ [CHR 0x22]),
         bad (bs_expect c = ''allow'' \<and> bs_category c \<noteq> ''benign'')
           (quoted ''allow'' @ '' is reserved for benign cases''),
         bad ((bs_direction c = ''response'' \<or> bs_expect c = ''restore'') \<and> bs_secret c = None \<and>
             bs_secret_parts c = None)
           ''this expectation needs a secret literal'',
         bad (bs_secret_parts c = Some []) ''secret_parts cannot be empty'',
         bad (bs_secret_parts c \<noteq> None \<and> count_marks (bs_body c) \<noteq> 1)
           ''secret_parts requires exactly one {{SECRET}} in body''])"

definition materialize :: "bench_case \<Rightarrow> string \<times> string" where
  "materialize c =
     (case bs_secret_parts c of
        Some parts \<Rightarrow> (str_replace SECRET_MARK (concat parts) (bs_body c), concat parts)
      | None \<Rightarrow> (bs_body c, case bs_secret c of Some s \<Rightarrow> s | None \<Rightarrow> []))"

subsection \<open>The mock upstream\<close>

datatype mock_response = Echo | ModelEcho bool | Preset string string

definition mock_for :: "bench_case \<Rightarrow> mock_response option" where
  "mock_for c =
     (if bs_response_mode c = ''echo'' then Some Echo
      else if bs_response_mode c = ''model_echo''
      then Some (ModelEcho (contains ''event-stream'' (bs_response_content_type c)))
      else (case bs_response_body c of
          Some body \<Rightarrow> Some (Preset (bs_response_content_type c) body) | None \<Rightarrow> None))"

text \<open>The first placeholder token in a text.\<close>

definition first_token :: "string \<Rightarrow> string option" where
  "first_token received =
     (case split_once PLACEHOLDER_PREFIX received of
        None \<Rightarrow> None
      | Some (a, rest) \<Rightarrow>
          (case split_once [CHR 0x5D, CHR 0x5D] (PLACEHOLDER_PREFIX @ rest) of
             None \<Rightarrow> None
           | Some (x, y) \<Rightarrow> Some (x @ [CHR 0x5D, CHR 0x5D])))"

definition mock_reply :: "string \<Rightarrow> string \<Rightarrow> upstream_response" where
  "mock_reply content_type body =
     \<lparr>ur_status = 200, ur_headers = [(''content-type'', content_type)], ur_chunks = [Inr body]\<rparr>"

definition EMDASH :: string where
  "EMDASH = [CHR 0xE2, CHR 0x80, CHR 0x94]"

definition upstream_capture :: "proxy_ext \<Rightarrow> mock_response option \<Rightarrow> string \<Rightarrow> upstream_response" where
  "upstream_capture P response body =
     (case (case response of
          Some m \<Rightarrow> m
        | None \<Rightarrow> Preset ''application/json'' ([CHR 0x7B, CHR 0x22] @ ''ok'' @ [CHR 0x22] @ '':true}'')) of
        Echo \<Rightarrow>
          (let received = utf8_lossy body in
           mock_reply ''application/json'' (px_print P (json_obj [(''echo'',
             (case px_parse P received of Inr v \<Rightarrow> v | Inl e \<Rightarrow> JStr received))])))
      | ModelEcho sse \<Rightarrow>
          (let token = (case first_token (utf8_lossy body) of
                 Some t \<Rightarrow> t | None \<Rightarrow> ''no placeholder received'');
               completion = px_print P (json_obj [(''choices'', JArr [json_obj
                 [(''index'', JNum (PosInt 0)),
                  (''message'', json_obj [(''role'', JStr ''assistant''),
                     (''content'', JStr (''sure '' @ EMDASH @ '' using '' @ token @ '' as requested''))]),
                  (''finish_reason'', JStr ''stop'')]])])
           in if sse
              then mock_reply ''text/event-stream'' (''data: '' @ completion @ [LF, LF] @ ''data: '' @
                [CHR 0x5B] @ ''DONE'' @ [CHR 0x5D, LF, LF])
              else mock_reply ''application/json'' completion)
      | Preset content_type text_body \<Rightarrow> mock_reply content_type text_body)"

subsection \<open>Judging one exchange\<close>

record observed =
  ob_status :: nat
  ob_forwarded :: bool
  ob_leaked :: bool
  ob_redacted :: bool
  ob_restored :: bool
  ob_placeholder_visible :: bool
  ob_upstream_mutated :: bool
  ob_block_detail :: "string option"

definition expectation_met :: "string \<Rightarrow> observed \<Rightarrow> bool" where
  "expectation_met expect o' \<longleftrightarrow>
     (if expect = ''allow'' then ob_forwarded o' \<and> \<not> ob_upstream_mutated o' \<and> ob_status o' = 200
      else if expect = ''block'' then ob_status o' = 403 \<and> \<not> ob_forwarded o'
      else if expect = ''redact'' then ob_forwarded o' \<and> \<not> ob_leaked o'
      else if expect = ''restore'' then ob_forwarded o' \<and> \<not> ob_leaked o' \<and> ob_restored o'
      else if expect = ''neutralize''
      then ob_forwarded o' \<and> \<not> ob_leaked o' \<and> \<not> ob_placeholder_visible o'
      else False)"

definition semantically_different :: "(string \<Rightarrow> string + json) \<Rightarrow> string \<Rightarrow> string \<Rightarrow> bool" where
  "semantically_different parse original seen \<longleftrightarrow>
     (case (parse original, parse seen) of
        (Inr a, Inr b) \<Rightarrow> a \<noteq> b
      | _ \<Rightarrow> original \<noteq> seen)"

definition extract_block_detail :: "(string \<Rightarrow> string + json) \<Rightarrow> string \<Rightarrow> string option" where
  "extract_block_detail parse client_body =
     (case parse client_body of
        Inl e \<Rightarrow> None
      | Inr v \<Rightarrow> Option.bind (obj_get v ''details'') as_str)"

definition REVERSIBLE_PLACEHOLDER :: string where
  "REVERSIBLE_PLACEHOLDER = [CHR 0x5B, CHR 0x5B] @ ''GUARDIAN_REDACTED''"

text \<open>
  \<open>client_body\<close> is what the client received, \<open>upstream_body\<close> what the upstream did.
\<close>

definition observe ::
  "(string \<Rightarrow> string + json) \<Rightarrow> bench_case \<Rightarrow> string \<Rightarrow> string \<Rightarrow> nat \<Rightarrow> string \<Rightarrow> string option \<Rightarrow> observed"
  where
  "observe parse c request_body secret status client_body upstream_body =
     (let up = (\<lambda>P. case upstream_body of Some b \<Rightarrow> P b | None \<Rightarrow> False) in
      \<lparr>ob_status = status,
       ob_forwarded = (upstream_body \<noteq> None),
       ob_leaked = (if bs_direction c = ''response'' then secret \<noteq> [] \<and> contains secret client_body
                    else up (\<lambda>b. secret \<noteq> [] \<and> contains secret b)),
       ob_redacted = (if bs_direction c = ''response''
                      then (case bs_response_body c of Some preset \<Rightarrow> client_body \<noteq> preset | None \<Rightarrow> False)
                      else up (contains REVERSIBLE_PLACEHOLDER)),
       ob_restored = (bs_response_mode c = ''echo'' \<and> secret \<noteq> [] \<and> contains secret client_body),
       ob_placeholder_visible = contains REVERSIBLE_PLACEHOLDER client_body,
       ob_upstream_mutated = up (semantically_different parse request_body),
       ob_block_detail = (if status = 403 then extract_block_detail parse client_body else None)\<rparr>)"

record case_outcome =
  oc_id :: string
  oc_category :: string
  oc_direction :: string
  oc_expect :: string
  oc_known_gap :: bool
  oc_status :: nat
  oc_forwarded :: bool
  oc_leaked :: bool
  oc_redacted :: bool
  oc_restored :: bool
  oc_passed :: bool
  oc_block_detail :: "string option"
  oc_note :: "string option"

definition outcome_of :: "bench_case \<Rightarrow> observed \<Rightarrow> case_outcome" where
  "outcome_of c o' =
     \<lparr>oc_id = bs_id c, oc_category = bs_category c, oc_direction = bs_direction c,
      oc_expect = bs_expect c, oc_known_gap = bs_known_gap c, oc_status = ob_status o',
      oc_forwarded = ob_forwarded o', oc_leaked = ob_leaked o', oc_redacted = ob_redacted o',
      oc_restored = ob_restored o', oc_passed = (bs_known_gap c \<or> expectation_met (bs_expect c) o'),
      oc_block_detail = ob_block_detail o', oc_note = bs_note c\<rparr>"

subsection \<open>The run\<close>

text \<open>
  What the handler sends upstream for a request, if anything: the body the mock records.
\<close>

definition captured :: "server_ext \<Rightarrow> incoming \<Rightarrow> app_state \<Rightarrow> string option" where
  "captured S req st =
     (case prepare S req st of
        (Inl response, st') \<Rightarrow> None
      | (Inr opts, st') \<Rightarrow>
          (case build_upstream_request (sx_proxy S) (as_secrets st') opts of
             Inl e \<Rightarrow> None | Inr r \<Rightarrow> Some (up_body r)))"

definition exchange ::
  "server_ext \<Rightarrow> (bench_case \<Rightarrow> string \<Rightarrow> incoming) \<Rightarrow> bench_case \<Rightarrow> app_state \<Rightarrow> case_outcome \<times> app_state"
  where
  "exchange S incoming_of c st =
     (let (request_body, secret) = materialize c;
          req = incoming_of c request_body;
          mock = (\<lambda>r. Inr (upstream_capture (sx_proxy S) (mock_for c) (up_body r)));
          (response, st') = handler S mock req st
      in (outcome_of c (observe (px_parse (sx_proxy S)) c request_body secret (hr_status response)
            (utf8_lossy (hr_body response)) (map_option utf8_lossy (captured S req st))), st'))"

fun run_cases ::
  "server_ext \<Rightarrow> (bench_case \<Rightarrow> string \<Rightarrow> incoming) \<Rightarrow> bench_case list \<Rightarrow> app_state \<Rightarrow> case_outcome list" where
  "run_cases S incoming_of [] st = []"
| "run_cases S incoming_of (c # cs) st =
     (case exchange S incoming_of c st of (o', st') \<Rightarrow> o' # run_cases S incoming_of cs st')"

subsection \<open>Summary and gate\<close>

record category_stat =
  cs_name :: string
  cs_total :: nat
  cs_forwarded :: nat
  cs_blocked :: nat
  cs_redacted :: nat
  cs_leaked :: nat

definition was_blocked :: "case_outcome \<Rightarrow> bool" where
  "was_blocked o' \<longleftrightarrow> \<not> oc_forwarded o' \<and> oc_status o' = 403"

definition bump :: "case_outcome \<Rightarrow> category_stat \<Rightarrow> category_stat" where
  "bump o' s = s\<lparr>cs_total := cs_total s + 1, cs_forwarded := cs_forwarded s + of_bool (oc_forwarded o'),
     cs_blocked := cs_blocked s + of_bool (was_blocked o'),
     cs_redacted := cs_redacted s + of_bool (oc_redacted o'),
     cs_leaked := cs_leaked s + of_bool (oc_leaked o')\<rparr>"

definition new_stat :: "string \<Rightarrow> category_stat" where
  "new_stat name = \<lparr>cs_name = name, cs_total = 0, cs_forwarded = 0, cs_blocked = 0, cs_redacted = 0,
     cs_leaked = 0\<rparr>"

text \<open>The entry of the category is counted up where it is, or added at the end.\<close>

fun count_outcome :: "case_outcome \<Rightarrow> category_stat list \<Rightarrow> category_stat list" where
  "count_outcome o' [] = [bump o' (new_stat (oc_category o'))]"
| "count_outcome o' (s # stats) =
     (if cs_name s = oc_category o' then bump o' s # stats else s # count_outcome o' stats)"

record bench_summary =
  bn_engine_version :: string
  bn_rules_file :: string
  bn_rules_bytes :: nat
  bn_rule_count :: nat
  bn_corpus_dir :: string
  bn_total_cases :: nat
  bn_categories :: "category_stat list"
  bn_outcomes :: "case_outcome list"
  bn_false_positives :: nat
  bn_benign_total :: nat

text \<open>The version of Cargo.toml, which the build sets.\<close>

definition ENGINE_VERSION :: string where
  "ENGINE_VERSION = ''0.6.1''"

definition summarize ::
  "case_outcome list \<Rightarrow> string \<Rightarrow> string \<Rightarrow> nat \<Rightarrow> nat \<Rightarrow> bench_summary" where
  "summarize outcomes corpus_dir rules_file rules_bytes rule_count =
     \<lparr>bn_engine_version = ENGINE_VERSION, bn_rules_file = rules_file, bn_rules_bytes = rules_bytes,
      bn_rule_count = rule_count, bn_corpus_dir = corpus_dir, bn_total_cases = length outcomes,
      bn_categories = sort_key cs_name (foldl (\<lambda>stats o'. count_outcome o' stats) [] outcomes),
      bn_outcomes = outcomes,
      bn_false_positives = length (filter (\<lambda>o'. oc_category o' = ''benign'' \<and> \<not> oc_passed o') outcomes),
      bn_benign_total = length (filter (\<lambda>o'. oc_category o' = ''benign'') outcomes)\<rparr>"

definition MAX_FALSE_POSITIVE_PERCENT :: rat where
  "MAX_FALSE_POSITIVE_PERCENT = 2"

definition false_positive_percent :: "bench_summary \<Rightarrow> rat" where
  "false_positive_percent s =
     (if bn_benign_total s = 0 then 0
      else 100 * of_nat (bn_false_positives s) / of_nat (bn_benign_total s))"

definition gate_failures :: "bench_summary \<Rightarrow> case_outcome list" where
  "gate_failures s = filter (\<lambda>o'. \<not> oc_known_gap o' \<and> \<not> oc_passed o') (bn_outcomes s)"

definition known_gaps :: "bench_summary \<Rightarrow> case_outcome list" where
  "known_gaps s = filter oc_known_gap (bn_outcomes s)"

definition gate_passed :: "bench_summary \<Rightarrow> bool" where
  "gate_passed s \<longleftrightarrow>
     gate_failures s = [] \<and> false_positive_percent s \<le> MAX_FALSE_POSITIVE_PERCENT"

text \<open>The settings the benchmark gives the router.\<close>

definition proxy_config :: "string \<Rightarrow> string \<Rightarrow> server_config" where
  "proxy_config mock_addr rules_file =
     \<lparr>sv_bind_address = ''127.0.0.1'', sv_port = 0, sv_default_upstream = ''http://'' @ mock_addr,
      sv_routes = [], sv_audit_log_path = None, sv_requests_per_minute = Some 0,
      sv_timeout_seconds = 30, sv_dlp_config = default_dlp_config\<lparr>rules_files := [rules_file]\<rparr>,
      sv_load_balancer = None, sv_security = None, sv_vault = None\<rparr>"

text \<open>
  \<open>run\<close> without its reports: with the gate on, a failed gate is an error.  \<open>size_of\<close> is the
  length of a file, nothing where it cannot be read.
\<close>

definition run_bench ::
  "startup_env \<Rightarrow> server_ext \<Rightarrow> (bench_case \<Rightarrow> string \<Rightarrow> incoming) \<Rightarrow> (string \<Rightarrow> nat option) \<Rightarrow>
   string \<Rightarrow> string + bench_case list \<Rightarrow> string option \<Rightarrow> string \<Rightarrow> bool \<Rightarrow> string + bench_summary" where
  "run_bench E S incoming_of size_of corpus_dir corpus rules mock_addr gate =
     (case corpus of
        Inl e \<Rightarrow> Inl e
      | Inr cases \<Rightarrow>
          (case first_error (map validate_case cases) of
             Some e \<Rightarrow> Inl e
           | None \<Rightarrow>
               (let rules_file = (case rules of Some r \<Rightarrow> r | None \<Rightarrow> hd (rules_files default_dlp_config))
                in case build_router E (proxy_config mock_addr rules_file) of
                     Inl e \<Rightarrow> Inl e
                   | Inr (st, rule_count) \<Rightarrow>
                       (let summary = summarize (run_cases S incoming_of cases st) corpus_dir rules_file
                              (unwrap_or (size_of rules_file) 0) rule_count
                        in if gate \<and> \<not> gate_passed summary
                           then Inl ''detection benchmark gate failed'' else Inr summary))))"

subsection \<open>What a passed gate means\<close>

lemma run_cases_outcomes:
  "list_all2 (\<lambda>c o'. \<exists>st. o' = fst (exchange S incoming_of c st)) cs (run_cases S incoming_of cs st)"
proof (induction cs arbitrary: st)
  case (Cons c cs)
  then show ?case by (auto simp: case_prod_beta)
qed simp

lemma exchange_outcome:
  "oc_known_gap (fst (exchange S incoming_of c st)) = bs_known_gap c"
  "oc_expect (fst (exchange S incoming_of c st)) = bs_expect c"
  "oc_known_gap (fst (exchange S incoming_of c st)) \<Longrightarrow> oc_passed (fst (exchange S incoming_of c st))"
  by (simp_all add: exchange_def outcome_of_def case_prod_beta Let_def)

text \<open>A documented gap counts as passed, so the bound on false positives never decides.\<close>

lemma gate_has_no_tolerance:
  assumes "\<And>o'. o' \<in> set os \<Longrightarrow> oc_known_gap o' \<Longrightarrow> oc_passed o'"
  shows "gate_passed (summarize os dir rf bytes n) \<longleftrightarrow> (\<forall>o' \<in> set os. oc_passed o')"
    and "gate_passed (summarize os dir rf bytes n) \<Longrightarrow> bn_false_positives (summarize os dir rf bytes n) = 0"
proof -
  have iff: "gate_failures (summarize os dir rf bytes n) = [] \<longleftrightarrow> (\<forall>o' \<in> set os. oc_passed o')"
    using assms by (auto simp: gate_failures_def summarize_def filter_empty_conv)
  moreover have "bn_false_positives (summarize os dir rf bytes n) = 0" if "\<forall>o' \<in> set os. oc_passed o'"
    using that by (simp add: summarize_def filter_empty_conv)
  ultimately show "gate_passed (summarize os dir rf bytes n) \<longleftrightarrow> (\<forall>o' \<in> set os. oc_passed o')"
    and "gate_passed (summarize os dir rf bytes n) \<Longrightarrow> bn_false_positives (summarize os dir rf bytes n) = 0"
    by (auto simp: gate_passed_def false_positive_percent_def MAX_FALSE_POSITIVE_PERCENT_def)
qed

subsection \<open>The reports\<close>

text \<open>
  The generated document and the printed summary.  \<open>fixed n x\<close> is the decimal form of the
  floating-point number for \<open>x\<close> with \<open>n\<close> places.
\<close>

definition note_text :: "case_outcome \<Rightarrow> string" where
  "note_text o' = unwrap_or (oc_note o') []"

definition stat_row :: "category_stat \<Rightarrow> string" where
  "stat_row s = ''| '' @ join_with '' | '' (cs_name s # map nat_dec [cs_total s, cs_forwarded s, cs_blocked s,
     cs_redacted s, cs_leaked s]) @ '' |'' @ [LF]"

definition gap_row :: "case_outcome \<Rightarrow> string" where
  "gap_row gap =
     (let what = (if oc_leaked gap then ''secret crossed the wire''
          else if oc_forwarded gap then ''forwarded without redaction''
          else ''status '' @ nat_dec (oc_status gap))
      in ''| `'' @ oc_id gap @ ''` | '' @ what @ '' | '' @ note_text gap @ '' |'' @ [LF])"

definition DOC_INTRO :: "string list" where
  "DOC_INTRO =
     [''# Detection benchmark'', '''',
      ''> Generated by `open-guardian bench` from `benchmarks/corpus/`. Do not edit'',
      ''> by hand: CI regenerates this document and rejects drift, and any leak or'',
      ''> missed detection on the gated corpus fails the build.'', '''']"

text \<open>The blank line inside the last item is in the source.\<close>

definition DOC_METHOD :: "string list" where
  "DOC_METHOD =
     [''## Methodology'', '''',
      ''- Every case drives the full production pipeline over real loopback HTTP '' @ EMDASH,
      ''  smuggling checks, rate limiting, field extraction, the DLP engine, the'',
      ''  obfuscation probe, forwarding, and response-side inspection '' @ EMDASH @ '' using the'',
      ''  same router `open-guardian start` serves.'',
      ''- The mock upstream records the exact bytes that crossed the wire; a'',
      ''  **leak** means the literal secret appeared in what the upstream received'',
      ''  (request cases) or what the client received (response cases).'',
      ''- Evasion cases (encoding, entities, homoglyphs, zero-width characters)'',
      ''  must be rejected fail-closed, not forwarded.'',
      ''- `restore` cases prove the differentiator: the upstream only ever sees'',
      ''  placeholders, while the local client gets the original value back.'',
      ''- Benign cases must arrive semantically unchanged (JSON-semantic compare,'', '''',
      ''  since the proxy legitimately re-serializes bodies).'']"

definition doc_lines :: "string list \<Rightarrow> string" where
  "doc_lines ls = concat (map (\<lambda>l. l @ [LF]) ls)"

definition gaps_section :: "case_outcome list \<Rightarrow> string" where
  "gaps_section gaps = doc_lines [''## Known gaps (documented, not gated)'', ''''] @
     (if gaps = [] then doc_lines [''None.'', '''']
      else doc_lines [''| Case | What happens | Note |'', ''| --- | --- | --- |''] @
        concat (map gap_row gaps) @ [LF])"

definition render_docs :: "(nat \<Rightarrow> rat \<Rightarrow> string) \<Rightarrow> bench_summary \<Rightarrow> string" where
  "render_docs fixed s =
     doc_lines DOC_INTRO @
     doc_lines [''- Engine: open-guardian v'' @ bn_engine_version s,
       ''- Rules file: `'' @ bn_rules_file s @ ''` ('' @ nat_dec (bn_rules_bytes s) @ '' bytes, '' @
         nat_dec (bn_rule_count s) @ '' rules)'',
       ''- Corpus: '' @ nat_dec (bn_total_cases s) @ '' cases'', '''',
       ''## Results'', '''',
       ''| Category | Cases | Forwarded | Blocked | Redacted | Leaks |'',
       ''| --- | ---: | ---: | ---: | ---: | ---: |''] @
     concat (map stat_row (bn_categories s)) @
     doc_lines ['''', ''False positives on the benign corpus: '' @ nat_dec (bn_false_positives s) @ ''/'' @
         nat_dec (bn_benign_total s) @ '' ('' @ fixed 1 (false_positive_percent s) @
         ''%), tolerated maximum '' @ fixed 0 MAX_FALSE_POSITIVE_PERCENT @ ''%.'', ''''] @
     gaps_section (known_gaps s) @ doc_lines DOC_METHOD"

text \<open>Printed: a step, a line, a warning, a success or an error.\<close>

datatype printed = PStep string | PLine string | PWarning string | PSuccess string | PError string

definition pad_left :: "nat \<Rightarrow> string \<Rightarrow> string" where
  "pad_left n t = replicate (n - length (utf8_chars t)) (CHR '' '') @ t"

definition stat_line :: "category_stat \<Rightarrow> string" where
  "stat_line s = ''  '' @ cs_name s @ replicate (10 - length (utf8_chars (cs_name s))) (CHR '' '') @ '' '' @
     pad_left 3 (nat_dec (cs_total s)) @ '' cases | forwarded '' @ pad_left 3 (nat_dec (cs_forwarded s)) @
     '' | blocked '' @ pad_left 3 (nat_dec (cs_blocked s)) @
     '' | redacted '' @ pad_left 3 (nat_dec (cs_redacted s)) @ '' | LEAKS '' @ nat_dec (cs_leaked s)"

definition print_summary :: "(nat \<Rightarrow> rat \<Rightarrow> string) \<Rightarrow> bench_summary \<Rightarrow> printed list" where
  "print_summary fixed s =
     (let gaps = known_gaps s; failures = gate_failures s in
      PStep (''Benchmark: '' @ nat_dec (bn_total_cases s) @ '' cases, '' @ nat_dec (bn_rule_count s) @
        '' rule(s) from '' @ bn_rules_file s) #
      map (\<lambda>st. PLine (stat_line st)) (bn_categories s) @
      [PLine (''  false positives: '' @ nat_dec (bn_false_positives s) @ ''/'' @ nat_dec (bn_benign_total s) @
        '' benign ('' @ fixed 1 (false_positive_percent s) @ ''%)'')] @
      (if gaps = [] then []
       else PWarning (''known gaps (documented, not gated): '' @ nat_dec (length gaps)) #
         map (\<lambda>g. PLine (''  - '' @ oc_id g @ '' '' @ [CHR 0x5B] @ note_text g @ [CHR 0x5D])) gaps) @
      [if failures = [] then PSuccess ''gate: PASS (0 leaks, 0 misses on gated cases)''
       else PError (''gate: '' @ nat_dec (length failures) @ '' gating failure(s)'')])"

definition show_bool :: "bool \<Rightarrow> string" where
  "show_bool b = (if b then ''true'' else ''false'')"

definition gate_errors :: "(nat \<Rightarrow> rat \<Rightarrow> string) \<Rightarrow> bench_summary \<Rightarrow> printed list" where
  "gate_errors fixed s =
     PError (''benchmark gate failed: '' @ nat_dec (length (gate_failures s)) @ '' case(s), '' @
       fixed 1 (false_positive_percent s) @ ''% false positives'') #
     map (\<lambda>f. PError (''  case '' @ oc_id f @ '' (expect '' @ oc_expect f @ ''): status='' @
         nat_dec (oc_status f) @ '', forwarded='' @ show_bool (oc_forwarded f) @ '', leaked='' @
         show_bool (oc_leaked f) @ '', redacted='' @ show_bool (oc_redacted f))) (gate_failures s)"

text \<open>
  What a run shows once its summary stands: the document if it was asked for, then the
  printed lines, with the failures at the end when the gate is on and fails.
\<close>

definition bench_reports ::
  "(nat \<Rightarrow> rat \<Rightarrow> string) \<Rightarrow> bool \<Rightarrow> bool \<Rightarrow> bench_summary \<Rightarrow> string option \<times> printed list" where
  "bench_reports fixed gate docs s =
     (if docs then Some (render_docs fixed s) else None,
      print_summary fixed s @ (if gate \<and> \<not> gate_passed s then gate_errors fixed s else []))"

text \<open>
  The closing line tells the truth about the gate: a pass is printed exactly when the gate
  passes, since the bound on false positives never decides.
\<close>

lemma printed_pass_iff:
  assumes "\<And>o'. o' \<in> set os \<Longrightarrow> oc_known_gap o' \<Longrightarrow> oc_passed o'"
  shows "last (print_summary fixed (summarize os dir rf bytes n)) =
      PSuccess ''gate: PASS (0 leaks, 0 misses on gated cases)'' \<longleftrightarrow>
    gate_passed (summarize os dir rf bytes n)"
proof -
  have "gate_failures (summarize os dir rf bytes n) = [] \<longleftrightarrow> (\<forall>o' \<in> set os. oc_passed o')"
    using assms by (auto simp: gate_failures_def summarize_def filter_empty_conv)
  with gate_has_no_tolerance(1) [OF assms, of os dir rf bytes n] show ?thesis
    by (simp add: print_summary_def Let_def)
qed

text \<open>A case that expects redaction but names no secret passes whenever it is forwarded.\<close>

lemma redact_without_secret_passes:
  assumes "bs_expect c = ''redact''" and "snd (materialize c) = []"
  shows "expectation_met (bs_expect c) (observe parse c body (snd (materialize c)) status client (Some b))"
  using assms by (simp add: expectation_met_def observe_def)

text \<open>One exchange of the handler with the mock upstream, as the judgement sees it.\<close>

definition leak_free ::
  "(string \<Rightarrow> string + json) \<Rightarrow> bench_case \<Rightarrow> http_response \<Rightarrow> string option \<Rightarrow> bool" where
  "leak_free parse c response sent \<longleftrightarrow>
     (let secret = snd (materialize c); client = utf8_lossy (hr_body response) in
      (bs_expect c = ''block'' \<longrightarrow> sent = None \<and> hr_status response = 403) \<and>
      (bs_expect c \<noteq> ''block'' \<longrightarrow> sent \<noteq> None) \<and>
      (bs_expect c \<in> {''redact'', ''restore'', ''neutralize''} \<and> secret \<noteq> [] \<longrightarrow>
         (if bs_direction c = ''response'' then \<not> contains secret client
          else \<not> contains secret (utf8_lossy (the sent)))) \<and>
      (bs_expect c = ''restore'' \<longrightarrow> secret \<noteq> [] \<and> contains secret client) \<and>
      (bs_expect c = ''neutralize'' \<longrightarrow> \<not> contains REVERSIBLE_PLACEHOLDER client) \<and>
      (bs_expect c = ''allow'' \<longrightarrow> hr_status response = 200 \<and>
         \<not> semantically_different parse (fst (materialize c)) (utf8_lossy (the sent))))"

lemma passed_leak_free:
  assumes "oc_passed (fst (exchange S incoming_of c st))" and "\<not> bs_known_gap c"
  defines "req \<equiv> incoming_of c (fst (materialize c))"
  shows "bs_expect c \<in> {''allow'', ''block'', ''redact'', ''restore'', ''neutralize''} \<and>
    leak_free (px_parse (sx_proxy S)) c
      (fst (handler S (\<lambda>r. Inr (upstream_capture (sx_proxy S) (mock_for c) (up_body r))) req st))
      (captured S req st)"
proof -
  let ?mock = "\<lambda>r. Inr (upstream_capture (sx_proxy S) (mock_for c) (up_body r))"
  let ?resp = "fst (handler S ?mock req st)"
  have met: "expectation_met (bs_expect c) (observe (px_parse (sx_proxy S)) c (fst (materialize c))
      (snd (materialize c)) (hr_status ?resp) (utf8_lossy (hr_body ?resp))
      (map_option utf8_lossy (captured S req st)))"
    using assms(1,2) by (simp add: exchange_def outcome_of_def case_prod_beta Let_def req_def)
  then have known: "bs_expect c \<in> {''allow'', ''block'', ''redact'', ''restore'', ''neutralize''}"
    by (auto simp: expectation_met_def split: if_splits)
  then consider "bs_expect c = ''allow''" | "bs_expect c = ''block''" | "bs_expect c = ''redact''"
    | "bs_expect c = ''restore''" | "bs_expect c = ''neutralize''" by blast
  then have "leak_free (px_parse (sx_proxy S)) c ?resp (captured S req st)"
    using met by cases (auto simp: leak_free_def expectation_met_def observe_def Let_def)
  with known show ?thesis by blast
qed


subsection \<open>The statistics count what they say\<close>

definition stat_of :: "case_outcome list \<Rightarrow> string \<Rightarrow> category_stat" where
  "stat_of os name =
     (let mine = filter (\<lambda>o'. oc_category o' = name) os in
      \<lparr>cs_name = name, cs_total = length mine, cs_forwarded = length (filter oc_forwarded mine),
       cs_blocked = length (filter was_blocked mine), cs_redacted = length (filter oc_redacted mine),
       cs_leaked = length (filter oc_leaked mine)\<rparr>)"

lemma stat_of_snoc:
  "stat_of (os @ [o']) name =
     (if oc_category o' = name then bump o' (stat_of os name) else stat_of os name)"
  by (simp add: stat_of_def bump_def Let_def)

lemma count_outcome_map:
  assumes "distinct names" and "oc_category o' \<notin> set names \<Longrightarrow>
    stat_of os (oc_category o') = new_stat (oc_category o')"
  shows "count_outcome o' (map (stat_of os) names) =
    map (stat_of (os @ [o'])) (if oc_category o' \<in> set names then names else names @ [oc_category o'])"
  using assms
proof (induction names)
  case Nil
  then show ?case by (simp add: stat_of_snoc)
next
  case (Cons x names)
  have name: "cs_name (stat_of os x) = x" by (simp add: stat_of_def Let_def)
  show ?case
  proof (cases "x = oc_category o'")
    case True
    with Cons.prems(1) have "map (stat_of os) names = map (stat_of (os @ [o'])) names"
      by (auto simp: stat_of_snoc)
    with True name show ?thesis by (simp add: stat_of_snoc)
  next
    case False
    with Cons name show ?thesis by (auto simp: stat_of_snoc)
  qed
qed

lemma foldl_counts:
  "\<exists>names. distinct names \<and> set names = oc_category ` set os \<and>
     foldl (\<lambda>stats o'. count_outcome o' stats) [] os = map (stat_of os) names"
proof (induction os rule: rev_induct)
  case (snoc o' os)
  then obtain names where names: "distinct names" "set names = oc_category ` set os"
    and eq: "foldl (\<lambda>stats o'. count_outcome o' stats) [] os = map (stat_of os) names" by blast
  have new: "stat_of os (oc_category o') = new_stat (oc_category o')" if "oc_category o' \<notin> set names"
  proof -
    have "oc_category x \<noteq> oc_category o'" if "x \<in> set os" for x
      using that \<open>oc_category o' \<notin> set names\<close> unfolding names(2) by (metis image_eqI)
    then have "filter (\<lambda>x. oc_category x = oc_category o') os = []" by (simp add: filter_empty_conv)
    then show ?thesis by (simp add: stat_of_def new_stat_def)
  qed
  let ?names = "if oc_category o' \<in> set names then names else names @ [oc_category o']"
  have "foldl (\<lambda>stats o'. count_outcome o' stats) [] (os @ [o']) = map (stat_of (os @ [o'])) ?names"
    unfolding foldl_append eq foldl.simps by (rule count_outcome_map [OF names(1)]) (rule new)
  moreover have "distinct ?names" "set ?names = oc_category ` set (os @ [o'])"
    using names by auto
  ultimately show ?case by blast
qed simp

lemma sort_key_map_names: "sort_key cs_name (map (stat_of os) names) = map (stat_of os) (sort names)"
proof -
  have "insort_key cs_name (stat_of os x) (map (stat_of os) ys) = map (stat_of os) (insort x ys)" for x ys
    by (induction ys) (simp_all add: stat_of_def Let_def)
  then show ?thesis by (induction names) simp_all
qed

text \<open>
  The statistics of a run are its outcomes, counted: one line for each category that
  occurs, in order of their names, and on it exactly the number of outcomes of that category,
  and how many of these were forwarded, rejected with 403 before anything was sent, redacted
  and leaked.
\<close>

theorem summary_counts:
  "bn_categories (summarize os dir rf bytes n) =
     map (stat_of os) (sorted_list_of_set (oc_category ` set os))"
proof -
  obtain names where names: "distinct names" "set names = oc_category ` set os"
    and eq: "foldl (\<lambda>stats o'. count_outcome o' stats) [] os = map (stat_of os) names"
    using foldl_counts by blast
  have "sorted_list_of_set (set names) = sort names"
    using names(1) by (simp add: sorted_list_of_set_sort_remdups distinct_remdups_id)
  with names eq show ?thesis
    by (simp add: summarize_def sort_key_map_names)
qed

subsection \<open>Witness\<close>

text \<open>A case that must be rejected: its path climbs out of the root.\<close>

definition sample_case :: bench_case where
  "sample_case = \<lparr>bs_id = ''climb'', bs_category = ''policy'', bs_direction = ''request'',
     bs_expect = ''block'', bs_secret = None, bs_secret_parts = None, bs_body = ''{}'',
     bs_path = ''/a/../b'', bs_content_type = ''application/json'', bs_response_body = None,
     bs_response_content_type = ''application/json'', bs_response_mode = ''preset'',
     bs_known_gap = False, bs_note = None\<rparr>"

definition sample_incoming_of :: "bench_case \<Rightarrow> string \<Rightarrow> incoming" where
  "sample_incoming_of c body = sample_incoming\<lparr>in_path := drop 1 (bs_path c), in_body := body\<rparr>"

lemma sample_case_rejected:
  "\<exists>r st'. prepare sample_server (sample_incoming_of sample_case body) st = (Inl r, st') \<and> hr_status r = 403"
proof -
  have "contains_proxy_path_traversal ''/a/../b''" by code_simp
  then show ?thesis
    by (simp add: prepare_def sample_incoming_of_def sample_case_def Let_def block_response_def)
qed

lemma sample_case_exchange:
  "oc_passed (fst (exchange sample_server sample_incoming_of sample_case st))"
proof -
  from sample_case_rejected obtain r st' where
    "prepare sample_server (sample_incoming_of sample_case (fst (materialize sample_case))) st = (Inl r, st')"
    and "hr_status r = 403" by blast
  then show ?thesis
    by (simp add: exchange_def outcome_of_def captured_def handler_def observe_def expectation_met_def
        case_prod_beta Let_def) (simp add: sample_case_def)
qed

lemma sample_bench:
  "\<exists>summary. run_bench sample_startup sample_server sample_incoming_of (\<lambda>f. None) ''c'' (Inr [sample_case]) None ''m'' True =
     Inr summary \<and> gate_passed summary"
proof -
  have valid: "validate_case sample_case = None"
    unfolding sample_case_def validate_case_def by simp
  have "\<exists>st n. build_router sample_startup (proxy_config ''m'' (hd (rules_files default_dlp_config))) =
      Inr (st, n)"
  proof -
    have "assemble_secret_broker sample_startup None = Inr (snd (register ''keychain''
        (keychain_resolve (su_keyring sample_startup)) (snd (register ''env'' (env_resolve
          (su_getenv sample_startup)) new_broker))))"
      by (simp add: assemble_secret_broker_def registered_def register_def new_broker_def
          env.scheme_valid keychain.scheme_valid)
    then show ?thesis
      by (simp add: sample_startup_def needle_ext_def build_router_def proxy_config_def server_engine_def
          build_engine_def default_dlp_config_def unwrap_or_def integrity_gate_def get_hmac_key_def
          sample_paths_def Let_def)
  qed
  then obtain st n where router: "build_router sample_startup
      (proxy_config ''m'' (hd (rules_files default_dlp_config))) = Inr (st, n)" by blast
  have "gate_passed (summarize (run_cases sample_server sample_incoming_of [sample_case] st) ''c''
      (hd (rules_files default_dlp_config)) 0 n)"
    using sample_case_exchange [of st] by (subst gate_has_no_tolerance(1)) (auto simp: case_prod_beta)
  with router valid show ?thesis by (auto simp: run_bench_def unwrap_or_def Let_def)
qed


end
