(* ===== verification/Service.thy ===== *)
theory Service
  imports Startup "HOL-Library.Multiset"
begin

section \<open>The running proxy: concurrent requests, the limiter and the log (src/server.rs)\<close>

text \<open>
  The proxy as it runs after \<open>build_router\<close>.  Requests share only the rate limiter, behind its
  lock, and the queue of the audit writer, to which a request sends its events one at a time.
  A step relation interleaves them: a request is served at the moment it holds the limiter,
  its events are then in flight and reach the queue one by one, in order, between those of
  other requests; the prune task runs in between.  Every request gets the answer of an upstream
  of its own, since the network answers as it likes.  Clock readings do not go back, as
  \<open>std::time::Instant\<close> documents.

  The lemmas lift the components to the whole: the settings never change and the state stays
  well formed, a client stays within its budget also across pruning, what the proxy refuses is
  on record, and what the writer makes of the queue verifies across restarts.
\<close>

subsection \<open>What a request logs\<close>

definition logged :: "json list \<Rightarrow> json list option \<Rightarrow> json list option" where
  "logged evs = map_option (\<lambda>q. q @ evs)"

lemma logged_Nil [simp]: "logged [] a = a"
  by (cases a) (simp_all add: logged_def)

lemma logged_logged [simp]: "logged es (logged ds a) = logged (ds @ es) a"
  by (cases a) (simp_all add: logged_def)

definition request_events :: "server_ext \<Rightarrow> incoming \<Rightarrow> app_state \<Rightarrow> json list" where
  "request_events S req st =
     (case as_audit (snd (prepare S req (st\<lparr>as_audit := Some []\<rparr>))) of Some q \<Rightarrow> q | None \<Rightarrow> [])"

definition proxy_event :: "json \<Rightarrow> bool" where
  "proxy_event e \<longleftrightarrow> is_obj e \<and> event_ok e"

lemma proxy_event_obj:
  assumes "list_all (\<lambda>(k, v). k \<noteq> ''hash'' \<and> plain_json v) kvs"
  shows "proxy_event (json_obj kvs)"
proof -
  have "plain_json (json_obj kvs)"
    by (rule plain_json_obj) (use assms in \<open>auto simp: list_all_iff\<close>)
  moreover have "obj_get (json_obj kvs) ''hash'' = None"
    unfolding obj_get_json_obj using assms
    by (auto simp: list_all_iff map_of_eq_None_iff)
  ultimately show ?thesis
    by (auto simp: proxy_event_def is_obj_def event_ok_def json_obj_def obj_get_def)
qed

lemma log_security_event_logged:
  "log_security_event event a = logged [json_obj event] a"
  by (simp add: log_security_event_def logged_def)

lemma proxy_events [simp]:
  "proxy_event (json_obj [(''timestamp'', JStr t), (''event'', JStr e), (''reason'', JStr r)])"
  "proxy_event (json_obj [(''timestamp'', JStr t), (''event'', JStr e), (''path'', JStr r)])"
  "proxy_event (json_obj [(''timestamp'', JStr t), (''event'', JStr e), (''client_ip'', JStr r)])"
  "proxy_event (json_obj [(''timestamp'', JStr t), (''event'', JStr e), (''path'', JStr r),
     (''category'', JStr c), (''description'', JStr d)])"
  by (rule proxy_event_obj, simp)+

lemma scan_target_step_log:
  "\<exists>evs. list_all proxy_event evs \<and>
    (fst (scan_target_step S st ts path t sc) \<noteq> None \<longrightarrow> evs \<noteq> []) \<and>
    (\<forall>a b. scan_target_step S (st\<lparr>as_audit := b\<rparr>) ts path t (sc\<lparr>sc_audit := a\<rparr>) =
      (fst (scan_target_step S st ts path t sc),
       (snd (scan_target_step S st ts path t sc))\<lparr>sc_audit := logged evs a\<rparr>))"
proof (cases "raw t = []")
  case True
  then show ?thesis by (intro exI [of _ "[]"]) (simp add: scan_target_step_def Let_def)
next
  case some: False
  let ?X = "px_dlp (sx_proxy S)" and ?E = "as_engine st"
  show ?thesis
  proof (cases "if as_action st = Block then check_violations ?X ?E (raw t) else None")
    case (Some leak)
    with some show ?thesis
      by (intro exI [of _ "[json_obj [(''timestamp'', JStr ts), (''event'', JStr ''dlp_blocked''),
            (''path'', JStr path), (''category'', JStr (vio_category leak)),
            (''description'', JStr (vio_description leak))]]"])
        (simp add: scan_target_step_def Let_def log_security_event_logged)
  next
    case clean: None
    obtain cleaned session' where r: "redact_at ?X (sc_session sc) (raw t) ?E (Some (json_pointer t)) =
        (cleaned, session')" by (cases "redact_at ?X (sc_session sc) (raw t) ?E (Some (json_pointer t))")
    let ?w = "if cleaned \<noteq> raw t then replace_scan_target (sc_body sc) t cleaned else (True, sc_body sc)"
    let ?red = "if cleaned \<noteq> raw t then [json_obj [(''timestamp'', JStr ts),
        (''event'', JStr ''data_redacted''), (''path'', JStr path)]] else []"
    let ?probe = "if block_on_obfuscated (eng_config ?E)
        then check_violations ?X ?E (normalize_for_matching (sx_norm S) cleaned) else None"
    obtain applied body' where w: "?w = (applied, body')" by (cases ?w)
    show ?thesis
    proof (cases applied)
      case False
      with w have "cleaned \<noteq> raw t" by (auto split: if_splits)
      with some clean r w False show ?thesis
        by (intro exI [of _ ?red]) (simp add: scan_target_step_def Let_def log_security_event_logged)
    next
      case True
      show ?thesis
      proof (cases ?probe)
        case (Some leak)
        with some clean r w True show ?thesis
          by (intro exI [of _ "?red @ [json_obj [(''timestamp'', JStr ts),
                (''event'', JStr ''dlp_obfuscated_blocked''), (''path'', JStr path),
                (''category'', JStr (vio_category leak)), (''description'', JStr (vio_description leak))]]"])
            (auto simp: scan_target_step_def Let_def log_security_event_logged split: if_splits)
      next
        case None
        with some clean r w True show ?thesis
          by (intro exI [of _ ?red])
            (auto simp: scan_target_step_def Let_def log_security_event_logged split: if_splits)
      qed
    qed
  qed
qed

lemma scan_loop_log:
  "\<exists>evs. list_all proxy_event evs \<and>
    (fst (scan_loop S st ts path targets sc) \<noteq> None \<longrightarrow> evs \<noteq> []) \<and>
    (\<forall>a b. scan_loop S (st\<lparr>as_audit := b\<rparr>) ts path targets (sc\<lparr>sc_audit := a\<rparr>) =
      (fst (scan_loop S st ts path targets sc),
       (snd (scan_loop S st ts path targets sc))\<lparr>sc_audit := logged evs a\<rparr>))"
proof (induction targets arbitrary: sc)
  case Nil
  then show ?case by (intro exI [of _ "[]"]) simp
next
  case (Cons t targets)
  obtain r sc1 where step: "scan_target_step S st ts path t sc = (r, sc1)"
    by (cases "scan_target_step S st ts path t sc")
  from scan_target_step_log [of S st ts path t sc] obtain es where es: "list_all proxy_event es"
    "r \<noteq> None \<Longrightarrow> es \<noteq> []"
    "\<And>a b. scan_target_step S (st\<lparr>as_audit := b\<rparr>) ts path t (sc\<lparr>sc_audit := a\<rparr>) =
      (r, sc1\<lparr>sc_audit := logged es a\<rparr>)"
    by (auto simp: step)
  show ?case
  proof (cases r)
    case (Some response)
    with es step show ?thesis by (intro exI [of _ es]) simp
  next
    case None
    from Cons.IH [of sc1] obtain fs where fs: "list_all proxy_event fs"
      "fst (scan_loop S st ts path targets sc1) \<noteq> None \<Longrightarrow> fs \<noteq> []"
      "\<And>a b. scan_loop S (st\<lparr>as_audit := b\<rparr>) ts path targets (sc1\<lparr>sc_audit := a\<rparr>) =
        (fst (scan_loop S st ts path targets sc1),
         (snd (scan_loop S st ts path targets sc1))\<lparr>sc_audit := logged fs a\<rparr>)"
      by blast
    with es step None show ?thesis by (intro exI [of _ "es @ fs"]) simp
  qed
qed

lemma prepare_json_log:
  "\<exists>evs. list_all proxy_event evs \<and>
    (\<forall>response. fst (prepare_json S req path v st) = Inl response \<longrightarrow> evs \<noteq> []) \<and>
    (\<forall>a. prepare_json S req path v (st\<lparr>as_audit := a\<rparr>) =
      (fst (prepare_json S req path v st),
       (snd (prepare_json S req path v st))\<lparr>as_audit := logged evs a\<rparr>))"
proof -
  let ?m = "case Option.bind (obj_get v ''model'') as_str of Some m \<Rightarrow> m | None \<Rightarrow> ''default''"
  let ?body = "set_model (Option.bind (map_of (as_routes st) ?m) rt_model) v"
  let ?sc = "\<lparr>sc_body = ?body, sc_session = new_session (in_nonce req), sc_content = [],
    sc_audit = as_audit st\<rparr>"
  let ?loop = "scan_loop S st (in_ts req) path (extract_scan_targets ?body) ?sc"
  from scan_loop_log [of S st "in_ts req" path "extract_scan_targets ?body" ?sc] obtain evs where
    evs: "list_all proxy_event evs" "fst ?loop \<noteq> None \<Longrightarrow> evs \<noteq> []"
    "\<And>a b. scan_loop S (st\<lparr>as_audit := b\<rparr>) (in_ts req) path (extract_scan_targets ?body)
      (?sc\<lparr>sc_audit := a\<rparr>) = (fst ?loop, (snd ?loop)\<lparr>sc_audit := logged evs a\<rparr>)"
    by blast
  obtain r sc where loop: "?loop = (r, sc)" by (cases ?loop)
  have bal: "balance S (st\<lparr>as_audit := b\<rparr>) (sc\<lparr>sc_audit := a\<rparr>) url c = balance S st sc url c" for a b url c
    by (simp add: balance_def split: option.splits)
  have opts: "options_for (st\<lparr>as_audit := b\<rparr>) = options_for st" for b
    by (simp add: fun_eq_iff options_for_def)
  have "prepare_json S req path v (st\<lparr>as_audit := a\<rparr>) =
      (fst (prepare_json S req path v st), (snd (prepare_json S req path v st))\<lparr>as_audit := logged evs a\<rparr>)"
    for a
    using evs(3) [of a a] loop
    by (simp add: prepare_json_def Let_def bal opts split: option.splits prod.splits)
  moreover have "evs \<noteq> []" if "fst (prepare_json S req path v st) = Inl response" for response
    using that evs(2) loop by (auto simp: prepare_json_def Let_def split: option.splits prod.splits)
  ultimately show ?thesis using evs(1) by blast
qed

lemma prepare_other_audit: "prepare_other S req path (st\<lparr>as_audit := a\<rparr>) = prepare_other S req path st"
  by (simp add: prepare_other_def options_for_def Let_def cong: option.case_cong)

lemma rate_check_audit:
  "rate_check req (st\<lparr>as_audit := a\<rparr>) = (fst (rate_check req st), (snd (rate_check req st))\<lparr>as_audit := a\<rparr>)"
  by (simp add: rate_check_def split: option.splits prod.splits)

text \<open>A request stopped before its body is looked at, or with a body that is JSON.\<close>

definition screened :: "server_ext \<Rightarrow> incoming \<Rightarrow> app_state \<Rightarrow> bool" where
  "screened S req st \<longleftrightarrow>
     hs_blocked (check_request_headers (lower_of S) (sx_upper S) (in_headers req) (in_method req)
       default_smuggling_config) \<or>
     contains_proxy_path_traversal (''/'' @ in_path req) \<or> \<not> fst (rate_check req st) \<or>
     sx_from_slice S (in_body req) \<noteq> None"

lemma prepare_log_ex:
  "\<exists>evs. list_all proxy_event evs \<and>
    (\<forall>response. fst (prepare S req st) = Inl response \<longrightarrow> screened S req st \<longrightarrow> evs \<noteq> []) \<and>
    (\<not> screened S req st \<longrightarrow> evs = []) \<and>
    (\<forall>a. prepare S req (st\<lparr>as_audit := a\<rparr>) =
      (fst (prepare S req st), (snd (prepare S req st))\<lparr>as_audit := logged evs a\<rparr>))"
proof -
  let ?h = "check_request_headers (lower_of S) (sx_upper S) (in_headers req) (in_method req)
    default_smuggling_config"
  let ?path = "''/'' @ in_path req"
  obtain ok st1 where rate: "rate_check req st = (ok, st1)" by (cases "rate_check req st")
  consider (header) "hs_blocked ?h" | (traversal) "\<not> hs_blocked ?h" "contains_proxy_path_traversal ?path"
    | (limited) "\<not> hs_blocked ?h" "\<not> contains_proxy_path_traversal ?path" "\<not> ok"
    | (other) "\<not> hs_blocked ?h" "\<not> contains_proxy_path_traversal ?path" "ok"
        "sx_from_slice S (in_body req) = None"
    | (json) v where "\<not> hs_blocked ?h" "\<not> contains_proxy_path_traversal ?path" "ok"
        "sx_from_slice S (in_body req) = Some v"
    by blast
  then show ?thesis
  proof cases
    case header
    then show ?thesis
      by (intro exI [of _ "[json_obj [(''timestamp'', JStr (in_ts req)),
          (''event'', JStr ''smuggling_blocked''), (''reason'', JStr (case hs_reason ?h of
             Some r \<Rightarrow> r | None \<Rightarrow> ''Unknown smuggling attempt''))]]"])
        (simp add: prepare_def screened_def Let_def log_security_event_logged)
  next
    case traversal
    then show ?thesis
      by (intro exI [of _ "[json_obj [(''timestamp'', JStr (in_ts req)),
          (''event'', JStr ''path_traversal_blocked''), (''path'', JStr ?path)]]"])
        (simp add: prepare_def screened_def Let_def log_security_event_logged)
  next
    case limited
    with rate show ?thesis
      by (intro exI [of _ "[json_obj [(''timestamp'', JStr (in_ts req)),
          (''event'', JStr ''rate_limited''), (''client_ip'', JStr (in_ip req))]]"])
        (simp add: prepare_def screened_def Let_def log_security_event_logged rate_check_audit)
  next
    case other
    with rate show ?thesis
      by (intro exI [of _ "[]"])
        (simp add: prepare_def screened_def Let_def prepare_other_audit rate_check_audit)
  next
    case json
    from prepare_json_log [of S req ?path v st1] json rate show ?thesis
      by (elim exE) (rule exI, auto simp: prepare_def screened_def Let_def rate_check_audit)
  qed
qed

lemma prepare_log:
  shows prepare_events: "list_all proxy_event (request_events S req st)"
    and prepare_refused: "fst (prepare S req st) = Inl response \<Longrightarrow> screened S req st \<Longrightarrow>
      request_events S req st \<noteq> []"
    and prepare_silent: "\<not> screened S req st \<Longrightarrow> request_events S req st = []"
    and prepare_queue: "prepare S req (st\<lparr>as_audit := a\<rparr>) =
      (fst (prepare S req st), (snd (prepare S req st))\<lparr>as_audit := logged (request_events S req st) a\<rparr>)"
proof -
  from prepare_log_ex [of S req st] obtain evs where evs: "list_all proxy_event evs"
    "\<And>response. fst (prepare S req st) = Inl response \<Longrightarrow> screened S req st \<Longrightarrow> evs \<noteq> []"
    "\<not> screened S req st \<Longrightarrow> evs = []"
    "\<And>a. prepare S req (st\<lparr>as_audit := a\<rparr>) =
      (fst (prepare S req st), (snd (prepare S req st))\<lparr>as_audit := logged evs a\<rparr>)"
    by blast
  have "request_events S req st = evs" by (simp add: request_events_def evs(4) logged_def)
  with evs show "list_all proxy_event (request_events S req st)"
    and "fst (prepare S req st) = Inl response \<Longrightarrow> screened S req st \<Longrightarrow> request_events S req st \<noteq> []"
    and "\<not> screened S req st \<Longrightarrow> request_events S req st = []"
    and "prepare S req (st\<lparr>as_audit := a\<rparr>) =
      (fst (prepare S req st), (snd (prepare S req st))\<lparr>as_audit := logged (request_events S req st) a\<rparr>)"
    by simp_all
qed

lemma handler_state: "snd (handler S send req st) = snd (prepare S req st)"
  by (simp add: handler_def split: prod.splits sum.splits)

text \<open>The handler appends exactly these events to the queue, if there is one.\<close>

lemma handler_queue:
  "as_audit (snd (handler S send req st)) = logged (request_events S req st) (as_audit st)"
proof -
  have "snd (prepare S req (st\<lparr>as_audit := as_audit st\<rparr>)) =
      (snd (prepare S req st))\<lparr>as_audit := logged (request_events S req st) (as_audit st)\<rparr>"
    unfolding prepare_queue by simp
  then have "as_audit (snd (prepare S req st)) = logged (request_events S req st) (as_audit st)"
    by (metis app_state.surjective app_state.update_convs(7) app_state.select_convs(7))
  then show ?thesis by (simp add: handler_state)
qed

text \<open>What serving a request does to the state of the proxy.\<close>

definition reaches_limiter :: "server_ext \<Rightarrow> incoming \<Rightarrow> bool" where
  "reaches_limiter S req \<longleftrightarrow>
     \<not> hs_blocked (check_request_headers (lower_of S) (sx_upper S) (in_headers req) (in_method req)
       default_smuggling_config) \<and>
     \<not> contains_proxy_path_traversal (''/'' @ in_path req)"

definition limiter_after :: "server_ext \<Rightarrow> incoming \<Rightarrow> string limiter option \<Rightarrow> string limiter option" where
  "limiter_after S req limiter =
     (if reaches_limiter S req
      then map_option (\<lambda>l. snd (check (in_now0 req) (in_now req) (in_now' req) (in_ip req) l)) limiter
      else limiter)"

lemma rate_check_state:
  "snd (rate_check req st) = st\<lparr>as_limiter :=
     map_option (\<lambda>l. snd (check (in_now0 req) (in_now req) (in_now' req) (in_ip req) l)) (as_limiter st)\<rparr>"
  by (cases st) (simp add: rate_check_def split: option.splits prod.splits)

lemma prepare_state:
  "(snd (prepare S req st))\<lparr>as_audit := a\<rparr> =
     st\<lparr>as_limiter := limiter_after S req (as_limiter st), as_audit := a\<rparr>"
proof -
  have "(snd (prepare S req st))\<lparr>as_audit := a\<rparr> =
      (if reaches_limiter S req then snd (rate_check req st) else st)\<lparr>as_audit := a\<rparr>"
    by (auto simp: prepare_def reaches_limiter_def prepare_json_def Let_def split: prod.splits bool.splits
        option.splits)
  then show ?thesis by (cases st) (simp add: limiter_after_def rate_check_state)
qed

lemma prepare_admits:
  "fst (prepare S req st) = Inr opts \<Longrightarrow> reaches_limiter S req \<and> fst (rate_check req st)"
  by (auto simp: prepare_def reaches_limiter_def Let_def split: if_splits prod.splits bool.splits)

lemma scan_loop_refuses:
  "scan_loop S st ts path targets sc = (Some response, sc') \<Longrightarrow> hr_status response = 403"
proof (induction targets arbitrary: sc)
  case (Cons t targets)
  have "scan_target_step S st ts path t sc = (Some response, sc1) \<Longrightarrow> hr_status response = 403" for sc1
    by (auto simp: scan_target_step_def block_response_def Let_def split: if_splits option.splits prod.splits)
  with Cons show ?case by (auto split: prod.splits option.splits)
qed simp

lemma prepare_refuses:
  assumes "fst (prepare S req st) = Inl response"
  shows "hr_status response \<in> {403, 429}"
proof -
  have "fst (prepare_json S req path v st1) = Inl response \<Longrightarrow> hr_status response = 403" for path v st1
    by (auto simp: prepare_json_def Let_def split: prod.splits option.splits
        dest!: scan_loop_refuses)
  moreover have "prepare_other S req path st1 = Inl response \<Longrightarrow> hr_status response = 403" for path st1
    by (auto simp: prepare_other_def block_response_def Let_def split: if_splits prod.splits option.splits)
  ultimately show ?thesis
    using assms by (auto simp: prepare_def Let_def block_response_def RATE_LIMITED_def
        split: if_splits prod.splits bool.splits option.splits)
qed

subsection \<open>The running proxy\<close>

record service =
  sv_state :: app_state
  sv_flight :: "json list list"
  sv_clock :: nat

definition service_start :: "app_state \<Rightarrow> nat \<Rightarrow> service" where
  "service_start st t = \<lparr>sv_state = st, sv_flight = [], sv_clock = t\<rparr>"

text \<open>
  A served request with its answer, whether it was handed over for forwarding, and what it logs;
  an event reaching the queue; a run of the prune task.
\<close>

datatype service_label =
    Served incoming http_response bool "json list"
  | Logged json
  | Pruned nat

inductive service_step :: "server_ext \<Rightarrow> service \<Rightarrow> service_label \<Rightarrow> service \<Rightarrow> bool"
  for S :: server_ext where
  step_serve:
    "handler S send req (sv_state s) = (response, st') \<Longrightarrow> evs = request_events S req (sv_state s) \<Longrightarrow>
     forwarded = (\<not> isl (fst (prepare S req (sv_state s)))) \<Longrightarrow>
     sv_clock s \<le> in_now0 req \<Longrightarrow> in_now0 req \<le> in_now req \<Longrightarrow> in_now req \<le> in_now' req \<Longrightarrow>
     service_step S s (Served req response forwarded evs)
       \<lparr>sv_state = st'\<lparr>as_audit := as_audit (sv_state s)\<rparr>, sv_flight = evs # sv_flight s,
        sv_clock = in_now' req\<rparr>"
| step_log:
    "sv_flight s = ls @ (e # es) # ms \<Longrightarrow>
     service_step S s (Logged e)
       (s\<lparr>sv_state := (sv_state s)\<lparr>as_audit := logged [e] (as_audit (sv_state s))\<rparr>,
          sv_flight := ls @ es # ms\<rparr>)"
| step_prune:
    "as_limiter (sv_state s) = Some l \<Longrightarrow> sv_clock s \<le> now \<Longrightarrow>
     service_step S s (Pruned now)
       (s\<lparr>sv_state := (sv_state s)\<lparr>as_limiter := Some (prune now l)\<rparr>, sv_clock := now\<rparr>)"

inductive_cases service_stepE: "service_step S s l s'"

fun log_of :: "service_label list \<Rightarrow> json list" where
  "log_of [] = []"
| "log_of (Logged e # tr) = e # log_of tr"
| "log_of (l # tr) = log_of tr"

lemma log_of_append [simp]: "log_of (tr @ tr') = log_of tr @ log_of tr'"
  by (induction tr rule: log_of.induct) simp_all

subsection \<open>The state stays well formed\<close>

definition limiter_ok :: "nat \<Rightarrow> string limiter \<Rightarrow> string limiter \<Rightarrow> bool" where
  "limiter_ok t l0 l \<longleftrightarrow> requests_per_minute l = requests_per_minute l0 \<and>
     distinct (map fst (buckets l)) \<and>
     list_all (\<lambda>(ip, b). bucket_wf b \<and> max_tokens b = requests_per_minute l0 \<and> last_refill b \<le> t) (buckets l)"

definition service_ok :: "app_state \<Rightarrow> service_label list \<Rightarrow> service \<Rightarrow> bool" where
  "service_ok st0 tr s \<longleftrightarrow>
     (sv_state s)\<lparr>as_limiter := as_limiter st0, as_audit := as_audit st0\<rparr> = st0 \<and>
     rel_option (limiter_ok (sv_clock s)) (as_limiter st0) (as_limiter (sv_state s)) \<and>
     as_audit (sv_state s) = logged (log_of tr) (as_audit st0)"

lemma try_consume_wf:
  assumes "bucket_wf b"
  shows "bucket_wf (snd (try_consume now now' b))" "max_tokens (snd (try_consume now now' b)) = max_tokens b"
    "last_refill (snd (try_consume now now' b)) \<in> {last_refill b, now'}"
proof -
  have wf: "bucket_wf (refill now now' b)" using assms by (simp add: refill_def bucket_wf_def Let_def)
  have "tokens c - 1 \<le> tokens c" if "0 < tokens c" for c
    using that by (simp add: word_le_nat_alt unat_minus_one word_gt_0)
  then show "bucket_wf (snd (try_consume now now' b))"
    using wf by (auto simp: try_consume_def bucket_wf_def Let_def intro: order_trans)
  show "max_tokens (snd (try_consume now now' b)) = max_tokens b"
    "last_refill (snd (try_consume now now' b)) \<in> {last_refill b, now'}"
    by (simp_all add: try_consume_def refill_def Let_def)
qed

lemma limiter_okD:
  "limiter_ok t l0 l \<Longrightarrow> map_of (buckets l) ip = Some b \<Longrightarrow>
   bucket_wf b \<and> max_tokens b = requests_per_minute l0 \<and> last_refill b \<le> t"
  by (auto simp: limiter_ok_def list_all_iff dest!: map_of_SomeD)

lemma list_all_update:
  "P (k, v) \<Longrightarrow> list_all P xs \<Longrightarrow> list_all P (AList.update k v xs)"
  by (induction xs) auto

text \<open>The bucket a check works on.\<close>

definition bucket_for :: "nat \<Rightarrow> string \<Rightarrow> string limiter \<Rightarrow> token_bucket" where
  "bucket_for now0 ip l =
     (case map_of (buckets l) ip of Some b \<Rightarrow> b | None \<Rightarrow> new_bucket (requests_per_minute l) now0)"

lemma check_bucket:
  "check now0 now now' ip l = (fst (try_consume now now' (bucket_for now0 ip l)),
     l\<lparr>buckets := AList.update ip (snd (try_consume now now' (bucket_for now0 ip l))) (buckets l)\<rparr>)"
  by (simp add: check_def bucket_for_def Let_def split: prod.splits)

lemma bucket_for_ok:
  assumes "limiter_ok t l0 l" and "t \<le> now0"
  shows "bucket_wf (bucket_for now0 ip l) \<and> max_tokens (bucket_for now0 ip l) = requests_per_minute l0 \<and>
    last_refill (bucket_for now0 ip l) \<le> now0"
proof (cases "map_of (buckets l) ip")
  case None
  with assms show ?thesis by (simp add: bucket_for_def new_bucket_def bucket_wf_def limiter_ok_def)
next
  case (Some b)
  with limiter_okD [OF assms(1) Some] assms(2) show ?thesis by (simp add: bucket_for_def)
qed

lemma limiter_ok_check:
  assumes "limiter_ok t l0 l" and "t \<le> now0" "now0 \<le> now" "now \<le> now'"
  shows "limiter_ok now' l0 (snd (check now0 now now' ip l))"
proof -
  note b = bucket_for_ok [OF assms(1,2), of ip]
  note c = try_consume_wf [of "bucket_for now0 ip l" now now']
  have "list_all (\<lambda>(ip, b). bucket_wf b \<and> max_tokens b = requests_per_minute l0 \<and> last_refill b \<le> now')
      (buckets l)"
    using assms by (auto simp: limiter_ok_def list_all_iff)
  with b c assms show ?thesis
    by (auto simp: limiter_ok_def check_bucket distinct_update intro!: list_all_update)
qed

lemma limiter_ok_mono: "limiter_ok t l0 l \<Longrightarrow> t \<le> t' \<Longrightarrow> limiter_ok t' l0 l"
  by (auto simp: limiter_ok_def list_all_iff)

lemma limiter_ok_prune: "limiter_ok t l0 l \<Longrightarrow> t \<le> now \<Longrightarrow> limiter_ok now l0 (prune now l)"
  by (auto simp: limiter_ok_def prune_def list_all_iff intro: distinct_map_filter)

lemma service_ok_step:
  assumes "service_ok st0 tr s" and "service_step S s l s'"
  shows "service_ok st0 (tr @ [l]) s'"
  using assms(2)
proof cases
  case (step_serve send req response st' evs forwarded)
  have st': "st' = snd (prepare S req (sv_state s))"
    using handler_state [of S send req "sv_state s"] step_serve(3) by simp
  have a: "st'\<lparr>as_audit := as_audit (sv_state s)\<rparr> =
      (sv_state s)\<lparr>as_limiter := limiter_after S req (as_limiter (sv_state s))\<rparr>"
    unfolding st' prepare_state by (cases "sv_state s") simp
  have "rel_option (limiter_ok (sv_clock s)) (as_limiter st0) (as_limiter (sv_state s))"
    using assms(1) by (simp add: service_ok_def)
  then have "rel_option (limiter_ok (in_now' req)) (as_limiter st0)
      (limiter_after S req (as_limiter (sv_state s)))"
    using step_serve(6-8)
    by (cases "as_limiter st0"; cases "as_limiter (sv_state s)")
      (auto simp: limiter_after_def intro: limiter_ok_check limiter_ok_mono)
  with assms(1) step_serve(1,2) a show ?thesis by (simp add: service_ok_def)
next
  case (step_log ls e es ms)
  with assms(1) show ?thesis by (simp add: service_ok_def)
next
  case (step_prune l now)
  with assms(1) show ?thesis
    by (auto simp: service_ok_def option_rel_Some2 intro: limiter_ok_prune)
qed

subsection \<open>What the labels of a run say\<close>

definition label_ok :: "server_ext \<Rightarrow> service_label \<Rightarrow> bool" where
  "label_ok S l \<longleftrightarrow>
     (case l of
        Served req response forwarded evs \<Rightarrow>
          list_all proxy_event evs \<and>
          (\<not> forwarded \<longrightarrow> hr_status response \<in> {403, 429} \<and>
             (evs \<noteq> [] \<or> reaches_limiter S req \<and> sx_from_slice S (in_body req) = None \<and>
                hr_status response = 403))
      | _ \<Rightarrow> True)"

fun served_events :: "service_label list \<Rightarrow> json list" where
  "served_events [] = []"
| "served_events (Served req response forwarded evs # tr) = evs @ served_events tr"
| "served_events (l # tr) = served_events tr"

lemma served_events_append [simp]: "served_events (tr @ tr') = served_events tr @ served_events tr'"
  by (induction tr rule: served_events.induct) simp_all

definition trace_ok :: "server_ext \<Rightarrow> service_label list \<Rightarrow> service \<Rightarrow> bool" where
  "trace_ok S tr s \<longleftrightarrow> list_all (label_ok S) tr \<and>
     mset (log_of tr) + mset (concat (sv_flight s)) = mset (served_events tr)"

lemma refused_label:
  assumes "handler S send req st = (response, st')" and "isl (fst (prepare S req st))"
  shows "hr_status response \<in> {403, 429} \<and> (request_events S req st \<noteq> [] \<or>
    reaches_limiter S req \<and> sx_from_slice S (in_body req) = None \<and> hr_status response = 403)"
proof -
  from assms(2) obtain r where r: "fst (prepare S req st) = Inl r" by (cases "fst (prepare S req st)") auto
  with assms(1) have eq: "response = r" by (auto simp: handler_def split: prod.splits)
  show ?thesis
  proof (cases "screened S req st")
    case True
    with prepare_refuses [OF r] prepare_refused [OF r] eq show ?thesis by simp
  next
    case False
    then have other: "reaches_limiter S req" "fst (rate_check req st)" "sx_from_slice S (in_body req) = None"
      by (auto simp: screened_def reaches_limiter_def)
    with r have "prepare_other S req (''/'' @ in_path req) (snd (rate_check req st)) = Inl r"
      by (auto simp: prepare_def reaches_limiter_def Let_def split: prod.splits bool.splits)
    then have "hr_status r = 403"
      by (auto simp: prepare_other_def block_response_def Let_def split: if_splits prod.splits option.splits)
    with other eq show ?thesis by simp
  qed
qed

lemma trace_ok_step:
  assumes "trace_ok S tr s" and "service_step S s l s'"
  shows "trace_ok S (tr @ [l]) s'"
  using assms(2)
proof cases
  case (step_serve send req response st' evs forwarded)
  with refused_label [OF step_serve(3)] prepare_events [of S req "sv_state s"]
  have "label_ok S l" by (simp add: label_ok_def)
  with assms(1) step_serve(1,2) show ?thesis by (auto simp: trace_ok_def)
next
  case (step_log ls e es ms)
  with assms(1) show ?thesis by (auto simp: trace_ok_def label_ok_def)
next
  case (step_prune l now)
  with assms(1) show ?thesis by (simp add: trace_ok_def label_ok_def)
qed

definition fresh_state :: "app_state \<Rightarrow> bool" where
  "fresh_state st \<longleftrightarrow> (case as_limiter st of None \<Rightarrow> True | Some l \<Rightarrow> buckets l = []) \<and>
     (case as_audit st of None \<Rightarrow> True | Some q \<Rightarrow> q = [])"

interpretation proxy: safe_machine "service_step S" "service_start st0 t"
    "\<lambda>tr s. fresh_state st0 \<longrightarrow> service_ok st0 tr s \<and> trace_ok S tr s" for S st0 t
proof unfold_locales
  show "fresh_state st0 \<longrightarrow> service_ok st0 [] (service_start st0 t) \<and> trace_ok S [] (service_start st0 t)"
    by (auto simp: fresh_state_def service_ok_def service_start_def limiter_ok_def trace_ok_def
        split: option.splits)
qed (auto intro: service_ok_step trace_ok_step)

lemma started_fresh: "build_router E config = Inr (st, n) \<Longrightarrow> fresh_state st"
  by (auto simp: build_router_def fresh_state_def new_limiter_def open_audit_def Let_def
      split: sum.splits option.splits if_splits)

lemmas started_run = proxy.run_inv [rule_format, OF _ started_fresh]

lemma log_of_proxy_events:
  assumes "trace_ok S tr s"
  shows "list_all proxy_event (log_of tr)"
proof -
  have "list_all proxy_event (served_events tr)" if "list_all (label_ok S) tr"
    using that by (induction tr rule: served_events.induct) (auto simp: label_ok_def)
  moreover have "set (log_of tr) \<subseteq> set (served_events tr)"
    using assms unfolding trace_ok_def by (metis mset_subset_eq_add_left set_mset_mono set_mset_mset)
  ultimately show ?thesis using assms by (auto simp: trace_ok_def list_all_iff)
qed

subsection \<open>The budget of a client\<close>

text \<open>
  What a client has used when it has been let through \<open>n\<close> times: with a bucket, the tokens it
  still holds are covered by the burst and the refill up to the last refill; without one, either
  it never came or its bucket was pruned after two idle minutes, which paid for a full bucket.
\<close>

definition covered :: "nat \<Rightarrow> nat \<Rightarrow> nat \<Rightarrow> nat \<Rightarrow> token_bucket option \<Rightarrow> bool" where
  "covered m t0 t n bucket \<longleftrightarrow>
     (case bucket of
        None \<Rightarrow> n * NANOS_PER_MINUTE \<le> (t - t0) * m
      | Some b \<Rightarrow> t0 \<le> last_refill b \<and>
          (n + unat (tokens b)) * NANOS_PER_MINUTE \<le> m * NANOS_PER_MINUTE + (last_refill b - t0) * m)"

lemma covered_later: "covered m t0 t n bucket \<Longrightarrow> t \<le> t' \<Longrightarrow> covered m t0 t' n bucket"
  by (auto simp: covered_def split: option.splits intro: order_trans mult_le_mono1 diff_le_mono)

lemma covered_new:
  "covered (unat m) t0 t n None \<Longrightarrow> t0 \<le> t \<Longrightarrow> covered (unat m) t0 t n (Some (new_bucket m t))"
  by (simp add: covered_def new_bucket_def add_mult_distrib)

lemma covered_consume:
  assumes "covered (unat (max_tokens b)) t0 t n (Some b)" and "bucket_wf b" and "no_wrap now b"
    and "last_refill b \<le> now" "now \<le> now'"
  shows "covered (unat (max_tokens b)) t0 now' (n + of_bool (fst (try_consume now now' b)))
    (Some (snd (try_consume now now' b)))"
proof -
  let ?M = "unat (max_tokens b)" and ?N = NANOS_PER_MINUTE and ?r = "refill_amount now b"
  obtain ok b' where c: "try_consume now now' b = (ok, b')" by (cases "try_consume now now' b")
  note p = try_consume_props [OF assms(2,3) c]
  have t0: "t0 \<le> last_refill b"
    and cov: "(n + unat (tokens b)) * ?N \<le> ?M * ?N + (last_refill b - t0) * ?M"
    using assms(1) by (simp_all add: covered_def)
  have "?r * ?N \<le> ((now - last_refill b) * ?M div ?N) * ?N"
    by (intro mult_le_mono1) (simp add: refill_amount_def)
  also have "\<dots> \<le> (now - last_refill b) * ?M" by (rule div_times_less_eq_dividend)
  finally have r: "?r * ?N \<le> (now - last_refill b) * ?M" .
  have "(n + of_bool ok + unat (tokens b')) \<le> n + unat (tokens b) + ?r" using p by (auto split: if_splits)
  from mult_le_mono1 [OF this, of ?N]
  have used: "(n + of_bool ok + unat (tokens b')) * ?N \<le> (n + unat (tokens b)) * ?N + ?r * ?N"
    by (simp add: algebra_simps)
  show ?thesis
  proof (cases "0 < ?r")
    case True
    then have last: "last_refill b' = now'" using p by simp
    have "(last_refill b - t0) + (now - last_refill b) \<le> now' - t0" using t0 assms(4,5) by linarith
    from mult_le_mono1 [OF this, of ?M]
    have "(last_refill b - t0) * ?M + (now - last_refill b) * ?M \<le> (now' - t0) * ?M"
      by (simp add: algebra_simps)
    with used cov r t0 assms(4,5) show ?thesis by (simp add: c covered_def last)
  next
    case False
    then have last: "last_refill b' = last_refill b" and r0: "?r = 0" using p by simp_all
    note used [unfolded r0 mult_zero_left add_0_right]
    also note cov
    finally have "(n + of_bool ok + unat (tokens b')) * ?N \<le> ?M * ?N + (last_refill b - t0) * ?M" .
    with t0 show ?thesis unfolding covered_def c fst_conv snd_conv option.case last by blast
  qed
qed

lemma covered_pruned:
  assumes "covered m t0 t n (Some b)" and "is_idle now b"
  shows "covered m t0 now n None"
proof -
  have le: "n * NANOS_PER_MINUTE \<le> m * NANOS_PER_MINUTE + (last_refill b - t0) * m"
    and t0: "t0 \<le> last_refill b" using assms(1) by (auto simp: covered_def algebra_simps)
  have "NANOS_PER_MINUTE + (last_refill b - t0) \<le> now - t0"
    using assms(2) t0 by (simp add: is_idle_def IDLE_PRUNE_AGE_def NANOS_PER_MINUTE_def)
  from mult_le_mono1 [OF this, of m] le show ?thesis by (simp add: covered_def algebra_simps)
qed

lemma covered_bound:
  assumes "covered m t0 t n bucket" and "\<And>b. bucket = Some b \<Longrightarrow> last_refill b \<le> t"
  shows "n * NANOS_PER_MINUTE \<le> m * NANOS_PER_MINUTE + (t - t0) * m"
proof (cases bucket)
  case (Some b)
  with assms have "(last_refill b - t0) * m \<le> (t - t0) * m" by (intro mult_le_mono1 diff_le_mono) simp
  with assms(1) Some show ?thesis by (simp add: covered_def algebra_simps)
qed (use assms(1) in \<open>simp add: covered_def\<close>)

definition forwarded_for :: "string \<Rightarrow> service_label \<Rightarrow> bool" where
  "forwarded_for ip l \<longleftrightarrow>
     (case l of Served req response forwarded evs \<Rightarrow> forwarded \<and> in_ip req = ip | _ \<Rightarrow> False)"

definition forwards :: "string \<Rightarrow> service_label list \<Rightarrow> nat" where
  "forwards ip tr = length (filter (forwarded_for ip) tr)"

lemma forwards_simps [simp]:
  "forwards ip [] = 0"
  "forwards ip (tr @ [Served req response forwarded evs]) =
     forwards ip tr + of_bool (forwarded \<and> in_ip req = ip)"
  "forwards ip (tr @ [Logged e]) = forwards ip tr"
  "forwards ip (tr @ [Pruned now]) = forwards ip tr"
  by (simp_all add: forwards_def forwarded_for_def)

text \<open>A check of the limiter keeps every client covered.\<close>

lemma covered_fewer: "covered m t0 t n bucket \<Longrightarrow> k \<le> n \<Longrightarrow> covered m t0 t k bucket"
  by (auto simp: covered_def split: option.splits elim!: order_trans [rotated] intro: mult_le_mono1)

lemma covered_check:
  assumes "limiter_ok t l0 l" and "t0 \<le> t" "t \<le> now0" "now0 \<le> now" "now \<le> now'"
    and "(now' - t0) * unat (requests_per_minute l0) div NANOS_PER_MINUTE +
      unat (requests_per_minute l0) < 2 ^ 32"
    and "covered (unat (requests_per_minute l0)) t0 t n (map_of (buckets l) ip)"
    and "k \<le> n + of_bool (ip' = ip \<and> fst (check now0 now now' ip' l))"
  shows "covered (unat (requests_per_minute l0)) t0 now' k
    (map_of (buckets (snd (check now0 now now' ip' l))) ip)"
proof (cases "ip' = ip")
  case False
  with assms(8) have "k \<le> n" by simp
  with False covered_fewer [OF covered_later [OF assms(7)]] assms(3-5) show ?thesis
    by (simp add: check_bucket update_conv')
next
  case True
  let ?b = "bucket_for now0 ip l" and ?m = "requests_per_minute l0"
  note b = bucket_for_ok [OF assms(1,3), of ip]
  have cov: "covered (unat ?m) t0 now0 n (Some ?b)"
  proof (cases "map_of (buckets l) ip")
    case None
    with covered_new [OF covered_later [OF assms(7) [unfolded None] assms(3)]] assms(1-3) show ?thesis
      by (simp add: bucket_for_def limiter_ok_def)
  qed (use assms(3,7) in \<open>auto simp: bucket_for_def intro: covered_later\<close>)
  have "no_wrap now ?b"
  proof -
    have "t0 \<le> last_refill ?b" using cov by (simp add: covered_def)
    with assms(5) have "now - last_refill ?b \<le> now' - t0" by linarith
    then have "refill_amount now ?b \<le> (now' - t0) * unat ?m div NANOS_PER_MINUTE"
      using b by (simp add: refill_amount_def min.coboundedI1 div_le_mono)
    moreover have "unat (tokens ?b) \<le> unat ?m" using b by (metis bucket_wf_def word_le_nat_alt)
    ultimately show ?thesis using assms(6) by (simp add: no_wrap_def)
  qed
  with covered_consume [of ?b t0 now0 n now now'] cov b assms(4,5) True assms(8) show ?thesis
    by (auto simp: check_bucket update_conv' intro: covered_fewer)
qed

lemma covered_prune:
  assumes "limiter_ok t l0 l" and "t \<le> now" and "covered m t0 t n (map_of (buckets l) ip)"
  shows "covered m t0 now n (map_of (buckets (prune now l)) ip)"
proof -
  have dist: "distinct (map fst (buckets l))" using assms(1) by (simp add: limiter_ok_def)
  have "map_of (filter (\<lambda>(ip, b). \<not> is_idle now b) bs) ip =
      Option.bind (map_of bs ip) (\<lambda>b. if is_idle now b then None else Some b)"
    if "distinct (map fst bs)" for bs :: "(string \<times> token_bucket) list"
    using that
  proof (induction bs)
    case (Cons x bs)
    show ?case
    proof (cases "fst x = ip")
      case True
      with Cons.prems have "map_of bs ip = None" by (auto simp: map_of_eq_None_iff)
      with True Cons show ?thesis by (cases x) simp
    qed (use Cons in \<open>cases x; simp\<close>)
  qed simp
  from this [OF dist] have get: "map_of (buckets (prune now l)) ip =
      Option.bind (map_of (buckets l) ip) (\<lambda>b. if is_idle now b then None else Some b)"
    by (simp add: prune_def)
  from assms(2,3) show ?thesis
    unfolding get by (cases "map_of (buckets l) ip") (auto intro: covered_pruned covered_later)
qed

lemma budget_run:
  assumes "run (service_step S) (service_start st0 t0) tr s" and "fresh_state st0"
    and "as_limiter st0 = Some l0"
  shows "t0 \<le> sv_clock s \<and>
    ((sv_clock s - t0) * unat (requests_per_minute l0) div NANOS_PER_MINUTE +
       unat (requests_per_minute l0) < 2 ^ 32 \<longrightarrow>
     (\<exists>l. as_limiter (sv_state s) = Some l \<and> limiter_ok (sv_clock s) l0 l \<and>
       covered (unat (requests_per_minute l0)) t0 (sv_clock s) (forwards ip tr) (map_of (buckets l) ip)))"
  (is "_ \<and> (?small (sv_clock s) \<longrightarrow> _)")
  using assms(1)
proof (induction rule: run.induct)
  case run_start
  from assms(2,3) show ?case
    by (auto simp: service_start_def fresh_state_def limiter_ok_def covered_def)
next
  case (run_step tr s l s')
  have small: "?small t' \<Longrightarrow> t \<le> t' \<Longrightarrow> ?small t" for t t'
    by (meson add_le_mono1 diff_le_mono div_le_mono le_less_trans mult_le_mono1)
  have ok: "rel_option (limiter_ok (sv_clock s)) (as_limiter st0) (as_limiter (sv_state s))"
    using proxy.run_inv [rule_format, OF run_step(1) assms(2)] by (simp add: service_ok_def)
  then obtain L where L: "as_limiter (sv_state s) = Some L" "limiter_ok (sv_clock s) l0 L"
    using assms(3) by (auto simp: option_rel_Some1)
  from run_step(2) show ?case
  proof cases
    case (step_serve send req response st' evs forwarded)
    have st': "st' = snd (prepare S req (sv_state s))"
      using handler_state [of S send req "sv_state s"] step_serve(3) by simp
    have lim: "as_limiter st' = limiter_after S req (Some L)"
      using arg_cong [OF prepare_state [where S = S and req = req and st = "sv_state s" and a = None], of as_limiter] L by (simp add: st')
    have le: "sv_clock s \<le> in_now' req" using step_serve(6-8) by simp
    show ?thesis
    proof (cases "reaches_limiter S req")
      case False
      then have "\<not> forwarded"
        using step_serve(5) prepare_admits [of S req "sv_state s"]
        by (cases "fst (prepare S req (sv_state s))") auto
      with False step_serve(1,2) run_step.IH L lim le small [OF _ le] show ?thesis
        by (auto simp: limiter_after_def intro: covered_later limiter_ok_mono)
    next
      case True
      have sent: "forwarded \<Longrightarrow> fst (check (in_now0 req) (in_now req) (in_now' req) (in_ip req) L)"
        using step_serve(5) prepare_admits [of S req "sv_state s"] L
        by (cases "fst (prepare S req (sv_state s))") (auto simp: rate_check_def split: prod.splits)
      have "covered (unat (requests_per_minute l0)) t0 (in_now' req)
          (forwards ip tr + of_bool (forwarded \<and> in_ip req = ip))
          (map_of (buckets (snd (check (in_now0 req) (in_now req) (in_now' req) (in_ip req) L))) ip)"
        if "?small (in_now' req)"
        by (rule covered_check [OF L(2) _ step_serve(6-8) that, where n = "forwards ip tr"])
          (use run_step.IH small [OF that le] L sent in auto)
      with True step_serve(1,2,6-8) run_step.IH le L lim show ?thesis
        by (auto simp: limiter_after_def intro: limiter_ok_check)
    qed
  next
    case (step_log ls e es ms)
    with run_step.IH show ?thesis by simp
  next
    case (step_prune l now)
    with run_step.IH L small [OF _ step_prune(4)] show ?thesis
      by (auto intro: covered_prune limiter_ok_prune)
  qed
qed

subsection \<open>Properties of the running proxy\<close>

text \<open>
  C19 The running proxy stays well formed: in every run of a proxy that was built, however
  requests, log writes and pruning interleave, its settings, routes, rules and credentials are
  those it started with; the limiter is on exactly when it was configured, with one bucket per
  address, the configured budget, at most that many tokens, and no refill in the future; and
  every entry of the audit queue is a JSON object that leaves the \<open>hash\<close> field to the writer.
\<close>

theorem service_well_formed:
  assumes "build_router E config = Inr (st0, n)"
    and "run (service_step S) (service_start st0 t0) tr s"
  shows "(sv_state s)\<lparr>as_limiter := as_limiter st0, as_audit := as_audit st0\<rparr> = st0 \<and>
    rel_option (limiter_ok (sv_clock s)) (as_limiter st0) (as_limiter (sv_state s)) \<and>
    rel_option (\<lambda>q0 q. list_all (\<lambda>e. is_obj e \<and> event_ok e) q) (as_audit st0) (as_audit (sv_state s))"
proof -
  note inv = started_run [OF assms(2,1)]
  then have "list_all (\<lambda>e. is_obj e \<and> event_ok e) (log_of tr)"
    using log_of_proxy_events [of S tr s] by (auto simp: list_all_iff proxy_event_def)
  with inv started_fresh [OF assms(1)] show ?thesis
    by (cases "as_audit st0") (auto simp: service_ok_def fresh_state_def logged_def)
qed

text \<open>
  C17 The budget holds for the running proxy: in every run, the requests of one client address
  that are handed over for forwarding are at most the configured burst plus the sustained rate
  over the time that passed, although other clients, log writes and the pruning of idle buckets
  come in between, as long as the budget is small enough that no refill wraps the counter.
\<close>

theorem client_budget:
  assumes "build_router E config = Inr (st0, n)"
    and "run (service_step S) (service_start st0 t0) tr s" and "as_limiter st0 = Some l0"
    and "(sv_clock s - t0) * unat (requests_per_minute l0) div NANOS_PER_MINUTE +
      unat (requests_per_minute l0) < 2 ^ 32"
  shows "forwards ip tr * NANOS_PER_MINUTE \<le>
    unat (requests_per_minute l0) * NANOS_PER_MINUTE + (sv_clock s - t0) * unat (requests_per_minute l0)"
proof -
  from budget_run [OF assms(2) started_fresh [OF assms(1)] assms(3), of ip] assms(4)
  obtain l where "limiter_ok (sv_clock s) l0 l"
    "covered (unat (requests_per_minute l0)) t0 (sv_clock s) (forwards ip tr) (map_of (buckets l) ip)"
    by blast
  with covered_bound limiter_okD show ?thesis by blast
qed

text \<open>
  C18 What the proxy refuses is on record.  In every run, the queue holds exactly the events
  that were logged, in order; these together with the events in flight are exactly the events
  of the requests served, so none is lost, repeated or invented; and every request that is not
  handed over for forwarding is answered 403 or 429 and has an event of its own, unless it is
  a request that is not JSON, refused with 403 for its body: those leave no event.
\<close>

theorem refusals_on_record:
  assumes "build_router E config = Inr (st0, n)"
    and "run (service_step S) (service_start st0 t0) tr s"
    and "Served req response False evs \<in> set tr"
  shows "as_audit (sv_state s) = map_option (\<lambda>q. log_of tr) (as_audit st0) \<and>
    mset (log_of tr) + mset (concat (sv_flight s)) = mset (served_events tr) \<and>
    hr_status response \<in> {403, 429} \<and>
    ((\<exists>e \<in> set evs. e \<in> set (log_of tr) \<or> e \<in> set (concat (sv_flight s))) \<or>
     evs = [] \<and> sx_from_slice S (in_body req) = None \<and> hr_status response = 403)"
proof -
  note inv = started_run [OF assms(2,1)]
  then have label: "label_ok S (Served req response False evs)"
    and events: "mset (log_of tr) + mset (concat (sv_flight s)) = mset (served_events tr)"
    using assms(3) by (auto simp: trace_ok_def list_all_iff)
  have "e \<in> set (served_events tr)" if "e \<in> set evs" for e
    using assms(3) that by (induction tr rule: served_events.induct) auto
  then have "e \<in> set (log_of tr) \<or> e \<in> set (concat (sv_flight s))" if "e \<in> set evs" for e
    using that events by (metis union_iff set_mset_mset)
  moreover have "as_audit (sv_state s) = map_option (\<lambda>q. log_of tr) (as_audit st0)"
    using inv started_fresh [OF assms(1)]
    by (cases "as_audit st0") (auto simp: service_ok_def fresh_state_def logged_def)
  ultimately show ?thesis using label events by (cases evs) (auto simp: label_ok_def)
qed

text \<open>The queues a running proxy hands to its writer.\<close>

definition service_queue :: "json list \<Rightarrow> bool" where
  "service_queue q \<longleftrightarrow> (\<exists>E config st0 n S t0 tr s. build_router E config = Inr (st0, n) \<and>
     run (service_step S) (service_start st0 t0) tr s \<and> as_audit (sv_state s) = Some q)"

lemma service_queue_events: "service_queue q \<Longrightarrow> list_all proxy_event q"
proof -
  assume "service_queue q"
  then obtain E config st0 n S t0 tr s where run: "build_router E config = Inr (st0, n)"
    "run (service_step S) (service_start st0 t0) tr s" "as_audit (sv_state s) = Some q"
    by (auto simp: service_queue_def)
  note inv = started_run [OF run(2,1)]
  from inv run(3) started_fresh [OF run(1)] have "q = log_of tr"
    by (cases "as_audit st0") (auto simp: service_ok_def fresh_state_def logged_def)
  with log_of_proxy_events inv show ?thesis by blast
qed


subsection \<open>Witnesses\<close>

text \<open>A proxy with an audit log, and a request whose path climbs out of the root.\<close>

definition audited_config :: server_config where
  "audited_config = (start_config sample_cli default_config)\<lparr>sv_audit_log_path := Some ''log''\<rparr>"

definition climbing :: incoming where
  "climbing = sample_incoming\<lparr>in_path := ''a/../b''\<rparr>"

lemma audited_proxy:
  "\<exists>st n. build_router sample_startup audited_config = Inr (st, n) \<and> as_audit st = Some [] \<and>
     as_limiter st = Some (new_limiter 1200)"
proof -
  have "assemble_secret_broker sample_startup None = Inr (snd (register ''keychain''
      (keychain_resolve (su_keyring sample_startup)) (snd (register ''env'' (env_resolve
        (su_getenv sample_startup)) new_broker))))"
    by (simp add: assemble_secret_broker_def registered_def register_def new_broker_def
        env.scheme_valid keychain.scheme_valid)
  then show ?thesis
    by (simp add: sample_startup_def needle_ext_def build_router_def audited_config_def start_config_def
        default_config_def server_engine_def build_engine_def default_dlp_config_def unwrap_or_def
        integrity_gate_def get_hmac_key_def sample_paths_def open_audit_def recover_tip_def
        DEFAULT_REQUESTS_PER_MINUTE_def Let_def)
qed

text \<open>The proxy of the witnesses, and its run: the request is refused and logged.\<close>

lemma climbing_refused:
  "isl (fst (prepare sample_server climbing st)) \<and> screened sample_server climbing st"
proof -
  have "contains_proxy_path_traversal ''/a/../b''" by code_simp
  then show ?thesis by (simp add: prepare_def screened_def climbing_def Let_def)
qed

lemma climbing_run:
  "\<exists>response e es s. run (service_step sample_server) (service_start st 0)
      [Served climbing response False (e # es), Logged e] s \<and> sv_clock s = 0 \<and>
    as_audit (sv_state s) = logged [e] (as_audit st)"
proof -
  let ?s0 = "service_start st 0"
  obtain response st' where h: "handler sample_server (\<lambda>r. Inl Timeout) climbing st = (response, st')"
    by (cases "handler sample_server (\<lambda>r. Inl Timeout) climbing st")
  obtain e es where evs: "request_events sample_server climbing st = e # es"
    using climbing_refused [of st] prepare_refused [of sample_server climbing st]
    by (cases "request_events sample_server climbing st"; cases "fst (prepare sample_server climbing st)") auto
  let ?s1 = "\<lparr>sv_state = st'\<lparr>as_audit := as_audit st\<rparr>, sv_flight = [e # es], sv_clock = 0\<rparr>"
  have "service_step sample_server ?s0 (Served climbing response False (e # es)) ?s1"
    using service_step.step_serve [of sample_server "\<lambda>r. Inl Timeout" climbing ?s0 response st' "e # es" False]
      h evs climbing_refused [of st]
    by (simp add: service_start_def climbing_def sample_incoming_def)
  moreover have "service_step sample_server ?s1 (Logged e)
      (?s1\<lparr>sv_state := (sv_state ?s1)\<lparr>as_audit := logged [e] (as_audit (sv_state ?s1))\<rparr>,
        sv_flight := [] @ es # []\<rparr>)"
    by (rule service_step.step_log) simp
  ultimately have "run (service_step sample_server) ?s0
      ([] @ [Served climbing response False (e # es)] @ [Logged e])
      (?s1\<lparr>sv_state := (sv_state ?s1)\<lparr>as_audit := logged [e] (as_audit (sv_state ?s1))\<rparr>,
        sv_flight := [] @ es # []\<rparr>)"
    unfolding append_assoc [symmetric] by (intro run_step [OF run_step [OF run_start]])
  then show ?thesis by (intro exI conjI) auto
qed

lemma service_well_formed_witness:
  "\<exists>st n tr s. build_router sample_startup audited_config = Inr (st, n) \<and> tr \<noteq> [] \<and>
     run (service_step sample_server) (service_start st 0) tr s \<and>
     rel_option (limiter_ok (sv_clock s)) (as_limiter st) (as_limiter (sv_state s))"
proof -
  obtain st n where b: "build_router sample_startup audited_config = Inr (st, n)"
    using audited_proxy by blast
  obtain response e es s where r: "run (service_step sample_server) (service_start st 0)
      [Served climbing response False (e # es), Logged e] s"
    using climbing_run by blast
  from service_well_formed [OF b r] b r show ?thesis by blast
qed

lemma client_budget_witness:
  "\<exists>st n tr s. build_router sample_startup audited_config = Inr (st, n) \<and>
     run (service_step sample_server) (service_start st 0) tr s \<and>
     forwards ''ip'' tr * NANOS_PER_MINUTE \<le> 1200 * NANOS_PER_MINUTE"
proof -
  obtain st n where b: "build_router sample_startup audited_config = Inr (st, n)"
    and l: "as_limiter st = Some (new_limiter 1200)" using audited_proxy by blast
  obtain tr s where r: "run (service_step sample_server) (service_start st 0) tr s" "sv_clock s = 0"
    using climbing_run by blast
  have "requests_per_minute (new_limiter 1200 :: string limiter) = 1200" by (simp add: new_limiter_def max_def word_le_nat_alt)
  with client_budget [OF b r(1) l, of "''ip''"] r b show ?thesis by auto
qed

lemma refusals_on_record_witness:
  "\<exists>st n response evs tr s. build_router sample_startup audited_config = Inr (st, n) \<and>
     run (service_step sample_server) (service_start st 0) tr s \<and>
     Served climbing response False evs \<in> set tr \<and> hr_status response \<in> {403, 429}"
proof -
  obtain st n where b: "build_router sample_startup audited_config = Inr (st, n)"
    using audited_proxy by blast
  obtain response e es s where r: "run (service_step sample_server) (service_start st 0)
      [Served climbing response False (e # es), Logged e] s"
    using climbing_run by blast
  from refusals_on_record [OF b r, of climbing response "e # es"] b r show ?thesis
    by (metis list.set_intros(1))
qed


end
