(* ===== verification/Launch.thy ===== *)
theory Launch
  imports Operator Bench Service
begin

section \<open>The program as it is launched (src/main.rs, src/server.rs)\<close>

text \<open>
  The entry point: the commands with their arguments, as the command-line parser (the \<open>clap\<close>
  crate, left out) delivers them, what \<open>main\<close> and \<open>run_app\<close> do with each, the listening
  address of the proxy, and the system service commands over a service manager, which is a
  parameter.  The binary is the one for Unix with the default features.  What a command writes
  to standard output is a list of pieces; the console lines of \<open>start\<close>, \<open>sign\<close> and the daemon
  are left out.  The lemmas show that the proxy listens on the loopback interface unless told
  otherwise, and that the commands whose standard output is a protocol write nothing else to it.
\<close>

subsection \<open>IP addresses (std::net)\<close>

text \<open>
  \<open>IpAddr::from_str\<close> of the standard library: four decimal octets without leading zeros, or
  eight hexadecimal groups, of which one run of zeros may be left out and the last two written
  as an IPv4 address.
\<close>

datatype ip_addr = V4 "nat list" | V6 "nat list"

definition digit_value :: "char \<Rightarrow> nat" where
  "digit_value c =
     (if is_ascii_digit c then byte_of c - 48
      else if is_ascii_lowercase c then byte_of c - 87 else byte_of c - 55)"

definition digit_of :: "nat \<Rightarrow> char \<Rightarrow> bool" where
  "digit_of radix c \<longleftrightarrow> (if radix = 10 then is_ascii_digit c else is_ascii_hexdigit c)"

definition read_number :: "nat \<Rightarrow> nat \<Rightarrow> nat \<Rightarrow> bool \<Rightarrow> string \<Rightarrow> (nat \<times> string) option" where
  "read_number radix max_digits bound allow_zero_prefix s =
     (let ds = takeWhile (digit_of radix) s;
          n = foldl (\<lambda>n c. n * radix + digit_value c) 0 ds
      in if ds = [] \<or> max_digits < length ds \<or> bound < n \<or>
            \<not> allow_zero_prefix \<and> 1 < length ds \<and> hd ds = CHR ''0''
         then None else Some (n, drop (length ds) s))"

text \<open>\<open>read_separator\<close>: every item but the first comes after the separator.\<close>

definition read_separated :: "char \<Rightarrow> bool \<Rightarrow> (string \<Rightarrow> 'a option) \<Rightarrow> string \<Rightarrow> 'a option" where
  "read_separated sep first item s =
     (if first then item s
      else (case s of [] \<Rightarrow> None | c # cs \<Rightarrow> if c = sep then item cs else None))"

fun read_octets :: "nat \<Rightarrow> bool \<Rightarrow> string \<Rightarrow> (nat list \<times> string) option" where
  "read_octets n first s =
     (if n = 0 then Some ([], s)
      else (case read_separated (CHR ''.'') first (read_number 10 3 255 False) s of
          None \<Rightarrow> None
        | Some (octet, rest) \<Rightarrow>
            map_option (\<lambda>(os, r). (octet # os, r)) (read_octets (n - 1) False rest)))"

declare read_octets.simps [simp del]

text \<open>Up to \<open>n\<close> groups; the flag tells that the last two were an IPv4 address.\<close>

fun read_groups :: "nat \<Rightarrow> bool \<Rightarrow> string \<Rightarrow> nat list \<times> bool \<times> string" where
  "read_groups n first s =
     (if n = 0 then ([], False, s)
      else (case (if 1 < n then read_separated (CHR '':'') first (read_octets 4 True) s else None) of
          Some (os, rest) \<Rightarrow> ([os ! 0 * 256 + os ! 1, os ! 2 * 256 + os ! 3], True, rest)
        | None \<Rightarrow>
            (case read_separated (CHR '':'') first (read_number 16 4 65535 True) s of
               Some (g, rest) \<Rightarrow> (case read_groups (n - 1) False rest of (gs, v4, r) \<Rightarrow> (g # gs, v4, r))
             | None \<Rightarrow> ([], False, s))))"

declare read_groups.simps [simp del]

definition read_ipv6 :: "string \<Rightarrow> (nat list \<times> string) option" where
  "read_ipv6 s =
     (case read_groups 8 True s of (front, v4, rest) \<Rightarrow>
        if length front = 8 then Some (front, rest)
        else if v4 then None
        else (case strip_prefix ''::'' rest of
            None \<Rightarrow> None
          | Some rest' \<Rightarrow>
              (case read_groups (7 - length front) True rest' of (tail, _, r) \<Rightarrow>
                 Some (front @ replicate (8 - length front - length tail) 0 @ tail, r))))"

definition parse_ip :: "string \<Rightarrow> ip_addr option" where
  "parse_ip s =
     (case read_octets 4 True s of
        Some (os, rest) \<Rightarrow> if rest = [] then Some (V4 os) else None
      | None \<Rightarrow>
          (case read_ipv6 s of
             Some (gs, rest) \<Rightarrow> if rest = [] then Some (V6 gs) else None
           | None \<Rightarrow> None))"

definition is_loopback :: "ip_addr \<Rightarrow> bool" where
  "is_loopback a = (case a of V4 os \<Rightarrow> hd os = 127 | V6 gs \<Rightarrow> gs = [0, 0, 0, 0, 0, 0, 0, 1])"

lemmas ip_evaluation = parse_ip_def read_ipv6_def read_octets.simps read_groups.simps read_separated_def
  read_number_def digit_of_def digit_value_def ascii_defs Let_def

lemma parse_ip_examples:
  "parse_ip ''127.0.0.1'' = Some (V4 [127, 0, 0, 1])" "parse_ip ''::1'' = Some (V6 [0, 0, 0, 0, 0, 0, 0, 1])"
  "parse_ip ''fe80::1:2'' = Some (V6 [65152, 0, 0, 0, 0, 0, 1, 2])"
  "parse_ip ''::ffff:10.0.0.1'' = Some (V6 [0, 0, 0, 0, 0, 65535, 2560, 1])"
  "parse_ip ''1:2:3:4:5:6:7:8'' = Some (V6 [1, 2, 3, 4, 5, 6, 7, 8])"
  "parse_ip ''010.0.0.1'' = None" "parse_ip ''256.0.0.1'' = None" "parse_ip ''1.2.3'' = None"
  "parse_ip ''1.2.3.4.5'' = None" "parse_ip ''localhost'' = None" "parse_ip ''1::2::3'' = None"
  by (simp_all add: ip_evaluation) (simp_all add: eval_nat_numeral)

subsection \<open>The listening proxy\<close>

text \<open>
  \<open>start_server\<close>, up to serving: the address is read before anything is built, and bound
  after.  \<open>listen\<close> is the error of the operating system, if any.
\<close>

definition start_server ::
  "startup_env \<Rightarrow> (ip_addr \<Rightarrow> 16 word \<Rightarrow> string option) \<Rightarrow> server_config \<Rightarrow>
   string + ip_addr \<times> 16 word \<times> app_state" where
  "start_server E listen config =
     (case parse_ip (sv_bind_address config) of
        None \<Rightarrow> Inl (''invalid server.bind_address '' @ SQ @ sv_bind_address config @ SQ @ '': '' @
          ''invalid IP address syntax'')
      | Some ip \<Rightarrow>
          (case build_router E config of
             Inl e \<Rightarrow> Inl e
           | Inr (st, rule_count) \<Rightarrow>
               (case listen ip (sv_port config) of
                  Some e \<Rightarrow> Inl e
                | None \<Rightarrow> Inr (ip, sv_port config, st))))"

definition start_proxy ::
  "startup_env \<Rightarrow> (ip_addr \<Rightarrow> 16 word \<Rightarrow> string option) \<Rightarrow> start_options \<Rightarrow>
   string + ip_addr \<times> 16 word \<times> app_state" where
  "start_proxy E listen cli =
     (case load_config (su_paths E) (ext_lower (su_dlp E)) (su_url E) (su_config_toml E) of
        Inl e \<Rightarrow> Inl e
      | Inr c \<Rightarrow> start_server E listen (start_config cli c))"

text \<open>What listens is what \<open>run_start\<close> builds.\<close>

lemma start_proxy_runs:
  "start_proxy E listen cli = Inr (ip, port, st) \<Longrightarrow> \<exists>n. run_start E cli = Inr (st, n)"
  by (auto simp: start_proxy_def start_server_def run_start_def split: sum.splits option.splits prod.splits)

text \<open>
  Without an address on the command line or in the configuration, nothing outside this machine
  can reach the proxy.
\<close>

lemma listens_locally:
  assumes "start_proxy E listen cli = Inr (ip, port, st)" and "st_bind cli = None"
    and "load_config (su_paths E) (ext_lower (su_dlp E)) (su_url E) (su_config_toml E) = Inr c"
    and "Option.bind (cfg_server c) fs_bind_address = None"
  shows "is_loopback ip"
proof -
  have "sv_bind_address (start_config cli c) = ''127.0.0.1''"
    using assms(2,4) by (simp add: start_config_def unwrap_or_def option_or_def)
  with assms(1,3) have "ip = V4 [127, 0, 0, 1]"
    by (auto simp: start_proxy_def start_server_def parse_ip_examples split: sum.splits option.splits prod.splits)
  then show ?thesis by (simp add: is_loopback_def)
qed

subsection \<open>System service commands\<close>

datatype service_action = InstallService | UninstallService | StartService | StopService

record install_ctx =
  ic_label :: string
  ic_program :: string
  ic_args :: "string list"
  ic_autostart :: bool
  ic_restart_delay_secs :: "nat option"

text \<open>
  The service manager of the platform: each operation gives its error, if any; \<open>sm_detect\<close> and
  \<open>sm_label\<close> are the errors of finding it and of reading the label.
\<close>

record service_manager =
  sm_label :: "string \<Rightarrow> string option"
  sm_detect :: "string option"
  sm_install :: "install_ctx \<Rightarrow> string option"
  sm_uninstall :: "string \<Rightarrow> string option"
  sm_start :: "string \<Rightarrow> string option"
  sm_stop :: "string \<Rightarrow> string option"

definition SERVICE_LABEL :: string where
  "SERVICE_LABEL = ''com.openguardian.shield''"

text \<open>A call of the manager between the lines before and after it.\<close>

definition managed ::
  "printed list \<Rightarrow> string \<Rightarrow> string option \<Rightarrow> string \<Rightarrow> printed list \<times> (string + unit)" where
  "managed before failed err success =
     (case err of
        Some e \<Rightarrow> (before, Inl (failed @ '': '' @ e))
      | None \<Rightarrow> (before @ [PSuccess success], Inr ()))"

definition install_context :: "string \<Rightarrow> install_ctx" where
  "install_context exe = \<lparr>ic_label = SERVICE_LABEL, ic_program = exe, ic_args = [''start''],
     ic_autostart = True, ic_restart_delay_secs = Some 5\<rparr>"

fun service_operation ::
  "service_manager \<Rightarrow> string + string \<Rightarrow> service_action \<Rightarrow> printed list \<times> (string + unit)" where
  "service_operation M exe InstallService =
     (case exe of
        Inl e \<Rightarrow> ([], Inl e)
      | Inr path \<Rightarrow> managed [PStep (''Installing service '' @ SERVICE_LABEL @ ''...'')] ''Installation failed''
          (sm_install M (install_context path)) ''Service installed successfully.'')"
| "service_operation M exe UninstallService =
     managed [PStep (''Uninstalling service '' @ SERVICE_LABEL @ ''...'')] ''Uninstallation failed''
       (sm_uninstall M SERVICE_LABEL) ''Service uninstalled successfully.''"
| "service_operation M exe StartService =
     managed [] ''Failed to start service'' (sm_start M SERVICE_LABEL) ''Service started.''"
| "service_operation M exe StopService =
     managed [] ''Failed to stop service'' (sm_stop M SERVICE_LABEL) ''Service stopped.''"

definition handle_service_command ::
  "service_manager \<Rightarrow> string + string \<Rightarrow> service_action \<Rightarrow> printed list \<times> (string + unit)" where
  "handle_service_command M exe action =
     (case sm_label M SERVICE_LABEL of
        Some e \<Rightarrow> ([], Inl (''invalid native service label: '' @ e))
      | None \<Rightarrow>
          (case sm_detect M of
             Some e \<Rightarrow> ([], Inl (''Failed to detect service manager: '' @ e))
           | None \<Rightarrow> service_operation M exe action))"

text \<open>The installed service runs \<open>start\<close> without options, so it listens as configured.\<close>

lemma installed_service_starts:
  "handle_service_command M (Inr exe) InstallService = (ls, Inr u) \<Longrightarrow>
   sm_install M \<lparr>ic_label = SERVICE_LABEL, ic_program = exe, ic_args = [''start''], ic_autostart = True,
     ic_restart_delay_secs = Some 5\<rparr> = None"
  by (auto simp: handle_service_command_def managed_def install_context_def split: option.splits)

subsection \<open>The environment file\<close>

text \<open>\<open>get_env_path\<close>: beside the executable, or else in the working directory.\<close>

definition get_env_path :: "path_env \<Rightarrow> string" where
  "get_env_path P =
     path_join P (case executable_dir P of
        Some dir \<Rightarrow> dir
      | None \<Rightarrow> (case current_dir P of Some d \<Rightarrow> d | None \<Rightarrow> [])) ''.env''"

subsection \<open>Commands\<close>

datatype broker_action = BrokerStart | BrokerRequest string string

record bench_options =
  bo_corpus :: string
  bo_rules :: "string option"
  bo_gate :: bool
  bo_docs :: "string option"
  bo_json :: "string option"

datatype cli_command =
    CmdStart start_options
  | CmdAudit string
  | CmdSign string
  | CmdBench bench_options
  | CmdService service_action
  | CmdSecret secret_command
  | CmdBroker broker_action
  | CmdMcp
  | CmdPolicy policy_command
  | CmdApprove string "string option" bool
  | CmdDeny string
  | CmdRequests
  | CmdVerify string
  | CmdMcpGateway "string option" "string list"
  | CmdSanitize "string option" "string option"

text \<open>The commands whose standard output is a protocol or a filtered text.\<close>

definition owns_stdout :: "cli_command \<Rightarrow> bool" where
  "owns_stdout c = (case c of CmdMcp \<Rightarrow> True | CmdMcpGateway r w \<Rightarrow> True | CmdSanitize f r \<Rightarrow> True | _ \<Rightarrow> False)"

text \<open>
  What the commands run on: the machine of the start-up, the wire to the daemon, what is typed
  and piped in, the directories and logs, the service manager, the spawned process, and the
  parameters of the benchmark.  The state they change is the other side of the wire, the files,
  and the keychain.
\<close>

record 's console =
  co_env :: startup_env
  co_client :: client_env
  co_host :: client_host
  co_wire :: "'s wire"
  co_digest :: "string \<Rightarrow> string"
  co_norm :: norm_ext
  co_listen :: "ip_addr \<Rightarrow> 16 word \<Rightarrow> string option"
  co_dir :: "string \<Rightarrow> (string + (string + inspected_entry) list) option"
  co_log :: "string \<Rightarrow> file_read"
  co_manager :: service_manager
  co_exe :: "string + string"
  co_seed :: string
  co_typed :: "string + string"
  co_stdin :: "string + string"
  co_read :: "string \<Rightarrow> string + string"
  co_tools :: "mcp_tool list"
  co_spawn :: "string list \<Rightarrow> string + (string \<Rightarrow> string \<times> int option)"
  co_server :: server_ext
  co_incoming :: "bench_case \<Rightarrow> string \<Rightarrow> incoming"
  co_corpus :: "string \<Rightarrow> string + bench_case list"
  co_size :: "string \<Rightarrow> nat option"
  co_mock :: string
  co_fixed :: "nat \<Rightarrow> rat \<Rightarrow> string"
  co_pretty :: "bench_summary \<Rightarrow> string"

record 's machine =
  mc_world :: 's
  mc_files :: files
  mc_keyring :: keyring

datatype piece =
    Banner
  | Line string
  | Report printed
  | Inspected inspection_line
  | Frame "mcp_error + json"
  | Raw string

datatype outcome =
    Ended "string + int"
  | ProxyUp ip_addr "16 word" app_state
  | DaemonUp daemon

definition ended :: "string + string list \<Rightarrow> piece list \<times> outcome" where
  "ended result = (case result of Inl e \<Rightarrow> ([], Ended (Inl e)) | Inr ls \<Rightarrow> (map Line ls, Ended (Inr 0)))"

definition over_wire ::
  "'s machine \<Rightarrow> (string + string list) \<times> 's \<Rightarrow> (piece list \<times> outcome) \<times> 's machine" where
  "over_wire m out = (case out of (result, w) \<Rightarrow> (ended result, m\<lparr>mc_world := w\<rparr>))"

text \<open>A report is written where a path was given and can be written.\<close>

definition write_report ::
  "startup_env \<Rightarrow> string \<Rightarrow> string option \<Rightarrow> string \<Rightarrow> files \<Rightarrow> string option \<times> files" where
  "write_report E what path content fs =
     (case path of
        None \<Rightarrow> (None, fs)
      | Some p \<Rightarrow> if pe_writable (su_policy E) p then (None, fs(p \<mapsto> content))
          else (Some (''cannot write '' @ what @ '' to '' @ p), fs))"

definition run_bench_command ::
  "'s console \<Rightarrow> bench_options \<Rightarrow> 's machine \<Rightarrow> (piece list \<times> outcome) \<times> 's machine" where
  "run_bench_command C opts m =
     (case run_bench (co_env C) (co_server C) (co_incoming C) (co_size C) (bo_corpus opts)
             (co_corpus C (bo_corpus opts)) (bo_rules opts) (co_mock C) False of
        Inl e \<Rightarrow> (([], Ended (Inl e)), m)
      | Inr summary \<Rightarrow>
          (case write_report (co_env C) ''JSON report'' (bo_json opts) (co_pretty C summary) (mc_files m) of
             (Some e, fs) \<Rightarrow> (([], Ended (Inl e)), m\<lparr>mc_files := fs\<rparr>)
           | (None, fs) \<Rightarrow>
               (case write_report (co_env C) ''benchmark document'' (bo_docs opts)
                       (render_docs (co_fixed C) summary) fs of
                  (Some e, fs') \<Rightarrow> (([], Ended (Inl e)), m\<lparr>mc_files := fs'\<rparr>)
                | (None, fs') \<Rightarrow>
                    ((map Report (snd (bench_reports (co_fixed C) (bo_gate opts) False summary)),
                      Ended (if bo_gate opts \<and> \<not> gate_passed summary
                             then Inl ''detection benchmark gate failed'' else Inr 0)),
                     m\<lparr>mc_files := fs'\<rparr>))))"

definition console_engine :: "'s console \<Rightarrow> string option \<Rightarrow> string + dlp_engine" where
  "console_engine C rules =
     (let E = co_env C; P = su_paths E in
      context_engine (su_dlp E) (resolve_resource_path P) (su_read_rules E) (su_rules_toml E)
        (load_config P (ext_lower (su_dlp E)) (su_url E) (su_config_toml E)) rules)"

definition gateway_command ::
  "'s console \<Rightarrow> string option \<Rightarrow> string list \<Rightarrow> piece list \<times> outcome" where
  "gateway_command C rules command =
     (case console_engine C rules of
        Inl e \<Rightarrow> ([], Ended (Inl e))
      | Inr engine \<Rightarrow>
          (case run_gateway (su_dlp (co_env C)) (co_norm C) (ce_print (co_client C)) (ce_parse (co_client C))
                  engine (co_spawn C) command (case co_stdin C of Inr bytes \<Rightarrow> bytes | Inl e \<Rightarrow> []) of
             Inl e \<Rightarrow> ([], Ended (Inl e))
           | Inr (output, code) \<Rightarrow> ([Raw output], Ended (Inr code))))"

definition sanitize_command ::
  "'s console \<Rightarrow> string option \<Rightarrow> string option \<Rightarrow> piece list \<times> outcome" where
  "sanitize_command C file rules =
     (case run_sanitize (su_dlp (co_env C)) (co_norm C) (console_engine C rules)
             (case file of Some path \<Rightarrow> co_read C path | None \<Rightarrow> co_stdin C) of
        Inl e \<Rightarrow> ([], Ended (Inl e))
      | Inr output \<Rightarrow> ([Raw output], Ended (Inr 0)))"

fun run_app ::
  "'s console \<Rightarrow> cli_command \<Rightarrow> 's machine \<Rightarrow> (piece list \<times> outcome) \<times> 's machine" where
  "run_app C (CmdStart opts) m =
     (([], case start_proxy (co_env C) (co_listen C) opts of
         Inl e \<Rightarrow> Ended (Inl e) | Inr (ip, port, st) \<Rightarrow> ProxyUp ip port st), m)"
| "run_app C (CmdAudit path) m =
     (case run_audit path (co_dir C path) of (err, ls) \<Rightarrow>
        ((map Inspected ls, Ended (case err of Some e \<Rightarrow> Inl e | None \<Rightarrow> Inr 0)), m))"
| "run_app C (CmdSign dir) m =
     (([], Ended (case run_sign (co_env C) dir of Inl e \<Rightarrow> Inl e | Inr rules \<Rightarrow> Inr 0)), m)"
| "run_app C (CmdBench opts) m = run_bench_command C opts m"
| "run_app C (CmdService action) m =
     (case handle_service_command (co_manager C) (co_exe C) action of (ls, result) \<Rightarrow>
        ((map Report ls, Ended (map_sum id (\<lambda>u. 0) result)), m))"
| "run_app C (CmdSecret action) m =
     (case handle_secret_command (co_typed C) action (mc_keyring m) of (result, kr) \<Rightarrow>
        (ended result, m\<lparr>mc_keyring := kr\<rparr>))"
| "run_app C (CmdBroker BrokerStart) m =
     (([], case run_daemon (co_env C) of Inl e \<Rightarrow> Ended (Inl e) | Inr D \<Rightarrow> DaemonUp D), m)"
| "run_app C (CmdBroker (BrokerRequest action reason)) m =
     over_wire m (run_broker_request (co_client C) (co_host C) (co_wire C) action reason (mc_world m))"
| "run_app C CmdMcp m =
     (case run_stdio (co_client C) (co_host C) (co_wire C) (co_tools C) (mc_world m) of
        (Inl e, w) \<Rightarrow> (([], Ended (Inl e)), m\<lparr>mc_world := w\<rparr>)
      | (Inr replies, w) \<Rightarrow> ((map Frame replies, Ended (Inr 0)), m\<lparr>mc_world := w\<rparr>))"
| "run_app C (CmdPolicy action) m =
     (case handle_policy_command (co_env C) (co_seed C) action (mc_files m) of (result, fs) \<Rightarrow>
        (ended result, m\<lparr>mc_files := fs\<rparr>))"
| "run_app C (CmdApprove rid code yes) m =
     over_wire m (handle_approve (co_client C) (co_host C) (co_wire C) (co_typed C) rid code yes (mc_world m))"
| "run_app C (CmdDeny rid) m =
     over_wire m (run_deny (co_client C) (co_host C) (co_wire C) rid (mc_world m))"
| "run_app C CmdRequests m = over_wire m (run_requests (co_client C) (co_host C) (co_wire C) (mc_world m))"
| "run_app C (CmdVerify path) m =
     (ended (run_verify (ce_print (co_client C)) (su_from_str (co_env C)) (co_digest C) (co_log C path)), m)"
| "run_app C (CmdMcpGateway rules command) m = (gateway_command C rules command, m)"
| "run_app C (CmdSanitize file rules) m = (sanitize_command C file rules, m)"

text \<open>\<open>main\<close>: the banner, unless the command owns standard output, and the command.\<close>

definition main_program ::
  "'s console \<Rightarrow> cli_command \<Rightarrow> 's machine \<Rightarrow> (piece list \<times> outcome) \<times> 's machine" where
  "main_program C command m =
     (case run_app C command m of ((pieces, result), m') \<Rightarrow>
        (((if owns_stdout command then [] else [Banner]) @ pieces, result), m'))"

subsection \<open>Standard output as a protocol\<close>

text \<open>
  A command that owns standard output writes its payload and nothing else: replies over MCP,
  the sanitized lines of the gateway, the sanitized text, and nothing at all when it fails.
\<close>

lemma protocol_stdout:
  assumes "owns_stdout command" and "main_program C command m = ((pieces, result), m')"
  shows "(command = CmdMcp \<longrightarrow> (\<exists>replies. pieces = map Frame replies)) \<and>
    (command \<noteq> CmdMcp \<longrightarrow> pieces = [] \<or> (\<exists>output. pieces = [Raw output])) \<and>
    (\<forall>e. result = Ended (Inl e) \<longrightarrow> pieces = [])"
  using assms
  by (cases command)
    (auto simp: owns_stdout_def main_program_def gateway_command_def sanitize_command_def
      split: prod.splits sum.splits)

text \<open>What \<open>sanitize\<close> prints trips no detector, also in its matching form, or is the notice.\<close>

lemma sanitize_prints_clean:
  assumes "main_program C (CmdSanitize file rules) m = ((pieces, Ended (Inr 0)), m')"
    and "console_engine C rules = Inr engine"
  shows "\<exists>output. pieces = [Raw output] \<and> (output = SUPPRESSED_BY_DLP \<or>
    check_violations (su_dlp (co_env C)) engine (normalize_for_matching (co_norm C) output) = None)"
  using assms
  by (auto simp: main_program_def owns_stdout_def sanitize_command_def run_sanitize_def sanitize_text_def
      Let_def split: sum.splits if_splits)

text \<open>Only the commands for policies and the benchmark touch files.\<close>

lemma files_kept:
  assumes "run_app C command m = (out, m')" and "\<And>p. command \<noteq> CmdPolicy p" and "\<And>b. command \<noteq> CmdBench b"
  shows "mc_files m' = mc_files m"
  using assms
  by (cases "(C, command, m)" rule: run_app.cases) (auto simp: over_wire_def split: prod.splits sum.splits)

end
