(* ===== verification/Spec2Isabelle.thy ===== *)
theory Spec2Isabelle
  imports Prelude Json Extract Dlp Session Broker_State Json_Codec Audit_Chain
    Secret_Ref Vault Config Router Rate_Limit Smuggling Normalizer Utf8 Context_Dlp
    Broker_Policy Broker_Exec Broker_Ipc Broker_Channels Broker_Runs Proxy Server Integrity Startup
    Broker_Client Operator Bench Service Launch
begin

text \<open>
  Verification of Open Guardian, a guard between AI agents, language model providers and the
  operating system.  The program has two services and some tools around them.

  The proxy (src/src/server.rs, src/src/proxy.rs) receives the requests of an agent for a
  provider.  It checks the transfer headers (security/smuggling.rs) and the rate of the client
  (security/rate_limit.rs), extracts every string of the body that can carry text
  (pipeline/extract.rs), replaces the secrets in them by tokens (security/dlp.rs), looks at a
  matching form of each text for disguised secrets (security/normalizer.rs), picks a model
  (router.rs), resolves the provider's credential (secrets/) and forwards.  On the way back it
  removes secrets from the response for good, and puts the values of tokens back where they
  came from.  Decisions go to a hash-chained audit log (security/audit_chain.rs).

  The action broker (src/src/broker/) is a daemon on a loopback socket.  An agent asks for an
  action of a signed policy (policy.rs), an operator approves it with a code the agent never
  sees (state.rs, ipc.rs), the daemon runs it with secrets in the environment of the child and
  returns the sanitized output, once (execute.rs, ipc.rs).

  Context DLP (context.rs) sanitizes text and the tool results of a wrapped MCP server with
  the same engine.


  Theories, in the order of their imports.

  \<^item> Prelude: bytes, Rust's string operations (a \<open>str\<close> is the list of its UTF-8 bytes), the
    collections of rewrite rules, and generic lemmas.  Runs: two contracts for step relations
    as locales, \<open>safe_machine\<close> (an invariant every step keeps) and \<open>one_shot\<close> (a label that
    happens at most once).
  \<^item> Json: \<open>serde_json::Value\<close> with its pointer operations; an object is the list of its entries
    in iteration order.  Json_Codec: printing and parsing as the locale \<open>json_codec\<close> with its
    laws, and the instance the witnesses run on.
  \<^item> Extract (pipeline/extract.rs): \<open>extract_scan_targets\<close> is the walk with its queue,
    \<open>replace_scan_target\<close> writes back.  What is extracted is there, what is there and long
    enough is extracted, and writing back changes exactly one string.
  \<^item> Dlp (security/dlp.rs): rules, \<open>build_engine\<close>, \<open>check_violations\<close>, \<open>redact_permanent\<close>.
    Session (security/dlp.rs): \<open>redact_session\<close>, \<open>restore_at\<close> and the token store,
    its invariant \<open>tokens_ok\<close>, agreement with detection, and
    noninterference of restoration.
  \<^item> Normalizer (security/normalizer.rs): \<open>normalize_for_matching\<close>; invisible characters and
    homoglyphs make no difference to it.
  \<^item> Smuggling, Rate_Limit, Router, Config (security/smuggling.rs, security/rate_limit.rs,
    router.rs, config.rs): the checks before forwarding, token buckets at \<open>u32\<close> width, the
    saturating score, and the checks a configuration passes when it loads.
  \<^item> Secret_Ref (secrets/reference.rs, secrets/mod.rs) and Vault
    (secrets/vault_payload.rs, secrets/vault.rs, secrets/keychain.rs): references, the
    dispatching broker and its three backends.
  \<^item> Audit_Chain (security/audit_chain.rs): the writer and \<open>verify\<close>; what the writer
    writes verifies, and a verified log is determined by its length and its last hash.
    Integrity (security/integrity.rs): the signed manifest of a rules directory.
  \<^item> Proxy (proxy.rs): what happens to a response body, as one piece, as JSON and as a stream of
    events, and \<open>forward_request\<close>.  Server (server.rs): \<open>handler\<close>, split as the source is into
    what precedes the hand-over (\<open>prepare\<close>) and the hand-over.  Startup (server.rs, main.rs,
    broker/mod.rs): \<open>build_router\<close>, \<open>start\<close>, \<open>sign\<close> and \<open>run_daemon\<close>, which put the parts
    together.
  \<^item> Broker_State (broker/state.rs): the request store, its invariant, and its runs as the step
    relation \<open>broker_step\<close>.  Broker_Policy (broker/policy.rs): checks, keys, signing, loading and
    sudoers rules.  Broker_Exec with Utf8 (broker/execute.rs): the child's command and its
    output, decoded as \<open>from_utf8_lossy\<close> does.  Broker_Ipc (broker/ipc.rs): the handlers as
    functions of the daemon's state.  Broker_Channels: what each bearer role can learn and do.
    Broker_Runs: runs of the daemon as \<open>ipc_step\<close>, refining \<open>broker_step\<close>.
  \<^item> Context_Dlp (context.rs): \<open>sanitize_text\<close>, tool results, the two pumps and \<open>run_gateway\<close>.
  \<^item> Broker_Client (broker/client.rs, broker/mcp.rs): \<open>post\<close> and the calls over a \<open>wire\<close>, a
    function on the state of the other side; \<open>daemon_wire\<close> puts the handlers of Broker_Ipc
    there, with a schedule of what other callers, executions and sweeps do in between.  What a
    call gives is the view (\<open>reply_view\<close>) of what the handler replied; the MCP tools say
    exactly what the daemon holds and nothing of the codes.
  \<^item> Operator (main.rs, audit.rs): the commands with the lines they print.  The approval command
    is bounded, and takes the single-use result; a request over MCP reaches execution.
  \<^item> Bench (bench.rs): the benchmark drives \<open>Server.handler\<close> against its mock upstream; what a
    passed gate says of the handler, what the statistics count, and the text of the generated
    document and the printed summary.
  \<^item> Service (server.rs, security/rate_limit.rs, security/audit_chain.rs): the built proxy in
    operation as \<open>service_step\<close>, which interleaves requests, the events they send to the audit
    queue, and pruning.  In every run the state stays well formed, a client stays within its
    budget, refusals are on record, and the log that results verifies across restarts.
  \<^item> Launch (main.rs, server.rs, bench.rs): the listening address, the system service commands,
    and \<open>main\<close> with \<open>run_app\<close> on every command.


  How the model corresponds to the code.  Structs are records and enums datatypes with the
  source's fields and constructors.  A \<open>Result\<close> is a sum with the error on the left, a panic is
  a value of its own, and shared state behind a lock is a state that is passed in and returned;
  the daemon's tasks are interleaved at the points where the source takes or releases its
  locks.  Counters of a fixed width wrap, saturate or panic as the source writes them; instants
  are nanoseconds since some start, an argument of the operations that read the clock, one
  argument per reading.  Hash maps are association lists without repeated keys.  Random
  draws and fresh ids are arguments.

  Parameters stand for code outside the repository: the \<open>regex\<close> crate (a compiled rule is the
  function from a haystack to its captures), \<open>serde_json\<close> and TOML text, URL parsing, Unicode
  tables, base64 and hex decoding, SHA-256, HMAC, ed25519 and age, the file system, the
  environment, the native key store, processes, the network, and how the anyhow crate words a
  policy error.  Each property names what it
  needs of them (\<open>regex_ok\<close>, \<open>policy_env_ok\<close>, the \<open>json_codec\<close> laws), and its witness runs it on
  concrete functions that satisfy it.

  Fuel.  No definition that models code takes fuel.  The walk of Extract ends because the sizes
  of the values in its queue decrease, the pumps, the decoding of UTF-8 and the event stream
  because the text left decreases, and the loops over scan targets, response chunks, policy
  actions and log lines are structural.  The depth argument of \<open>decode_recursive\<close> is the bound
  the source itself counts down.  The sample codec of Json_Codec counts down the length of its
  text; its law of reading back shows that this is enough.


  Not modelled.  The command-line parser, the reading of the .env file and the Windows service
  entry in main.rs, which are third-party crates; building the reqwest client; the JSON text of the benchmark summary; the
  rmcp transport and the HTTP stack; console output and log lines, except what the operator
  commands and the benchmark print; the listening sockets, graceful shutdown and desktop notifications; the
  zeroing of freed memory, which has no counterpart in a value.  The
  audit queue is unbounded, as in the source; an append that fails writes nothing in the model.
\<close>

end
